(* ===== verification/Dmmr_Prelude.thy ===== *)
theory Dmmr_Prelude
  imports Main "HOL-Library.Word"
begin

unbundle bit_operations_syntax

text \<open>
  Shared types, byte-order primitives and list lemmas of the development.

  Memory is modelled byte by byte.  The host is little-endian (x86-64, AArch64 Linux, the
  platforms of the repository's Dockerfile), so the memory image of an integer is
  \<open>le_bytes\<close>; network byte order is \<open>be_bytes\<close>.
\<close>

section \<open>Machine types\<close>

type_synonym u8 = "8 word"
type_synonym u16 = "16 word"
type_synonym u32 = "32 word"
type_synonym u64 = "64 word"
type_synonym bytes = "u8 list"

named_theorems codec_simps \<open>equations that move between integers and their byte images\<close>
named_theorems const_defs \<open>definitions of the configuration constants\<close>
named_theorems inv_intros \<open>an operation keeps the invariant of its component\<close>

definition cstr :: "string \<Rightarrow> bytes" where
  "cstr s = map of_char s"

lemma length_cstr [simp]: "length (cstr s) = length s"
  by (simp add: cstr_def)

lemma cstr_Nil [simp]: "cstr [] = []"
  by (simp add: cstr_def)

lemma cstr_Cons [simp]: "cstr (c # s) = of_char c # cstr s"
  by (simp add: cstr_def)

section \<open>Byte images of integers\<close>

definition le_bytes :: "nat \<Rightarrow> 'a::len word \<Rightarrow> bytes" where
  "le_bytes n w = map (\<lambda>i. ucast (drop_bit (8 * i) w)) [0..<n]"

fun of_le :: "bytes \<Rightarrow> 'a::len word" where
  "of_le [] = 0"
| "of_le (b # bs) = ucast b OR push_bit 8 (of_le bs)"

definition be_bytes :: "nat \<Rightarrow> 'a::len word \<Rightarrow> bytes" where
  "be_bytes n w = rev (le_bytes n w)"

definition of_be :: "bytes \<Rightarrow> 'a::len word" where
  "of_be bs = of_le (rev bs)"

lemma length_le_bytes [simp]: "length (le_bytes n w) = n"
  by (simp add: le_bytes_def)

lemma length_be_bytes [simp]: "length (be_bytes n w) = n"
  by (simp add: be_bytes_def)

lemma nth_le_bytes: "i < n \<Longrightarrow> le_bytes n w ! i = ucast (drop_bit (8 * i) w)"
  by (simp add: le_bytes_def)

lemma bit_of_le:
  "bit (of_le bs :: 'a::len word) k \<longleftrightarrow>
     k < LENGTH('a) \<and> k < 8 * length bs \<and> bit (bs ! (k div 8)) (k mod 8)"
proof (induction bs arbitrary: k)
  case Nil
  then show ?case by simp
next
  case (Cons b bs)
  show ?case
  proof (cases "k < 8")
    case True
    then show ?thesis
      by (auto simp: bit_or_iff bit_push_bit_iff bit_ucast_iff)
  next
    case False
    then obtain j where j: "k = j + 8"
      by (metis add.commute le_Suc_ex not_less)
    have nb: "\<not> bit b (j + 8)"
      by (rule impossible_bit) simp
    have "(k div 8) = Suc (j div 8)" and "k mod 8 = j mod 8"
      using j by simp_all
    then show ?thesis
      using False Cons.IH [of j] j nb
      by (auto simp: bit_or_iff bit_push_bit_iff bit_ucast_iff)
  qed
qed

lemma of_le_le_bytes:
  fixes w :: "'a::len word"
  assumes "LENGTH('a) = 8 * n"
  shows "of_le (le_bytes n w) = w"
proof (rule bit_word_eqI)
  fix k assume k: "k < LENGTH('a)"
  then have "k div 8 < n" using assms by auto
  moreover have "8 * (k div 8) + k mod 8 = k" by simp
  ultimately show "bit (of_le (le_bytes n w) :: 'a word) k \<longleftrightarrow> bit w k"
    using k assms
    by (simp add: bit_of_le nth_le_bytes bit_ucast_iff bit_drop_bit_eq)
qed

lemma le_bytes_of_le:
  assumes "LENGTH('a::len) = 8 * n" and "length bs = n"
  shows "le_bytes n (of_le bs :: 'a word) = bs"
proof (rule nth_equalityI)
  show "length (le_bytes n (of_le bs :: 'a word)) = length bs" using assms by simp
next
  fix i assume "i < length (le_bytes n (of_le bs :: 'a word))"
  then have i: "i < n" by simp
  show "le_bytes n (of_le bs :: 'a word) ! i = bs ! i"
  proof (rule bit_word_eqI)
    fix k assume "k < LENGTH(8)"
    then have "k < 8" by simp
    then have "(8 * i + k) div 8 = i" and "(8 * i + k) mod 8 = k" and "8 * i + k < 8 * n"
      using i by simp_all
    with \<open>k < 8\<close> i assms show "bit (le_bytes n (of_le bs :: 'a word) ! i) k \<longleftrightarrow> bit (bs ! i) k"
      by (simp add: nth_le_bytes bit_ucast_iff bit_drop_bit_eq bit_of_le)
  qed
qed

lemma le_bytes_inj:
  fixes w v :: "'a::len word"
  assumes "LENGTH('a) = 8 * n" and "le_bytes n w = le_bytes n v"
  shows "w = v"
  by (metis assms of_le_le_bytes)

lemma of_be_be_bytes:
  fixes w :: "'a::len word"
  assumes "LENGTH('a) = 8 * n"
  shows "of_be (be_bytes n w) = w"
  by (simp add: of_be_def be_bytes_def of_le_le_bytes [OF assms])

lemma be_bytes_of_be:
  assumes "LENGTH('a::len) = 8 * n" and "length bs = n"
  shows "be_bytes n (of_be bs :: 'a word) = bs"
  using le_bytes_of_le [OF assms(1), of "rev bs"] assms(2) by (simp add: of_be_def be_bytes_def)

lemma le_codec [codec_simps]:
  "of_le (le_bytes 2 a) = (a :: u16)"
  "of_le (le_bytes 4 b) = (b :: u32)"
  "of_le (le_bytes 8 c) = (c :: u64)"
  by (simp_all add: of_le_le_bytes)

lemma be_codec [codec_simps]:
  "of_be (be_bytes 2 a) = (a :: u16)"
  "of_be (be_bytes 4 b) = (b :: u32)"
  "of_be (be_bytes 8 c) = (c :: u64)"
  by (simp_all add: of_be_be_bytes)

section \<open>Host/network conversions of the C library\<close>

text \<open>\<open>htons\<close> and \<open>htonl\<close> of a little-endian host reverse the bytes; \<open>ntohs\<close> and \<open>ntohl\<close>
  are the same functions.\<close>

definition bswap :: "nat \<Rightarrow> 'a::len word \<Rightarrow> 'a word" where
  "bswap n w = of_le (be_bytes n w)"

definition htons :: "u16 \<Rightarrow> u16" where "htons = bswap 2"
definition htonl :: "u32 \<Rightarrow> u32" where "htonl = bswap 4"
definition ntohs :: "u16 \<Rightarrow> u16" where "ntohs = bswap 2"
definition ntohl :: "u32 \<Rightarrow> u32" where "ntohl = bswap 4"

lemma le_bytes_bswap:
  fixes w :: "'a::len word"
  assumes "LENGTH('a) = 8 * n"
  shows "le_bytes n (bswap n w) = be_bytes n w"
  using le_bytes_of_le [OF assms, of "be_bytes n w"] by (simp add: bswap_def)

lemma bswap_of_le:
  assumes "LENGTH('a::len) = 8 * n" and "length bs = n"
  shows "bswap n (of_le bs :: 'a word) = of_be bs"
  using le_bytes_of_le [OF assms] by (simp add: bswap_def be_bytes_def of_be_def)

lemma bswap_bswap:
  fixes w :: "'a::len word"
  assumes "LENGTH('a) = 8 * n"
  shows "bswap n (bswap n w) = w"
proof -
  have "bswap n (bswap n w) = of_be (be_bytes n w)"
    using bswap_of_le [OF assms, of "be_bytes n w"] by (simp add: bswap_def)
  then show ?thesis using of_be_be_bytes [OF assms] by simp
qed

lemma htons_wire [codec_simps]: "le_bytes 2 (htons a) = be_bytes 2 a"
  by (simp add: htons_def le_bytes_bswap)

lemma htonl_wire [codec_simps]: "le_bytes 4 (htonl b) = be_bytes 4 b"
  by (simp add: htonl_def le_bytes_bswap)

lemma ntohs_wire [codec_simps]: "length bs = 2 \<Longrightarrow> ntohs (of_le bs) = of_be bs"
  by (simp add: ntohs_def bswap_of_le)

lemma ntohl_wire [codec_simps]: "length bs = 4 \<Longrightarrow> ntohl (of_le bs) = of_be bs"
  by (simp add: ntohl_def bswap_of_le)

lemma bit_bswap:
  fixes w :: "'a::len word"
  assumes "LENGTH('a) = 8 * n" and "k < 8 * n"
  shows "bit (bswap n w) k \<longleftrightarrow> bit w (8 * (n - Suc (k div 8)) + k mod 8)"
proof -
  have k: "k div 8 < n" "k mod 8 < 8" using assms(2) by auto
  then have "be_bytes n w ! (k div 8) = ucast (drop_bit (8 * (n - Suc (k div 8))) w)"
    by (simp add: be_bytes_def rev_nth nth_le_bytes)
  with k assms show ?thesis
    by (simp add: bswap_def bit_of_le bit_ucast_iff bit_drop_bit_eq)
qed

section \<open>Slices of a buffer\<close>

text \<open>\<open>sub off n bs\<close> is what \<open>memcpy(dst, buf + off, n)\<close> copies out of a buffer \<open>bs\<close>.\<close>

definition sub :: "nat \<Rightarrow> nat \<Rightarrow> 'a list \<Rightarrow> 'a list" where
  "sub off n bs = take n (drop off bs)"

lemma length_sub [simp]: "length (sub off n bs) = min n (length bs - off)"
  by (simp add: sub_def)

lemma sub_0_append [simp]: "length a = n \<Longrightarrow> sub 0 n (a @ b) = a"
  by (simp add: sub_def)

lemma sub_append_skip: "length a \<le> off \<Longrightarrow> sub off n (a @ b) = sub (off - length a) n b"
  by (simp add: sub_def)

lemma sub_0_all: "length a = n \<Longrightarrow> sub 0 n a = a"
  by (simp add: sub_def)

section \<open>Fixed-size encodings\<close>

text \<open>
  The interface of a fixed-size encoding, as the code uses it for integers on the wire, for the
  frame headers and for the stored record header: an encoder, a decoder that reads a buffer of
  that size, and the law that decoding undoes encoding.
\<close>

locale byte_codec =
  fixes width :: nat and enc :: "'a \<Rightarrow> bytes" and dec :: "bytes \<Rightarrow> 'a"
  assumes length_enc: "length (enc x) = width"
    and dec_enc: "dec (enc x) = x"
begin

lemma enc_inj: "enc x = enc y \<longleftrightarrow> x = y"
  by (metis dec_enc)

lemma dec_head: "dec (take width (enc x @ rest)) = x"
  by (simp add: length_enc dec_enc)

lemma tail_after: "drop width (enc x @ rest) = rest"
  by (simp add: length_enc)

lemma stream_inj:
  assumes "0 < width" and "concat (map enc xs) = concat (map enc ys)"
  shows "xs = ys"
  using assms(2)
proof (induction xs arbitrary: ys)
  case Nil
  show ?case
  proof (cases ys)
    case (Cons y ys')
    then have "enc y = []" using Nil by simp
    then show ?thesis using assms(1) length_enc [of y] by simp
  qed simp
next
  case (Cons x xs)
  show ?case
  proof (cases ys)
    case Nil
    then have "enc x = []" using Cons.prems by simp
    then show ?thesis using assms(1) length_enc [of x] by simp
  next
    case (Cons y ys')
    then have "enc x @ concat (map enc xs) = enc y @ concat (map enc ys')"
      using Cons.prems by simp
    then have "enc x = enc y" and "concat (map enc xs) = concat (map enc ys')"
      by (simp_all add: length_enc append_eq_append_conv)
    then show ?thesis using Cons.IH \<open>ys = y # ys'\<close> by (simp add: enc_inj)
  qed
qed

end

interpretation wire16: byte_codec 2 "be_bytes 2 :: u16 \<Rightarrow> bytes" of_be
  by unfold_locales (simp_all add: codec_simps)

interpretation wire32: byte_codec 4 "be_bytes 4 :: u32 \<Rightarrow> bytes" of_be
  by unfold_locales (simp_all add: codec_simps)

interpretation wire64: byte_codec 8 "be_bytes 8 :: u64 \<Rightarrow> bytes" of_be
  by unfold_locales (simp_all add: codec_simps)

section \<open>Lending objects\<close>

text \<open>
  What the clients of the object pools rely on: \<open>inv p out\<close> says that exactly the handles \<open>out\<close> are
  lent, \<open>lends p h p'\<close> that a request was served with \<open>h\<close>, and \<open>give_back\<close> returns a handle.
\<close>

locale lender =
  fixes inv :: "'p \<Rightarrow> 'h set \<Rightarrow> bool"
    and lends :: "'p \<Rightarrow> 'h \<Rightarrow> 'p \<Rightarrow> bool"
    and give_back :: "'h \<Rightarrow> 'p \<Rightarrow> 'p"
  assumes lends_fresh: "inv p out \<Longrightarrow> lends p h p' \<Longrightarrow> h \<notin> out \<and> inv p' (insert h out)"
    and give_back_lent: "inv p out \<Longrightarrow> h \<in> out \<Longrightarrow> inv (give_back h p) (out - {h})"
begin

lemma borrow_return:
  assumes "inv p out" and "lends p h p'"
  shows "inv (give_back h p') out"
proof -
  have "h \<notin> out" and "inv p' (insert h out)" using lends_fresh [OF assms] by simp_all
  then show ?thesis using give_back_lent [of p' "insert h out" h] by simp
qed

text \<open>A queue of pooled objects: the objects in the queue \<open>q\<close> and those \<open>busy\<close> taken from it are
  the lent ones, without overlap.\<close>

definition queue_inv :: "'p \<Rightarrow> ('h \<times> 'a) list \<Rightarrow> 'h set \<Rightarrow> bool" where
  "queue_inv p q busy \<longleftrightarrow>
     inv p (fst ` set q \<union> busy) \<and> distinct (map fst q) \<and> fst ` set q \<inter> busy = {}"

lemma queue_insert_tail:
  assumes "queue_inv p q busy" and "lends p h p'"
  shows "queue_inv p' (q @ [(h, x)]) busy"
  using assms lends_fresh [of p "fst ` set q \<union> busy" h p'] by (auto simp: queue_inv_def)

lemma queue_remove_head:
  assumes "queue_inv p ((h, x) # q) busy"
  shows "queue_inv p q (insert h busy)" and "h \<notin> busy"
  using assms by (auto simp: queue_inv_def image_iff)

lemma queue_release:
  assumes "queue_inv p q busy" and "h \<in> busy"
  shows "queue_inv (give_back h p) q (busy - {h})"
proof -
  have "fst ` set q \<union> busy - {h} = fst ` set q \<union> (busy - {h})"
    using assms by (auto simp: queue_inv_def)
  then show ?thesis
    using assms give_back_lent [of p "fst ` set q \<union> busy" h] by (auto simp: queue_inv_def)
qed

end

end
