(* ===== verification/Dmmr_String.thy ===== *)
theory Dmmr_String
  imports Dmmr_Prelude
begin

text \<open>
  C strings and the run-time configuration: \<open>strlcpy\<close> (\<open>dmmr_string.c\<close>), the parts of \<open>strtol\<close>,
  \<open>strtoul\<close>, \<open>strchr\<close>, \<open>strrchr\<close> and \<open>strsep\<close> the sources use, and the readers of environment variables
  of \<open>dmmr_config.h\<close>.  A C string is the list of its bytes before the terminating zero; where the
  memory matters (\<open>strlcpy\<close>) it is the array it lies in, and an access outside an array gives \<open>None\<close>.
\<close>

section \<open>strlcpy\<close>

definition c_string :: "bytes \<Rightarrow> bytes" where
  "c_string mem = takeWhile (\<lambda>b. b \<noteq> 0) mem"

text \<open>The loop \<open>while (--n != 0)\<close>; \<open>i\<close> is the common offset of \<open>d\<close> and \<open>s\<close>.\<close>

fun strlcpy_loop :: "nat \<Rightarrow> nat \<Rightarrow> bytes \<Rightarrow> bytes \<Rightarrow> (nat \<times> nat \<times> bytes) option" where
  "strlcpy_loop 0 i dst src = Some (0, i, dst)"
| "strlcpy_loop (Suc n) i dst src =
     (if n = 0 then Some (0, i, dst)
      else if i \<ge> length src \<or> i \<ge> length dst then None
      else if src ! i = 0 then Some (n, Suc i, dst[i := 0])
      else strlcpy_loop n (Suc i) (dst[i := src ! i]) src)"

text \<open>The loop \<open>while (*s++)\<close>.\<close>

fun skip_string :: "nat \<Rightarrow> bytes \<Rightarrow> nat option" where
  "skip_string i [] = None"
| "skip_string i (b # bs) = (if b = 0 then Some (Suc i) else skip_string (Suc i) bs)"

definition strlcpy :: "bytes \<Rightarrow> bytes \<Rightarrow> nat \<Rightarrow> (nat \<times> bytes) option" where
  "strlcpy dst src siz =
     (case strlcpy_loop siz 0 dst src of
        None \<Rightarrow> None
      | Some (n, i, dst') \<Rightarrow>
          if n = 0
          then (if siz \<noteq> 0 \<and> i \<ge> length dst' then None
                else (case skip_string i (drop i src) of
                        None \<Rightarrow> None
                      | Some j \<Rightarrow> Some (j - 1, if siz \<noteq> 0 then dst'[i := 0] else dst')))
          else Some (i - 1, dst'))"

lemma c_string_split:
  "0 \<in> set mem \<Longrightarrow> \<exists>rest. mem = c_string mem @ 0 # rest"
  unfolding c_string_def by (induction mem) auto

lemma c_string_nz: "0 \<notin> set (c_string mem)"
  unfolding c_string_def by (auto dest: set_takeWhileD)

lemma c_string_app: "0 \<notin> set s \<Longrightarrow> c_string (s @ 0 # rest) = s"
  unfolding c_string_def by (induction s) auto

lemma skip_string_end: "0 \<notin> set s \<Longrightarrow> skip_string i (s @ 0 # rest) = Some (Suc (i + length s))"
  by (induction s arbitrary: i) auto

lemma strlcpy_loop_copies:
  assumes "src = s @ 0 # rest" and "0 \<notin> set s" and "i \<le> length s" and "i + n \<le> length dst"
    and "take i dst = take i s"
  shows "\<exists>dst'. length dst' = length dst \<and>
     (if n = 0 \<or> n - 1 \<le> length s - i
      then strlcpy_loop n i dst src = Some (0, i + (n - 1), dst') \<and> take (i + (n - 1)) dst' = take (i + (n - 1)) s
           \<and> drop (i + (n - 1)) dst' = drop (i + (n - 1)) dst
      else (\<exists>m. m > 0 \<and> strlcpy_loop n i dst src = Some (m, Suc (length s), dst'))
           \<and> take (Suc (length s)) dst' = s @ [0] \<and> drop (Suc (length s)) dst' = drop (Suc (length s)) dst)"
  using assms
proof (induction n arbitrary: i dst)
  case (Suc n)
  show ?case
  proof (cases "n = 0")
    case False
    have i: "i < length src" "i < length dst" using Suc.prems False by auto
    show ?thesis
    proof (cases "i = length s")
      case True
      with Suc.prems False have "strlcpy_loop (Suc n) i dst src = Some (n, Suc (length s), dst[i := 0])" by simp
      moreover have "take (Suc (length s)) (dst[i := 0]) = s @ [0]"
        using Suc.prems(5) True i(2) by (simp add: take_Suc_conv_app_nth take_update_cancel)
      ultimately show ?thesis using True False by (intro exI [of _ "dst[i := 0]"]) auto
    next
      case lt: False
      with Suc.prems have il: "i < length s" by simp
      with Suc.prems have c: "src ! i = s ! i" "s ! i \<noteq> 0" by (auto simp: nth_append in_set_conv_nth)
      have step: "strlcpy_loop (Suc n) i dst src = strlcpy_loop n (Suc i) (dst[i := s ! i]) src"
        using False i c by simp
      have tk: "take (Suc i) (dst[i := s ! i]) = take (Suc i) s"
        using Suc.prems(5) i(2) il by (simp add: take_Suc_conv_app_nth take_update_cancel)
      from Suc.IH [of "Suc i" "dst[i := s ! i]"] Suc.prems il tk obtain dst' where d: "length dst' = length dst"
        "(if n = 0 \<or> n - 1 \<le> length s - Suc i
          then strlcpy_loop n (Suc i) (dst[i := s ! i]) src = Some (0, Suc i + (n - 1), dst')
               \<and> take (Suc i + (n - 1)) dst' = take (Suc i + (n - 1)) s
               \<and> drop (Suc i + (n - 1)) dst' = drop (Suc i + (n - 1)) (dst[i := s ! i])
          else (\<exists>m. m > 0 \<and> strlcpy_loop n (Suc i) (dst[i := s ! i]) src = Some (m, Suc (length s), dst'))
               \<and> take (Suc (length s)) dst' = s @ [0]
               \<and> drop (Suc (length s)) dst' = drop (Suc (length s)) (dst[i := s ! i]))"
        by auto
      moreover have "Suc i + (n - 1) = i + n" "(n - 1 \<le> length s - Suc i) = (n \<le> length s - i)"
        using False il by auto
      ultimately show ?thesis using False il step
        by (intro exI [of _ dst']) (simp add: drop_update_cancel split: if_splits)
    qed
  qed (use Suc.prems in auto)
qed auto

lemma strlcpy_string:
  assumes "0 \<in> set src" and "siz \<le> length dst"
  shows "\<exists>dst'. strlcpy dst src siz = Some (length (c_string src), dst') \<and> length dst' = length dst
     \<and> (siz > 0 \<longrightarrow> c_string dst' = take (siz - 1) (c_string src))
     \<and> drop siz dst' = drop siz dst \<and> (siz = 0 \<longrightarrow> dst' = dst)"
proof -
  let ?s = "c_string src"
  obtain rest where src: "src = ?s @ 0 # rest" using c_string_split [OF assms(1)] by blast
  note nz = c_string_nz [of src]
  from strlcpy_loop_copies [OF src nz, of 0 siz dst] assms(2) obtain dst' where d: "length dst' = length dst"
    "(if siz = 0 \<or> siz - 1 \<le> length ?s
      then strlcpy_loop siz 0 dst src = Some (0, siz - 1, dst') \<and> take (siz - 1) dst' = take (siz - 1) ?s
           \<and> drop (siz - 1) dst' = drop (siz - 1) dst
      else (\<exists>m. m > 0 \<and> strlcpy_loop siz 0 dst src = Some (m, Suc (length ?s), dst'))
           \<and> take (Suc (length ?s)) dst' = ?s @ [0] \<and> drop (Suc (length ?s)) dst' = drop (Suc (length ?s)) dst)"
    by (auto cong: if_cong)
  show ?thesis
  proof (cases "siz = 0 \<or> siz - 1 \<le> length ?s")
    case True
    have sk: "skip_string (siz - 1) (drop (siz - 1) src) = Some (Suc (length ?s))"
    proof -
      have "drop (siz - 1) src = drop (siz - 1) ?s @ 0 # rest" using True by (subst src) auto
      moreover have "0 \<notin> set (drop (siz - 1) ?s)" using nz by (meson in_set_dropD)
      ultimately show ?thesis using True skip_string_end [of "drop (siz - 1) ?s" "siz - 1" rest] by auto
    qed
    show ?thesis
    proof (cases "siz = 0")
      case True
      with sk have "strlcpy dst src siz = Some (length ?s, dst)" by (simp add: strlcpy_def)
      with True show ?thesis by (intro exI [of _ dst]) simp
    next
      case False
      then have lt: "siz - 1 < length dst'" using assms(2) d(1) by simp
      have e: "dst'[siz - 1 := 0] = take (siz - 1) ?s @ 0 # drop siz dst"
      proof -
        have dr: "drop siz xs = drop 1 (drop (siz - 1) xs)" for xs :: bytes using False by simp
        have "take (siz - 1) dst' = take (siz - 1) ?s" "drop (siz - 1) dst' = drop (siz - 1) dst"
          using True d(2) by simp_all
        then have "drop siz dst' = drop siz dst" by (simp only: dr)
        with \<open>take (siz - 1) dst' = take (siz - 1) ?s\<close> False lt show ?thesis by (simp add: upd_conv_take_nth_drop)
      qed
      have nzt: "0 \<notin> set (take (siz - 1) ?s)" using nz by (meson in_set_takeD)
      have "strlcpy_loop siz 0 dst src = Some (0, siz - 1, dst')" using True d(2) by simp
      then have "strlcpy dst src siz = Some (length ?s, dst'[siz - 1 := 0])"
        using False lt sk by (simp add: strlcpy_def)
      moreover have "c_string (dst'[siz - 1 := 0]) = take (siz - 1) ?s"
        using c_string_app [OF nzt] by (simp only: e)
      moreover have "drop siz (dst'[siz - 1 := 0]) = drop siz dst"
      proof -
        have "length (take (siz - 1) ?s) = siz - 1" using True False by simp
        then show ?thesis using False by (simp only: e) simp
      qed
      ultimately show ?thesis using False d(1) by (intro exI [of _ "dst'[siz - 1 := 0]"]) simp
    qed
  next
    case False
    let ?k = "Suc (length ?s)"
    from False d(2) have tk: "take ?k dst' = ?s @ [0]" and dr: "drop ?k dst' = drop ?k dst"
      and ex: "\<exists>m. m > 0 \<and> strlcpy_loop siz 0 dst src = Some (m, ?k, dst')" by simp_all
    have "dst' = (?s @ [0]) @ drop ?k dst" using append_take_drop_id [of ?k dst'] by (simp only: tk dr)
    then have "dst' = ?s @ 0 # drop ?k dst" by simp
    then have "c_string dst' = ?s" using c_string_app [OF nz] by metis
    moreover have "drop siz dst' = drop siz dst"
    proof -
      have "siz = siz - ?k + ?k" using False by linarith
      then have "drop siz xs = drop (siz - ?k) (drop ?k xs)" for xs :: bytes by (metis drop_drop)
      then show ?thesis by (simp only: dr)
    qed
    moreover from ex have "strlcpy dst src siz = Some (length ?s, dst')" by (auto simp: strlcpy_def)
    ultimately show ?thesis using False d(1) by (intro exI [of _ dst']) simp
  qed
qed

text \<open>The string left by a copy into an array of \<open>siz > 0\<close> bytes.\<close>

definition strlcpy_text :: "nat \<Rightarrow> bytes \<Rightarrow> bytes" where
  "strlcpy_text siz s = take (siz - 1) s"

lemma strlcpy_text_correct:
  assumes "0 \<in> set src" and "siz > 0" and "siz \<le> length dst"
  shows "\<exists>n dst'. strlcpy dst src siz = Some (n, dst') \<and> c_string dst' = strlcpy_text siz (c_string src)"
  using strlcpy_string [OF assms(1,3)] assms(2) by (auto simp: strlcpy_text_def)

lemma strlcpy_text_fits [simp]: "length s < siz \<Longrightarrow> strlcpy_text siz s = s"
  by (simp add: strlcpy_text_def)

section \<open>Numbers\<close>

text \<open>The white space \<open>strtol\<close> skips in the C locale.\<close>

definition is_space :: "u8 \<Rightarrow> bool" where
  "is_space b \<longleftrightarrow> b = 32 \<or> (9 \<le> b \<and> b \<le> 13)"

definition is_digit :: "nat \<Rightarrow> u8 \<Rightarrow> bool" where
  "is_digit base b \<longleftrightarrow> 48 \<le> unat b \<and> unat b < 48 + base"

definition digits_value :: "nat \<Rightarrow> bytes \<Rightarrow> nat" where
  "digits_value base ds = foldl (\<lambda>v d. v * base + (unat d - 48)) 0 ds"

text \<open>The subject sequence: sign, digits, rest; no digit at all leaves \<open>*endptr\<close> at the start.\<close>

definition scan_number :: "nat \<Rightarrow> bytes \<Rightarrow> (bool \<times> nat \<times> bytes)" where
  "scan_number base text =
     (let t = dropWhile is_space text;
          neg = (t \<noteq> [] \<and> hd t = 45);
          u = (if t \<noteq> [] \<and> (hd t = 45 \<or> hd t = 43) then tl t else t);
          ds = takeWhile (is_digit base) u
      in if ds = [] then (False, 0, text)
         else (neg, digits_value base ds, dropWhile (is_digit base) u))"

text \<open>Results are \<open>(errno \<noteq> 0, value, *endptr)\<close>; \<open>long\<close> has 64 bits.\<close>

definition strtol :: "nat \<Rightarrow> bytes \<Rightarrow> bool \<times> int \<times> bytes" where
  "strtol base text =
     (let (neg, n, rest) = scan_number base text; v = (if neg then - int n else int n) in
      if v > 2 ^ 63 - 1 then (True, 2 ^ 63 - 1, rest)
      else if v < - (2 ^ 63) then (True, - (2 ^ 63), rest)
      else (False, v, rest))"

definition strtoul :: "nat \<Rightarrow> bytes \<Rightarrow> bool \<times> nat \<times> bytes" where
  "strtoul base text =
     (let (neg, n, rest) = scan_number base text in
      if n > 2 ^ 64 - 1 then (True, 2 ^ 64 - 1, rest)
      else (False, if neg then (2 ^ 64 - n) mod 2 ^ 64 else n, rest))"

text \<open>\<open>snprintf ("%u")\<close>.\<close>

fun dec_digits :: "nat \<Rightarrow> bytes" where
  "dec_digits n = (if n < 10 then [of_nat (48 + n)] else dec_digits (n div 10) @ [of_nat (48 + n mod 10)])"

declare dec_digits.simps [simp del]

lemma digit_byte: "d < 10 \<Longrightarrow> is_digit 10 (of_nat (48 + d)) \<and> unat (of_nat (48 + d) :: u8) = 48 + d"
  by (simp add: is_digit_def unsigned_of_nat take_bit_eq_mod del: of_nat_add)

lemma dec_digits_digits: "\<forall>d \<in> set (dec_digits n). is_digit 10 d"
proof (induction n rule: dec_digits.induct)
  case (1 n)
  then show ?case
    by (subst dec_digits.simps) (auto simp: digit_byte simp del: of_nat_add)
qed

lemma dec_digits_nonempty [simp]: "dec_digits n \<noteq> []"
  by (subst dec_digits.simps) simp

lemma digits_value_snoc: "digits_value b (ds @ [d]) = digits_value b ds * b + (unat d - 48)"
  by (simp add: digits_value_def)

lemma digits_value_dec: "digits_value 10 (dec_digits n) = n"
proof (induction n rule: dec_digits.induct)
  case (1 n)
  show ?case
  proof (cases "n < 10")
    case True
    then show ?thesis
      by (subst dec_digits.simps) (simp add: digits_value_def digit_byte del: of_nat_add)
  next
    case False
    with 1 show ?thesis
      by (subst dec_digits.simps) (simp add: digits_value_snoc digit_byte del: of_nat_add)
  qed
qed

lemma digit_not_space_sign: "is_digit b d \<Longrightarrow> \<not> is_space d \<and> d \<noteq> 45 \<and> d \<noteq> 43"
  by (auto simp: is_digit_def is_space_def word_le_nat_alt)

lemma scan_number_dec: "scan_number 10 (dec_digits n) = (False, n, [])"
proof -
  obtain d ds where e: "dec_digits n = d # ds" by (cases "dec_digits n") auto
  have all: "\<forall>x \<in> set (dec_digits n). is_digit 10 x" by (rule dec_digits_digits)
  then have "\<not> is_space d" "d \<noteq> 45" "d \<noteq> 43" using e digit_not_space_sign by auto
  moreover have "takeWhile (is_digit 10) (dec_digits n) = dec_digits n" "dropWhile (is_digit 10) (dec_digits n) = []"
    using all by auto
  ultimately show ?thesis using digits_value_dec [of n] by (simp add: scan_number_def Let_def e)
qed

lemma strtol_dec: "n \<le> 2 ^ 63 - 1 \<Longrightarrow> strtol 10 (dec_digits n) = (False, int n, [])"
  by (simp add: strtol_def scan_number_dec)

lemma length_dec_digits: "n < 10 ^ k \<Longrightarrow> k > 0 \<Longrightarrow> length (dec_digits n) \<le> k"
proof (induction k arbitrary: n)
  case (Suc k)
  show ?case
  proof (cases "n < 10")
    case False
    with Suc.prems have "k \<noteq> 0" by (cases k) auto
    with Suc False show ?thesis by (subst dec_digits.simps) (auto simp: less_mult_imp_div_less)
  qed (subst dec_digits.simps, simp)
qed simp

section \<open>Searching\<close>

text \<open>The offset of the first and of the last occurrence.\<close>

definition strchr :: "u8 \<Rightarrow> bytes \<Rightarrow> nat option" where
  "strchr c s = (if c \<in> set s then Some (length (takeWhile (\<lambda>b. b \<noteq> c) s)) else None)"

definition strrchr :: "u8 \<Rightarrow> bytes \<Rightarrow> nat option" where
  "strrchr c s = map_option (\<lambda>i. length s - 1 - i) (strchr c (rev s))"

text \<open>The successive results of \<open>strsep\<close> with one delimiter; a trailing delimiter gives an empty token.\<close>

fun strsep_all :: "u8 \<Rightarrow> bytes \<Rightarrow> bytes list" where
  "strsep_all d [] = [[]]"
| "strsep_all d (b # bs) =
     (if b = d then [] # strsep_all d bs
      else (case strsep_all d bs of [] \<Rightarrow> [[b]] | t # ts \<Rightarrow> (b # t) # ts))"

lemma strchr_first: "c \<notin> set a \<Longrightarrow> strchr c (a @ c # b) = Some (length a)"
  unfolding strchr_def by (induction a) auto

lemma strchr_none: "c \<notin> set s \<Longrightarrow> strchr c s = None"
  by (simp add: strchr_def)

lemma strrchr_last: "c \<notin> set b \<Longrightarrow> strrchr c (a @ c # b) = Some (length a)"
  using strchr_first [of c "rev b" "rev a"] by (simp add: strrchr_def)

lemma strchr_split: "strchr c s = Some i \<Longrightarrow> \<exists>a b. s = a @ c # b \<and> c \<notin> set a \<and> i = length a"
  using split_list_first [of c s] strchr_first by (fastforce simp: strchr_def split: if_splits)

lemma strsep_all_nonempty [simp]: "strsep_all d s \<noteq> []"
  by (cases s) (auto split: list.splits)

lemma strsep_all_last: "d \<notin> set s \<Longrightarrow> strsep_all d s = [s]"
  by (induction s) auto

lemma strsep_all_first: "d \<notin> set s \<Longrightarrow> strsep_all d (s @ d # rest) = s # strsep_all d rest"
  by (induction s) auto

section \<open>Environment variables\<close>

type_synonym environment = "string \<Rightarrow> bytes option"

definition dmmr_env_string :: "environment \<Rightarrow> string \<Rightarrow> bytes \<Rightarrow> bytes" where
  "dmmr_env_string getenv name default_value =
     (case getenv name of Some v \<Rightarrow> if v \<noteq> [] then v else default_value | None \<Rightarrow> default_value)"

definition dmmr_env_int :: "environment \<Rightarrow> string \<Rightarrow> int \<Rightarrow> int \<Rightarrow> int \<Rightarrow> int" where
  "dmmr_env_int getenv name default_value min_value max_value =
     (case getenv name of
        None \<Rightarrow> default_value
      | Some v \<Rightarrow>
          if v = [] then default_value
          else let (errno, parsed, rest) = strtol 10 v in
            if errno \<or> rest \<noteq> [] \<or> parsed < min_value \<or> parsed > max_value then default_value else parsed)"

definition dmmr_env_mode :: "environment \<Rightarrow> string \<Rightarrow> nat \<Rightarrow> nat" where
  "dmmr_env_mode getenv name default_value =
     (case getenv name of
        None \<Rightarrow> default_value
      | Some v \<Rightarrow>
          if v = [] then default_value
          else let (errno, parsed, rest) = strtoul 8 v in
            if errno \<or> rest \<noteq> [] \<or> parsed > 511 then default_value else parsed)"

lemma env_int_range:
  "lo \<le> dflt \<Longrightarrow> dflt \<le> hi \<Longrightarrow> lo \<le> dmmr_env_int env name dflt lo hi \<and> dmmr_env_int env name dflt lo hi \<le> hi"
  by (auto simp: dmmr_env_int_def Let_def split: option.splits prod.splits)

lemma env_int_dec:
  assumes "env name = Some (dec_digits n)" and "lo \<le> int n" and "int n \<le> hi" and "hi \<le> 2 ^ 31 - 1"
  shows "dmmr_env_int env name dflt lo hi = int n"
  using assms strtol_dec [of n] by (simp add: dmmr_env_int_def)

lemma env_mode_range: "dflt \<le> 511 \<Longrightarrow> dmmr_env_mode env name dflt \<le> 511"
  by (auto simp: dmmr_env_mode_def Let_def split: option.splits prod.splits)

section \<open>What a bounded copy leaves\<close>

text \<open>\<open>strlcpy\<close> into an array of at least \<open>siz > 0\<close> bytes touches only its first \<open>siz\<close> bytes, leaves there
  a terminated string, the longest prefix of the source that fits, and returns the length of the
  source: a result of \<open>siz\<close> or more says exactly that the copy was cut.\<close>

theorem strlcpy_bounded:
  assumes "0 \<in> set src" and "siz > 0" and "siz \<le> length dst"
  shows "\<exists>n dst'. strlcpy dst src siz = Some (n, dst') \<and> n = length (c_string src)
     \<and> length dst' = length dst \<and> drop siz dst' = drop siz dst
     \<and> c_string dst' = take (siz - 1) (c_string src)
     \<and> (n \<ge> siz \<longleftrightarrow> c_string dst' \<noteq> c_string src)"
proof -
  from strlcpy_string [OF assms(1,3)] assms(2) obtain dst' where
    d: "strlcpy dst src siz = Some (length (c_string src), dst')" "length dst' = length dst"
      "drop siz dst' = drop siz dst" "c_string dst' = take (siz - 1) (c_string src)" by blast
  have "take (siz - 1) (c_string src) = c_string src \<longleftrightarrow> length (c_string src) < siz"
    using assms(2) by (auto simp: take_all_iff)
  with d show ?thesis by (intro exI [of _ "length (c_string src)"] exI [of _ dst']) auto
qed

theorem strlcpy_bounded_witness:
  "\<exists>n dst'. strlcpy (replicate 6 7) (cstr ''dmmr'' @ [0, 1]) 3 = Some (n, dst') \<and> n = 4
     \<and> length dst' = 6 \<and> drop 3 dst' = replicate 3 7 \<and> c_string dst' = cstr ''dm''
     \<and> n \<ge> (3 :: nat) \<and> c_string dst' \<noteq> cstr ''dmmr''"
proof -
  have "c_string (cstr ''dmmr'' @ [0, 1]) = cstr ''dmmr''"
    using c_string_app [of "cstr ''dmmr''" "[1]"] by simp
  moreover have "take 2 (cstr ''dmmr'') = cstr ''dm''" by simp
  ultimately show ?thesis
    using strlcpy_bounded [of "cstr ''dmmr'' @ [0, 1]" 3 "replicate 6 7"] by (simp add: eval_nat_numeral del: cstr_Cons)
qed

end
