(* ===== verification/Ngx_Core.thy ===== *)
theory Ngx_Core
  imports Dmmr_String "HOL-Library.Sublist"
begin

text \<open>
  The data of the nginx module (\<open>ngx_http_dmmr_module.h\<close>): routes, services, the context of a request, the
  configuration, and the part of a request the module reads.

  nginx itself is not part of the repository.  Its return codes are the constructors of a type, so that a
  proof uses nothing but their being different.  The functions and macros the module calls are the fields of
  \<open>ngx_api\<close>; what the module relies on is \<open>ngx_api_ok\<close>, which restates their documentation.
  Allocations from a pool succeed or fail as the stream \<open>rq_mem\<close> of the request says.
\<close>

section \<open>nginx\<close>

datatype ngx_rc =
    NGX_OK | NGX_ERROR | NGX_DECLINED
  | NGX_HTTP_UNAUTHORIZED | NGX_HTTP_FORBIDDEN | NGX_HTTP_NOT_FOUND | NGX_HTTP_TOO_MANY_REQUESTS
  | NGX_HTTP_INTERNAL_SERVER_ERROR | NGX_HTTP_SERVICE_UNAVAILABLE

text \<open>
  \<open>nx_strncasecmp a b n\<close> tells whether the call returns 0; \<open>nx_atoi\<close> and \<open>nx_parse_size\<close> are negative on a
  malformed number; \<open>nx_strlchr s c\<close> is the place of the first \<open>c\<close>; \<open>nx_sockaddr_strlen\<close> is
  \<open>NGX_SOCKADDR_STRLEN\<close>; \<open>nx_unset_uint\<close> is \<open>NGX_CONF_UNSET_UINT\<close> and the \<open>nx_merge\<close> fields are the merge
  macros for integers and times, for flags and for strings, \<open>None\<close> standing for an unset flag or string.
\<close>

record ngx_api =
  nx_strncasecmp :: "bytes \<Rightarrow> bytes \<Rightarrow> nat \<Rightarrow> bool"
  nx_atoi :: "bytes \<Rightarrow> int"
  nx_parse_size :: "bytes \<Rightarrow> int"
  nx_pagesize :: nat
  nx_strlchr :: "bytes \<Rightarrow> u8 \<Rightarrow> nat option"
  nx_sockaddr_strlen :: nat
  nx_crc32_short :: "bytes \<Rightarrow> u32"
  nx_unset_uint :: u64
  nx_merge_uint :: "u64 \<Rightarrow> u64 \<Rightarrow> u64 \<Rightarrow> u64"
  nx_merge_flag :: "bool option \<Rightarrow> bool option \<Rightarrow> bool \<Rightarrow> bool option"
  nx_merge_str :: "bytes option \<Rightarrow> bytes option \<Rightarrow> bytes \<Rightarrow> bytes option"

definition ascii_lower :: "u8 \<Rightarrow> u8" where
  "ascii_lower c = (if 65 \<le> c \<and> c \<le> 90 then c + 32 else c)"

definition same_text :: "bytes \<Rightarrow> bytes \<Rightarrow> bool" where
  "same_text a b \<longleftrightarrow> map ascii_lower a = map ascii_lower b"

definition ngx_api_ok :: "ngx_api \<Rightarrow> bool" where
  "ngx_api_ok nx \<longleftrightarrow>
     (\<forall>a b n. n \<le> length a \<longrightarrow> n \<le> length b \<longrightarrow> 0 \<notin> set (take n b) \<longrightarrow>
        nx_strncasecmp nx a b n = same_text (take n a) (take n b)) \<and>
     (\<forall>c p d. nx_merge_uint nx c p d =
        (if c = nx_unset_uint nx then if p = nx_unset_uint nx then d else p else c)) \<and>
     nx_unset_uint nx = - 1 \<and>
     (\<forall>c p d. nx_merge_flag nx c p d = (if c = None then if p = None then Some d else p else c)) \<and>
     (\<forall>c p d. nx_merge_str nx c p d = (if c = None then if p = None then Some d else p else c)) \<and>
     (\<forall>s c. case nx_strlchr nx s c of None \<Rightarrow> c \<notin> set s | Some i \<Rightarrow> i < length s \<and> s ! i = c \<and> c \<notin> set (take i s)) \<and>
     nx_sockaddr_strlen nx \<le> 255"

text \<open>\<open>strncmp\<close> of the C library, asked for equality only; the callers hold \<open>n\<close> bytes or a terminator.\<close>

fun strncmp_eq :: "nat \<Rightarrow> bytes \<Rightarrow> bytes \<Rightarrow> bool" where
  "strncmp_eq (Suc n) (x # xs) (y # ys) = (x = y \<and> (x = 0 \<or> strncmp_eq n xs ys))"
| "strncmp_eq 0 _ _ = True"
| "strncmp_eq _ _ _ = False"

lemma strncmp_eq_take:
  "0 \<notin> set ys \<Longrightarrow> length ys = n \<Longrightarrow> n \<le> length xs \<Longrightarrow> strncmp_eq n xs ys = (take n xs = ys)"
  by (induction n xs ys rule: strncmp_eq.induct) auto

lemma prefix_take_eq: "prefix p s \<longleftrightarrow> length p \<le> length s \<and> take (length p) s = p"
  by (metis append_eq_conv_conj prefix_def prefix_length_le)

lemma same_text_refl [simp]: "same_text a a"
  by (simp add: same_text_def)

lemma same_text_length: "same_text a b \<Longrightarrow> length a = length b"
  unfolding same_text_def by (rule map_eq_imp_length_eq)

lemma ngx_strncasecmpD:
  "ngx_api_ok nx \<Longrightarrow> length a = n \<Longrightarrow> length b = n \<Longrightarrow> 0 \<notin> set b \<Longrightarrow> nx_strncasecmp nx a b n = same_text a b"
  by (simp add: ngx_api_ok_def)

lemma ngx_strlchrD:
  assumes "ngx_api_ok nx"
  shows "nx_strlchr nx s c = None \<longleftrightarrow> c \<notin> set s"
    and "nx_strlchr nx s c = Some i \<Longrightarrow> i < length s \<and> s ! i = c \<and> c \<notin> set (take i s)"
proof -
  have *: "case nx_strlchr nx s c of None \<Rightarrow> c \<notin> set s | Some i \<Rightarrow> i < length s \<and> s ! i = c \<and> c \<notin> set (take i s)"
    using assms unfolding ngx_api_ok_def by blast
  then show "nx_strlchr nx s c = None \<longleftrightarrow> c \<notin> set s"
    by (auto split: option.splits)
  show "nx_strlchr nx s c = Some i \<Longrightarrow> i < length s \<and> s ! i = c \<and> c \<notin> set (take i s)"
    using * by simp
qed

lemma ngx_merge_uintD:
  "ngx_api_ok nx \<Longrightarrow> nx_merge_uint nx c p d = (if c = - 1 then if p = - 1 then d else p else c)"
  by (auto simp: ngx_api_ok_def)

section \<open>Routes, services, contexts\<close>

text \<open>A string whose \<open>data\<close> may be \<open>NULL\<close>.\<close>

type_synonym ngx_str = "bytes option"

record ngx_route =
  rt_path :: bytes
  rt_method :: bytes
  rt_service_name :: "bytes option"
  rt_hosts :: "bytes list option"
  rt_strip_path :: bool
  rt_preserve_host :: bool
  rt_priority :: u64

record ngx_service =
  svc_name :: bytes
  svc_protocol :: bytes
  svc_host :: bytes
  svc_port :: bytes
  svc_path :: bytes

record ngx_ctx =
  cx_route :: "ngx_route option"
  cx_service :: "ngx_service option"
  cx_upstream_name :: "bytes option"
  cx_new_uri :: "bytes option"
  cx_authenticated :: bool
  cx_auth_user :: "ngx_str option"

definition ctx_zero :: ngx_ctx where
  "ctx_zero = \<lparr>cx_route = None, cx_service = None, cx_upstream_name = None, cx_new_uri = None,
     cx_authenticated = False, cx_auth_user = None\<rparr>"

text \<open>
  \<open>enable\<close> is \<open>None\<close> for \<open>NGX_CONF_UNSET\<close>.  The zone is its
  name and size; what it holds is the state of the rate limiter.
\<close>

record ngx_conf =
  nc_enable :: "bool option"
  nc_services :: "ngx_service list option"
  nc_routes :: "ngx_route list option"
  nc_cache_addr :: ngx_str
  nc_rate_limit :: u64
  nc_rate_window :: u64
  nc_rate_zone :: "(bytes \<times> nat) option"

section \<open>Requests\<close>

text \<open>
  \<open>rq_args_mem\<close> is the memory from \<open>args.data\<close> up to the next NUL byte: nginx keeps the query string inside the
  buffer of the request, without a terminator of its own, so it is at least \<open>rq_args_len\<close> bytes long.  The header list is a list of parts.  \<open>rq_peer\<close> is the text
  \<open>ngx_sock_ntop\<close> gives for the client's address.
\<close>

record ngx_request =
  rq_uri :: bytes
  rq_method_name :: bytes
  rq_host :: "bytes option"
  rq_headers :: "(bytes \<times> bytes) list list"
  rq_args_len :: nat
  rq_args_mem :: bytes
  rq_peer :: bytes
  rq_mem :: "nat \<Rightarrow> bool"

definition ngx_palloc :: "ngx_request \<Rightarrow> bool \<times> ngx_request" where
  "ngx_palloc r = (rq_mem r 0, r\<lparr>rq_mem := (\<lambda>n. rq_mem r (Suc n))\<rparr>)"

lemma ngx_palloc_keeps [simp]:
  assumes "ngx_palloc r = (ok, r')"
  shows "rq_uri r' = rq_uri r" "rq_method_name r' = rq_method_name r" "rq_host r' = rq_host r"
    "rq_headers r' = rq_headers r" "rq_args_len r' = rq_args_len r" "rq_args_mem r' = rq_args_mem r"
    "rq_peer r' = rq_peer r"
  using assms by (auto simp: ngx_palloc_def)

definition pool_ok :: "ngx_request \<Rightarrow> bool" where
  "pool_ok r \<longleftrightarrow> (\<forall>n. rq_mem r n)"

lemma pool_ok_palloc [simp]: "pool_ok r \<Longrightarrow> ngx_palloc r = (True, r\<lparr>rq_mem := (\<lambda>n. rq_mem r (Suc n))\<rparr>)"
  by (simp add: ngx_palloc_def pool_ok_def)

lemma pool_ok_tail [simp]: "pool_ok r \<Longrightarrow> pool_ok (r\<lparr>rq_mem := (\<lambda>n. rq_mem r (Suc n))\<rparr>)"
  by (simp add: pool_ok_def)

lemma pool_okE:
  assumes "pool_ok r"
  obtains r' where "ngx_palloc r = (True, r')" "pool_ok r'"
  using pool_ok_palloc [OF assms] pool_ok_tail [OF assms] that by blast

section \<open>An instance of the interface\<close>

definition demo_api :: ngx_api where
  "demo_api = \<lparr>nx_strncasecmp = (\<lambda>a b n. same_text (take n a) (take n b)),
     nx_atoi = (\<lambda>s. if s \<noteq> [] \<and> (\<forall>c \<in> set s. 48 \<le> c \<and> c \<le> 57) then int (digits_value 10 s) else - 1),
     nx_parse_size = (\<lambda>s. if s \<noteq> [] \<and> (\<forall>c \<in> set s. 48 \<le> c \<and> c \<le> 57) then int (digits_value 10 s) else - 1),
     nx_pagesize = 4096,
     nx_strlchr = (\<lambda>s c. strchr c s),
     nx_sockaddr_strlen = 64,
     nx_crc32_short = (\<lambda>s. of_nat (length s)),
     nx_unset_uint = - 1,
     nx_merge_uint = (\<lambda>c p d. if c = - 1 then if p = - 1 then d else p else c),
     nx_merge_flag = (\<lambda>c p d. if c = None then if p = None then Some d else p else c),
     nx_merge_str = (\<lambda>c p d. if c = None then if p = None then Some d else p else c)\<rparr>"

lemma strchr_occurrence:
  "strchr c s = Some i \<Longrightarrow> i < length s \<and> s ! i = c \<and> c \<notin> set (take i s)"
  unfolding strchr_def by (induction s arbitrary: i) (auto split: if_splits)

lemma strchr_absent: "strchr c s = None \<Longrightarrow> c \<notin> set s"
  by (simp add: strchr_def split: if_splits)

lemma demo_api_ok: "ngx_api_ok demo_api"
  by (auto simp: ngx_api_ok_def demo_api_def dest: strchr_occurrence strchr_absent split: option.splits)

definition demo_route :: "bytes \<Rightarrow> u64 \<Rightarrow> ngx_route" where
  "demo_route path prio = \<lparr>rt_path = path, rt_method = [], rt_service_name = Some (cstr ''a''), rt_hosts = None,
     rt_strip_path = True, rt_preserve_host = False, rt_priority = prio\<rparr>"

definition demo_conf :: ngx_conf where
  "demo_conf = \<lparr>nc_enable = Some True,
     nc_services = Some [\<lparr>svc_name = cstr ''a'', svc_protocol = cstr ''http'', svc_host = cstr ''h'',
       svc_port = cstr ''80'', svc_path = []\<rparr>],
     nc_routes = Some [demo_route (cstr ''/'') 0, demo_route (cstr ''/v'') 1, demo_route (cstr ''/w'') 2],
     nc_cache_addr = Some (cstr ''tcp:c:1''), nc_rate_limit = 2, nc_rate_window = 1000,
     nc_rate_zone = Some (cstr ''z'', 65536)\<rparr>"

definition demo_request :: ngx_request where
  "demo_request = \<lparr>rq_uri = cstr ''/vx'', rq_method_name = cstr ''GET'', rq_host = Some (cstr ''h''),
     rq_headers = [[(cstr ''X-API-Key'', cstr ''k'')]], rq_args_len = 0, rq_args_mem = [], rq_peer = cstr ''10.0.0.1'',
     rq_mem = (\<lambda>_. True)\<rparr>"

end
