(* ===== verification/Ngx_Router.thy ===== *)
theory Ngx_Router
  imports Ngx_Core
begin

text \<open>
  Route resolution (\<open>ngx_http_dmmr_router.c\<close>): the three match functions, the search for the best route, the
  search for its service and the rewriting of the URI.  The declarative reading of a configuration is
  \<open>best_at\<close>: the first of the routes of highest priority among those that apply.
\<close>

section \<open>Matching\<close>

definition ngx_http_dmmr_match_path :: "bytes \<Rightarrow> bytes \<Rightarrow> ngx_rc" where
  "ngx_http_dmmr_match_path uri path =
     (if length path = 0 then NGX_OK
      else if length uri < length path then NGX_DECLINED
      else if strncmp_eq (length path) uri path then NGX_OK
      else NGX_DECLINED)"

definition ngx_http_dmmr_match_method :: "ngx_api \<Rightarrow> bytes \<Rightarrow> bytes \<Rightarrow> ngx_rc" where
  "ngx_http_dmmr_match_method nx meth route_method =
     (if length route_method = 0 then NGX_OK
      else if length meth \<noteq> length route_method then NGX_DECLINED
      else if nx_strncasecmp nx meth route_method (length meth) then NGX_OK
      else NGX_DECLINED)"

fun match_host_loop :: "ngx_api \<Rightarrow> bytes \<Rightarrow> bytes list \<Rightarrow> ngx_rc" where
  "match_host_loop nx host [] = NGX_DECLINED"
| "match_host_loop nx host (h # hs) =
     (if length h = length host \<and> nx_strncasecmp nx h host (length host) then NGX_OK
      else match_host_loop nx host hs)"

definition ngx_http_dmmr_match_host :: "ngx_api \<Rightarrow> bytes option \<Rightarrow> bytes list option \<Rightarrow> ngx_rc" where
  "ngx_http_dmmr_match_host nx host hosts =
     (if hosts = None \<or> hosts = Some [] then NGX_OK
      else if host = None \<or> host = Some [] then NGX_DECLINED
      else match_host_loop nx (the host) (the hosts))"

section \<open>The router\<close>

text \<open>The body of the loop over the routes: whether the route passes all the \<open>continue\<close>s.\<close>

definition route_passes :: "ngx_api \<Rightarrow> ngx_request \<Rightarrow> ngx_route \<Rightarrow> bool" where
  "route_passes nx r route \<longleftrightarrow>
     ngx_http_dmmr_match_path (rq_uri r) (rt_path route) = NGX_OK \<and>
     (length (rt_method route) > 0 \<longrightarrow>
        ngx_http_dmmr_match_method nx (rq_method_name r) (rt_method route) = NGX_OK) \<and>
     (rt_hosts route \<noteq> None \<and> rt_hosts route \<noteq> Some [] \<longrightarrow>
        rq_host r \<noteq> None \<and> ngx_http_dmmr_match_host nx (rq_host r) (rt_hosts route) = NGX_OK)"

fun best_route_loop :: "ngx_api \<Rightarrow> ngx_request \<Rightarrow> ngx_route option \<Rightarrow> ngx_route list \<Rightarrow> ngx_route option" where
  "best_route_loop nx r best [] = best"
| "best_route_loop nx r best (route # rs) =
     best_route_loop nx r
       (if route_passes nx r route \<and> (case best of None \<Rightarrow> True | Some b \<Rightarrow> rt_priority route > rt_priority b)
        then Some route else best) rs"

fun find_service :: "bytes \<Rightarrow> ngx_service list \<Rightarrow> ngx_service option" where
  "find_service name [] = None"
| "find_service name (s # ss) =
     (if length (svc_name s) = length name \<and> svc_name s = name then Some s else find_service name ss)"

definition strip_uri :: "ngx_route \<Rightarrow> ngx_request \<Rightarrow> ngx_ctx \<Rightarrow> ngx_rc \<times> ngx_request \<times> ngx_ctx" where
  "strip_uri route r ctx =
     (case ngx_palloc r of
        (False, r1) \<Rightarrow> (NGX_HTTP_INTERNAL_SERVER_ERROR, r1, ctx)
      | (True, r1) \<Rightarrow>
          if length (rq_uri r) - length (rt_path route) = 0
          then (NGX_OK, r1, ctx\<lparr>cx_new_uri := Some (cstr ''/'')\<rparr>)
          else case ngx_palloc r1 of
            (False, r2) \<Rightarrow> (NGX_HTTP_INTERNAL_SERVER_ERROR, r2, ctx)
          | (True, r2) \<Rightarrow> (NGX_OK, r2, ctx\<lparr>cx_new_uri := Some (drop (length (rt_path route)) (rq_uri r))\<rparr>))"

definition ngx_http_dmmr_router ::
  "ngx_api \<Rightarrow> ngx_conf option \<Rightarrow> ngx_request \<Rightarrow> ngx_ctx \<Rightarrow> ngx_rc \<times> ngx_request \<times> ngx_ctx" where
  "ngx_http_dmmr_router nx main_conf r ctx =
     (case main_conf of
        None \<Rightarrow> (NGX_DECLINED, r, ctx)
      | Some kcf \<Rightarrow>
          if nc_routes kcf = None \<or> nc_routes kcf = Some [] then (NGX_DECLINED, r, ctx)
          else case best_route_loop nx r None (the (nc_routes kcf)) of
            None \<Rightarrow> (NGX_HTTP_NOT_FOUND, r, ctx)
          | Some best \<Rightarrow>
              let ctx1 = ctx\<lparr>cx_route := Some best\<rparr>;
                  searched = (rt_service_name best \<noteq> None \<and> nc_services kcf \<noteq> None);
                  ctx2 = (if searched then
                            (case find_service (the (rt_service_name best)) (the (nc_services kcf)) of
                               None \<Rightarrow> ctx1 | Some s \<Rightarrow> ctx1\<lparr>cx_service := Some s\<rparr>)
                          else ctx1) in
              if searched \<and> cx_service ctx2 = None then (NGX_HTTP_INTERNAL_SERVER_ERROR, r, ctx2)
              else if rt_strip_path best then strip_uri best r ctx2
              else (NGX_OK, r, ctx2))"

section \<open>What the configuration means\<close>

text \<open>Strings of a configuration hold no NUL byte.\<close>

definition route_texts :: "ngx_route \<Rightarrow> bool" where
  "route_texts route \<longleftrightarrow> 0 \<notin> set (rt_path route) \<and> 0 \<notin> set (rt_method route)"

definition route_applies :: "ngx_request \<Rightarrow> ngx_route \<Rightarrow> bool" where
  "route_applies r route \<longleftrightarrow>
     prefix (rt_path route) (rq_uri r) \<and>
     (rt_method route = [] \<or> same_text (rq_method_name r) (rt_method route)) \<and>
     (case rt_hosts route of
        None \<Rightarrow> True
      | Some hs \<Rightarrow> hs = [] \<or> (\<exists>host h. rq_host r = Some host \<and> host \<noteq> [] \<and> h \<in> set hs \<and> same_text h host))"

definition best_at :: "ngx_request \<Rightarrow> ngx_route list \<Rightarrow> nat \<Rightarrow> bool" where
  "best_at r rs i \<longleftrightarrow>
     i < length rs \<and> route_applies r (rs ! i) \<and>
     (\<forall>j < length rs. route_applies r (rs ! j) \<longrightarrow>
        rt_priority (rs ! j) \<le> rt_priority (rs ! i) \<and> (j < i \<longrightarrow> rt_priority (rs ! j) < rt_priority (rs ! i)))"

lemma match_path_prefix: "0 \<notin> set path \<Longrightarrow> ngx_http_dmmr_match_path uri path = NGX_OK \<longleftrightarrow> prefix path uri"
  by (auto simp: ngx_http_dmmr_match_path_def prefix_take_eq strncmp_eq_take not_less)

lemma match_method_text:
  "ngx_api_ok nx \<Longrightarrow> 0 \<notin> set m \<Longrightarrow> m \<noteq> [] \<Longrightarrow> ngx_http_dmmr_match_method nx a m = NGX_OK \<longleftrightarrow> same_text a m"
  using same_text_length [of a m] by (auto simp: ngx_http_dmmr_match_method_def ngx_strncasecmpD)

lemma match_host_loop_text:
  "ngx_api_ok nx \<Longrightarrow> 0 \<notin> set host \<Longrightarrow> match_host_loop nx host hs = NGX_OK \<longleftrightarrow> (\<exists>h \<in> set hs. same_text h host)"
  by (induction hs) (auto simp: ngx_strncasecmpD dest: same_text_length)

lemma route_passes_applies:
  assumes "ngx_api_ok nx" and "route_texts route" and "\<And>h. rq_host r = Some h \<Longrightarrow> 0 \<notin> set h"
  shows "route_passes nx r route \<longleftrightarrow> route_applies r route"
proof -
  have "ngx_http_dmmr_match_path (rq_uri r) (rt_path route) = NGX_OK \<longleftrightarrow> prefix (rt_path route) (rq_uri r)"
    using assms by (intro match_path_prefix) (simp add: route_texts_def)
  moreover have "(rt_method route \<noteq> [] \<longrightarrow> ngx_http_dmmr_match_method nx (rq_method_name r) (rt_method route) = NGX_OK)
      \<longleftrightarrow> (rt_method route = [] \<or> same_text (rq_method_name r) (rt_method route))"
    using assms match_method_text [of nx "rt_method route" "rq_method_name r"] by (auto simp: route_texts_def)
  moreover have "(rt_hosts route \<noteq> None \<and> rt_hosts route \<noteq> Some [] \<longrightarrow>
        rq_host r \<noteq> None \<and> ngx_http_dmmr_match_host nx (rq_host r) (rt_hosts route) = NGX_OK) \<longleftrightarrow>
      (case rt_hosts route of None \<Rightarrow> True
       | Some hs \<Rightarrow> hs = [] \<or> (\<exists>host h. rq_host r = Some host \<and> host \<noteq> [] \<and> h \<in> set hs \<and> same_text h host))"
    using assms(1,3)
    by (cases "rq_host r")
      (auto simp: ngx_http_dmmr_match_host_def match_host_loop_text split: option.splits)
  ultimately show ?thesis
    unfolding route_passes_def route_applies_def by simp
qed

section \<open>The loop over the routes\<close>

text \<open>The loop returns the running best, or the earliest route of highest priority above it.\<close>

definition beats :: "ngx_route option \<Rightarrow> ngx_route \<Rightarrow> bool" where
  "beats best route \<longleftrightarrow> (case best of None \<Rightarrow> True | Some b \<Rightarrow> rt_priority route > rt_priority b)"

lemma best_route_loop_spec:
  "(\<forall>rt \<in> set rs. route_passes nx r rt \<longrightarrow> \<not> beats best rt) \<and> best_route_loop nx r best rs = best
   \<or> (\<exists>i < length rs. best_route_loop nx r best rs = Some (rs ! i) \<and> route_passes nx r (rs ! i) \<and> beats best (rs ! i)
        \<and> (\<forall>j < length rs. route_passes nx r (rs ! j) \<longrightarrow> rt_priority (rs ! j) \<le> rt_priority (rs ! i)
              \<and> (j < i \<longrightarrow> rt_priority (rs ! j) < rt_priority (rs ! i))))"
proof (induction rs arbitrary: best)
  case Nil
  then show ?case by simp
next
  case (Cons route rs)
  define b where "b = (if route_passes nx r route \<and> beats best route then Some route else best)"
  have loop: "best_route_loop nx r best (route # rs) = best_route_loop nx r b rs"
    by (simp add: beats_def b_def)
  show ?case
    using Cons.IH [of b]
  proof (elim disjE exE conjE)
    assume none: "\<forall>rt \<in> set rs. route_passes nx r rt \<longrightarrow> \<not> beats b rt" and eq: "best_route_loop nx r b rs = b"
    show ?thesis
    proof (cases "route_passes nx r route \<and> beats best route")
      case True
      then have b: "b = Some route" by (simp add: b_def)
      then have "\<forall>rt \<in> set (route # rs). route_passes nx r rt \<longrightarrow> rt_priority rt \<le> rt_priority route"
        using none by (auto simp: beats_def not_less)
      then have "\<forall>j < length (route # rs). route_passes nx r ((route # rs) ! j) \<longrightarrow>
          rt_priority ((route # rs) ! j) \<le> rt_priority route"
        using nth_mem by blast
      then show ?thesis
        using True eq loop b by (intro disjI2 exI [of _ 0]) simp
    next
      case False
      then have "b = best" by (auto simp: b_def)
      moreover have "\<not> (route_passes nx r route \<and> beats best route)" using False .
      ultimately show ?thesis
        using none eq loop by (intro disjI1) auto
    qed
  next
    fix i
    assume i: "i < length rs" "best_route_loop nx r b rs = Some (rs ! i)" "route_passes nx r (rs ! i)" "beats b (rs ! i)"
      and top: "\<forall>j < length rs. route_passes nx r (rs ! j) \<longrightarrow> rt_priority (rs ! j) \<le> rt_priority (rs ! i)
              \<and> (j < i \<longrightarrow> rt_priority (rs ! j) < rt_priority (rs ! i))"
    have first: "beats best (rs ! i)" "route_passes nx r route \<longrightarrow> rt_priority route < rt_priority (rs ! i)"
      using i(4) by (auto simp: beats_def b_def split: option.splits if_splits)
    have "rt_priority ((route # rs) ! j) \<le> rt_priority (rs ! i)
        \<and> (j < Suc i \<longrightarrow> rt_priority ((route # rs) ! j) < rt_priority (rs ! i))"
      if "j < length (route # rs)" "route_passes nx r ((route # rs) ! j)" for j
      using that top first(2) by (cases j) auto
    then show ?thesis
      using i first(1) loop by (intro disjI2 exI [of _ "Suc i"]) simp
  qed
qed

lemma find_service_first:
  "find_service name ss = (case filter (\<lambda>s. svc_name s = name) ss of [] \<Rightarrow> None | s # _ \<Rightarrow> Some s)"
  by (induction ss) auto

lemma best_at_unique: "best_at r rs i \<Longrightarrow> best_at r rs j \<Longrightarrow> i = j"
  unfolding best_at_def by (metis linorder_neqE_nat not_le)

lemma best_route_loop_best:
  assumes "ngx_api_ok nx" and "\<forall>rt \<in> set rs. route_texts rt" and "\<And>h. rq_host r = Some h \<Longrightarrow> 0 \<notin> set h"
  shows "(best_route_loop nx r None rs = None \<and> \<not> (\<exists>rt \<in> set rs. route_applies r rt))
    \<or> (\<exists>i. best_at r rs i \<and> best_route_loop nx r None rs = Some (rs ! i))"
proof -
  have eq: "route_passes nx r rt = route_applies r rt" if "rt \<in> set rs" for rt
    using assms that by (intro route_passes_applies) auto
  show ?thesis
    using best_route_loop_spec [of rs nx r None] eq
    by (auto simp: beats_def best_at_def nth_mem)
qed

definition stripped :: "ngx_route \<Rightarrow> bytes \<Rightarrow> bytes" where
  "stripped route uri = (case drop (length (rt_path route)) uri of [] \<Rightarrow> cstr ''/'' | u \<Rightarrow> u)"

lemma strip_uri_ok:
  assumes "pool_ok r"
  shows "\<exists>m. \<forall>ctx. strip_uri route r ctx = (NGX_OK, r\<lparr>rq_mem := m\<rparr>, ctx\<lparr>cx_new_uri := Some (stripped route (rq_uri r))\<rparr>)"
  using assms by (cases "drop (length (rt_path route)) (rq_uri r)") (auto simp: strip_uri_def stripped_def)

lemma router_outcome:
  assumes "nc_routes kcf = Some rs" and "rs \<noteq> []" and "cx_service ctx = None" and "pool_ok r"
    and "best_route_loop nx r None rs = Some best"
  shows "\<exists>m. ngx_http_dmmr_router nx (Some kcf) r ctx =
    (let named = (case (rt_service_name best, nc_services kcf) of
                    (Some name, Some ss) \<Rightarrow> Some (find_service name ss) | _ \<Rightarrow> None);
         ctx1 = ctx\<lparr>cx_route := Some best, cx_service := (case named of None \<Rightarrow> None | Some s \<Rightarrow> s)\<rparr> in
     if named = Some None then (NGX_HTTP_INTERNAL_SERVER_ERROR, r, ctx1)
     else if rt_strip_path best
       then (NGX_OK, r\<lparr>rq_mem := m\<rparr>, ctx1\<lparr>cx_new_uri := Some (stripped best (rq_uri r))\<rparr>)
       else (NGX_OK, r, ctx1))"
proof -
  obtain m where m: "\<And>ctx. strip_uri best r ctx
      = (NGX_OK, r\<lparr>rq_mem := m\<rparr>, ctx\<lparr>cx_new_uri := Some (stripped best (rq_uri r))\<rparr>)"
    using strip_uri_ok [OF assms(4), of best] by blast
  show ?thesis
    using assms
    by (intro exI [of _ m]) (auto simp: ngx_http_dmmr_router_def Let_def m split: option.splits)
qed

section \<open>Properties\<close>

text \<open>
  C38: route resolution.  When no configured route applies to the request the answer is 404 and the context is
  left alone.  Otherwise the route chosen is the first one of the highest priority among those that apply (path
  prefix, method and host as configured); the service is the first configured one of that name, and the answer
  is 500 when there is none; and with \<open>strip_path\<close> the new URI is the old one without the path, or \<open>/\<close>.
\<close>

theorem router_selects_best:
  assumes "ngx_api_ok nx" and "nc_routes kcf = Some rs" and "rs \<noteq> []" and "\<forall>rt \<in> set rs. route_texts rt"
    and "\<forall>h. rq_host r = Some h \<longrightarrow> 0 \<notin> set h" and "cx_service ctx = None" and "pool_ok r"
  shows "case ngx_http_dmmr_router nx (Some kcf) r ctx of (rc, r', ctx') \<Rightarrow>
    if \<exists>rt \<in> set rs. route_applies r rt then
      \<exists>i. best_at r rs i \<and> cx_route ctx' = Some (rs ! i) \<and>
        cx_service ctx' = (case (rt_service_name (rs ! i), nc_services kcf) of
            (Some name, Some ss) \<Rightarrow> (case filter (\<lambda>s. svc_name s = name) ss of [] \<Rightarrow> None | s # _ \<Rightarrow> Some s)
          | _ \<Rightarrow> None) \<and>
        rc = (if rt_service_name (rs ! i) \<noteq> None \<and> nc_services kcf \<noteq> None \<and> cx_service ctx' = None
              then NGX_HTTP_INTERNAL_SERVER_ERROR else NGX_OK) \<and>
        (rc = NGX_OK \<longrightarrow> cx_new_uri ctx' =
           (if rt_strip_path (rs ! i) then Some (stripped (rs ! i) (rq_uri r)) else cx_new_uri ctx))
    else rc = NGX_HTTP_NOT_FOUND \<and> ctx' = ctx"
proof -
  consider (no) "best_route_loop nx r None rs = None" "\<not> (\<exists>rt \<in> set rs. route_applies r rt)"
    | (yes) i where "best_at r rs i" "best_route_loop nx r None rs = Some (rs ! i)"
    using best_route_loop_best [OF assms(1,4), of r] assms(5) by auto
  then show ?thesis
  proof cases
    case no
    then show ?thesis
      using assms by (simp add: ngx_http_dmmr_router_def)
  next
    case yes
    then have ex: "\<exists>rt \<in> set rs. route_applies r rt"
      unfolding best_at_def by (meson nth_mem)
    obtain m where m: "ngx_http_dmmr_router nx (Some kcf) r ctx =
      (let named = (case (rt_service_name (rs ! i), nc_services kcf) of
                      (Some name, Some ss) \<Rightarrow> Some (find_service name ss) | _ \<Rightarrow> None);
           ctx1 = ctx\<lparr>cx_route := Some (rs ! i), cx_service := (case named of None \<Rightarrow> None | Some s \<Rightarrow> s)\<rparr> in
       if named = Some None then (NGX_HTTP_INTERNAL_SERVER_ERROR, r, ctx1)
       else if rt_strip_path (rs ! i)
         then (NGX_OK, r\<lparr>rq_mem := m\<rparr>, ctx1\<lparr>cx_new_uri := Some (stripped (rs ! i) (rq_uri r))\<rparr>)
         else (NGX_OK, r, ctx1))"
      using router_outcome [OF assms(2,3,6,7) yes(2)] by blast
    show ?thesis
      unfolding m Let_def using ex yes(1)
      by (auto simp: find_service_first split: option.splits list.splits)
  qed
qed

theorem router_selects_best_witness:
  "fst (ngx_http_dmmr_router demo_api (Some demo_conf) demo_request ctx_zero) = NGX_OK \<and>
   cx_new_uri (snd (snd (ngx_http_dmmr_router demo_api (Some demo_conf) demo_request ctx_zero))) = Some (cstr ''x'')"
proof -
  let ?rs = "[demo_route (cstr ''/'') 0, demo_route (cstr ''/v'') 1, demo_route (cstr ''/w'') 2]"
  have applies: "route_applies demo_request (?rs ! 1)" "\<not> route_applies demo_request (?rs ! 2)"
    by (simp_all add: route_applies_def demo_request_def demo_route_def cstr_def)
  have best: "i = 1" if "best_at demo_request ?rs i" for i
    by (rule best_at_unique [OF that])
      (use applies in \<open>auto simp: best_at_def demo_route_def nth_Cons' less_Suc_eq\<close>)
  obtain rc r' ctx' where run: "ngx_http_dmmr_router demo_api (Some demo_conf) demo_request ctx_zero = (rc, r', ctx')"
    by (cases "ngx_http_dmmr_router demo_api (Some demo_conf) demo_request ctx_zero") auto
  have conf: "nc_routes demo_conf = Some ?rs" "\<forall>rt \<in> set ?rs. route_texts rt" "pool_ok demo_request"
      "\<forall>h. rq_host demo_request = Some h \<longrightarrow> 0 \<notin> set h" "cx_service ctx_zero = None"
    by (auto simp: demo_conf_def route_texts_def demo_route_def pool_ok_def demo_request_def ctx_zero_def)
  obtain i where "best_at demo_request ?rs i"
    and i: "cx_service ctx' = (case (rt_service_name (?rs ! i), nc_services demo_conf) of
            (Some name, Some ss) \<Rightarrow> (case filter (\<lambda>s. svc_name s = name) ss of [] \<Rightarrow> None | s # _ \<Rightarrow> Some s)
          | _ \<Rightarrow> None)"
      "rc = (if rt_service_name (?rs ! i) \<noteq> None \<and> nc_services demo_conf \<noteq> None \<and> cx_service ctx' = None
             then NGX_HTTP_INTERNAL_SERVER_ERROR else NGX_OK)"
      "rc = NGX_OK \<longrightarrow> cx_new_uri ctx' =
         (if rt_strip_path (?rs ! i) then Some (stripped (?rs ! i) (rq_uri demo_request)) else cx_new_uri ctx_zero)"
    using router_selects_best [OF demo_api_ok conf(1) _ conf(2,4,5,3)] applies(1) by (auto simp: run)
  then have "i = 1" using best by blast
  then show ?thesis
    using i unfolding run by (simp add: demo_conf_def demo_route_def stripped_def demo_request_def)
qed

end
