(* ===== verification/Ngx_Rate_Limit.thy ===== *)
theory Ngx_Rate_Limit
  imports Ngx_Core "HOL-Library.Tree" "HOL-Library.Product_Lexorder" "HOL-Library.List_Lexorder"
begin

text \<open>
  The rate limiter (\<open>ngx_http_dmmr_rate_limit.c\<close>): one counter per client address in a zone shared by the
  workers, found through a search tree ordered by CRC-32, length and text of the address, and aged through a
  queue.  Every request runs under the mutex of the zone, so a run is a sequence of calls.

  Nodes are addresses into a heap, so that the tree, the queue and the counters share them.  nginx provides the
  slab allocator, the rebalancing after an insertion and the deletion from a red-black tree: the fields of
  \<open>shm_api\<close>, with the contract \<open>shm_ok\<close>.  Times are \<open>ngx_msec_t\<close>, 64-bit words that wrap.
\<close>

section \<open>The shared zone\<close>

record rate_node =
  rn_key :: u64
  rn_window_start :: u64
  rn_count :: u64
  rn_key_len :: u8
  rn_text :: bytes

record 'p shm_api =
  sp_alloc :: "'p \<Rightarrow> nat option \<times> 'p"
  sp_free :: "nat \<Rightarrow> 'p \<Rightarrow> 'p"
  rb_fix :: "nat tree \<Rightarrow> nat tree"
  rb_delete :: "nat \<Rightarrow> nat tree \<Rightarrow> nat tree"

record 'p rate_sh =
  sh_tree :: "nat tree"
  sh_lru :: "nat list"
  sh_heap :: "nat \<Rightarrow> rate_node"
  sh_pool :: 'p

text \<open>The sign of \<open>memcmp\<close> on the common length.\<close>

fun memcmp :: "bytes \<Rightarrow> bytes \<Rightarrow> int" where
  "memcmp (x # xs) (y # ys) = (if x = y then memcmp xs ys else uint x - uint y)"
| "memcmp _ _ = 0"

definition key_cmp :: "bytes \<Rightarrow> int \<Rightarrow> rate_node \<Rightarrow> int" where
  "key_cmp bs key_len entry =
     (let cmp = key_len - uint (rn_key_len entry) in if cmp = 0 then memcmp bs (rn_text entry) else cmp)"

fun ngx_http_dmmr_rate_rbtree_insert :: "(nat \<Rightarrow> rate_node) \<Rightarrow> nat \<Rightarrow> nat tree \<Rightarrow> nat tree" where
  "ngx_http_dmmr_rate_rbtree_insert h node Leaf = Node Leaf node Leaf"
| "ngx_http_dmmr_rate_rbtree_insert h node (Node l temp r) =
     (if (if rn_key (h node) < rn_key (h temp) then True
          else if rn_key (h node) > rn_key (h temp) then False
          else key_cmp (rn_text (h node)) (uint (rn_key_len (h node))) (h temp) < 0)
      then Node (ngx_http_dmmr_rate_rbtree_insert h node l) temp r
      else Node l temp (ngx_http_dmmr_rate_rbtree_insert h node r))"

fun ngx_http_dmmr_rate_lookup :: "(nat \<Rightarrow> rate_node) \<Rightarrow> bytes \<Rightarrow> u64 \<Rightarrow> nat tree \<Rightarrow> nat option" where
  "ngx_http_dmmr_rate_lookup h key hash Leaf = None"
| "ngx_http_dmmr_rate_lookup h key hash (Node l node r) =
     (if hash < rn_key (h node) then ngx_http_dmmr_rate_lookup h key hash l
      else if hash > rn_key (h node) then ngx_http_dmmr_rate_lookup h key hash r
      else let cmp = key_cmp key (int (length key)) (h node) in
        if cmp = 0 then Some node
        else ngx_http_dmmr_rate_lookup h key hash (if cmp < 0 then l else r))"

text \<open>The three calls that take an entry out: from the queue, from the tree and back to the slab.\<close>

definition rate_drop :: "'p shm_api \<Rightarrow> nat \<Rightarrow> 'p rate_sh \<Rightarrow> 'p rate_sh" where
  "rate_drop S a sh = sh\<lparr>sh_lru := remove1 a (sh_lru sh), sh_tree := rb_delete S a (sh_tree sh),
     sh_pool := sp_free S a (sh_pool sh)\<rparr>"

function ngx_http_dmmr_rate_expire :: "'p shm_api \<Rightarrow> u64 \<Rightarrow> u64 \<Rightarrow> 'p rate_sh \<Rightarrow> 'p rate_sh" where
  "ngx_http_dmmr_rate_expire S now window sh =
     (case sh_lru sh of
        [] \<Rightarrow> sh
      | a # _ \<Rightarrow>
          if now - rn_window_start (sh_heap sh a) \<le> window then sh
          else ngx_http_dmmr_rate_expire S now window (rate_drop S a sh))"
  by pat_completeness auto
termination
  by (relation "measure (\<lambda>(S, now, window, sh). length (sh_lru sh))") (auto simp: rate_drop_def)

declare ngx_http_dmmr_rate_expire.simps [simp del]

definition ngx_http_dmmr_rate_zone_init ::
  "'p shm_api \<Rightarrow> 'p \<Rightarrow> 'p rate_sh option \<Rightarrow> ngx_rc \<times> 'p rate_sh option" where
  "ngx_http_dmmr_rate_zone_init S pool data =
     (case data of
        Some sh \<Rightarrow> (NGX_OK, Some sh)
      | None \<Rightarrow>
          (case sp_alloc S pool of
             (None, _) \<Rightarrow> (NGX_ERROR, None)
           | (Some _, pool') \<Rightarrow>
               (NGX_OK, Some \<lparr>sh_tree = Leaf, sh_lru = [],
                  sh_heap = (\<lambda>_. \<lparr>rn_key = 0, rn_window_start = 0, rn_count = 0, rn_key_len = 0, rn_text = []\<rparr>),
                  sh_pool = pool'\<rparr>)))"

section \<open>A request\<close>

text \<open>The entry exists: a new window, one more request, or the limit.\<close>

definition rate_hit :: "u64 \<Rightarrow> u64 \<Rightarrow> u64 \<Rightarrow> nat \<Rightarrow> 'p rate_sh \<Rightarrow> bool \<times> 'p rate_sh" where
  "rate_hit rate_limit rate_window now a sh =
     (let entry = sh_heap sh a;
          (limited, entry') =
            (if now - rn_window_start entry > rate_window
             then (False, entry\<lparr>rn_window_start := now, rn_count := 1\<rparr>)
             else if rn_count entry \<ge> rate_limit then (True, entry)
             else (False, entry\<lparr>rn_count := rn_count entry + 1\<rparr>)) in
      (limited, sh\<lparr>sh_heap := (sh_heap sh)(a := entry'), sh_lru := remove1 a (sh_lru sh) @ [a]\<rparr>))"

text \<open>The allocation, with the oldest entry given up when the slab is full.\<close>

definition rate_alloc :: "'p shm_api \<Rightarrow> 'p rate_sh \<Rightarrow> nat option \<times> 'p rate_sh" where
  "rate_alloc S sh =
     (case sp_alloc S (sh_pool sh) of
        (Some a, p) \<Rightarrow> (Some a, sh\<lparr>sh_pool := p\<rparr>)
      | (None, p) \<Rightarrow>
          (case sh_lru sh of
             [] \<Rightarrow> (None, sh\<lparr>sh_pool := p\<rparr>)
           | oldest # _ \<Rightarrow>
               let sh' = rate_drop S oldest (sh\<lparr>sh_pool := p\<rparr>) in
               (case sp_alloc S (sh_pool sh') of (r, p') \<Rightarrow> (r, sh'\<lparr>sh_pool := p'\<rparr>))))"

definition rate_add :: "'p shm_api \<Rightarrow> bytes \<Rightarrow> u64 \<Rightarrow> u64 \<Rightarrow> nat \<Rightarrow> 'p rate_sh \<Rightarrow> 'p rate_sh" where
  "rate_add S key hash now a sh =
     (let h = (sh_heap sh)(a := \<lparr>rn_key = hash, rn_window_start = now, rn_count = 1,
                rn_key_len = of_nat (length key), rn_text = key\<rparr>) in
      sh\<lparr>sh_heap := h, sh_tree := rb_fix S (ngx_http_dmmr_rate_rbtree_insert h a (sh_tree sh)),
         sh_lru := sh_lru sh @ [a]\<rparr>)"

text \<open>The section under the mutex.\<close>

definition rate_locked ::
  "ngx_api \<Rightarrow> 'p shm_api \<Rightarrow> u64 \<Rightarrow> u64 \<Rightarrow> bytes \<Rightarrow> u64 \<Rightarrow> 'p rate_sh \<Rightarrow> ngx_rc \<times> 'p rate_sh" where
  "rate_locked nx S rate_limit rate_window key now sh =
     (let hash = ucast (nx_crc32_short nx key) in
      case ngx_http_dmmr_rate_lookup (sh_heap sh) key hash (sh_tree sh) of
        Some a \<Rightarrow>
          (case rate_hit rate_limit rate_window now a sh of
             (limited, sh') \<Rightarrow> (if limited then NGX_HTTP_TOO_MANY_REQUESTS else NGX_OK, sh'))
      | None \<Rightarrow>
          (case rate_alloc S (ngx_http_dmmr_rate_expire S now rate_window sh) of
             (None, sh') \<Rightarrow> (NGX_HTTP_SERVICE_UNAVAILABLE, sh')
           | (Some a, sh') \<Rightarrow> (NGX_OK, rate_add S key hash now a sh')))"

definition ngx_http_dmmr_rate_limit ::
  "ngx_api \<Rightarrow> 'p shm_api \<Rightarrow> ngx_conf option \<Rightarrow> ngx_conf option \<Rightarrow> u64 \<Rightarrow> ngx_request \<Rightarrow> 'p rate_sh option \<Rightarrow>
     ngx_rc \<times> 'p rate_sh option" where
  "ngx_http_dmmr_rate_limit nx S conf main_conf now r data =
     (if main_conf = None \<or> nc_rate_zone (the main_conf) = None \<or> data = None
      then (NGX_HTTP_INTERNAL_SERVER_ERROR, data)
      else let rate_limit = (case conf of None \<Rightarrow> 100 | Some c \<Rightarrow> if nc_rate_limit c > 0 then nc_rate_limit c else 100);
               rate_window = (case conf of None \<Rightarrow> 60000 | Some c \<Rightarrow> if nc_rate_window c > 0 then nc_rate_window c else 60000);
               client_key = rq_peer r in
        if length client_key = 0 \<or> length client_key > nx_sockaddr_strlen nx
        then (NGX_HTTP_INTERNAL_SERVER_ERROR, data)
        else case rate_locked nx S rate_limit rate_window client_key now (the data) of
          (rc, sh) \<Rightarrow> (rc, Some sh))"

section \<open>Zone directives\<close>

datatype conf_result = NGX_CONF_OK | NGX_CONF_ERROR | Conf_Error string

definition DMMR_DEFAULT_RATE_ZONE_SIZE :: nat where [const_defs]: "DMMR_DEFAULT_RATE_ZONE_SIZE = 10 * 1024 * 1024"

text \<open>\<open>shm_added\<close> is whether \<open>ngx_shared_memory_add\<close> returns a zone.\<close>

definition ngx_http_dmmr_rate_zone :: "ngx_api \<Rightarrow> bool \<Rightarrow> bytes \<Rightarrow> ngx_conf \<Rightarrow> conf_result \<times> ngx_conf" where
  "ngx_http_dmmr_rate_zone nx shm_added arg main_conf =
     (if nc_rate_zone main_conf \<noteq> None then (Conf_Error ''is duplicate'', main_conf)
      else case nx_strlchr nx arg (of_char CHR '':'') of
        None \<Rightarrow> (Conf_Error ''must be in the form name:size'', main_conf)
      | Some p \<Rightarrow>
          if p = 0 \<or> p = length arg - 1 then (Conf_Error ''must be in the form name:size'', main_conf)
          else let size = nx_parse_size nx (drop (p + 1) arg) in
            if size = - 1 \<or> size < int (8 * nx_pagesize nx)
            then (Conf_Error ''zone size must be at least 8 pages'', main_conf)
            else if \<not> shm_added then (NGX_CONF_ERROR, main_conf)
            else (NGX_CONF_OK, main_conf\<lparr>nc_rate_zone := Some (take p arg, nat size)\<rparr>))"

definition ngx_http_dmmr_rate_init :: "bool \<Rightarrow> ngx_conf \<Rightarrow> ngx_rc \<times> ngx_conf" where
  "ngx_http_dmmr_rate_init shm_added main_conf =
     (if nc_rate_zone main_conf = None then
        if \<not> shm_added then (NGX_ERROR, main_conf)
        else (NGX_OK, main_conf\<lparr>nc_rate_zone := Some (cstr ''dmmr_rate_limit'', DMMR_DEFAULT_RATE_ZONE_SIZE)\<rparr>)
      else (NGX_OK, main_conf))"

section \<open>The search tree\<close>

definition nkey :: "rate_node \<Rightarrow> u64 \<times> nat \<times> bytes" where
  "nkey n = (rn_key n, unat (rn_key_len n), rn_text n)"

definition node_ok :: "ngx_api \<Rightarrow> rate_node \<Rightarrow> bool" where
  "node_ok nx n \<longleftrightarrow> unat (rn_key_len n) = length (rn_text n) \<and> rn_key n = ucast (nx_crc32_short nx (rn_text n))"

lemma memcmp_lex:
  "length xs = length ys \<Longrightarrow> (memcmp xs ys < 0 \<longleftrightarrow> xs < ys) \<and> (memcmp xs ys = 0 \<longleftrightarrow> xs = ys)"
  by (induction xs ys rule: list_induct2) (auto simp: word_less_def word_uint_eq_iff)

lemma key_cmp_lex:
  assumes "unat (rn_key_len n) = length (rn_text n)" and "k = int (length bs)"
  shows "key_cmp bs k n < 0 \<longleftrightarrow> (length bs, bs) < (unat (rn_key_len n), rn_text n)"
    and "key_cmp bs k n = 0 \<longleftrightarrow> bs = rn_text n"
proof -
  have len: "uint (rn_key_len n) = int (length (rn_text n))"
    using assms(1) by (metis uint_nat)
  show "key_cmp bs k n < 0 \<longleftrightarrow> (length bs, bs) < (unat (rn_key_len n), rn_text n)"
    using memcmp_lex [of bs "rn_text n"] assms by (auto simp: key_cmp_def len)
  show "key_cmp bs k n = 0 \<longleftrightarrow> bs = rn_text n"
    using memcmp_lex [of bs "rn_text n"] assms by (auto simp: key_cmp_def len)
qed

definition tree_ok :: "ngx_api \<Rightarrow> (nat \<Rightarrow> rate_node) \<Rightarrow> nat tree \<Rightarrow> bool" where
  "tree_ok nx h t \<longleftrightarrow> sorted_wrt (<) (map (\<lambda>a. nkey (h a)) (inorder t)) \<and> (\<forall>a \<in> set_tree t. node_ok nx (h a))"

lemma tree_ok_Node:
  "tree_ok nx h (Node l a r) \<longleftrightarrow> tree_ok nx h l \<and> tree_ok nx h r \<and> node_ok nx (h a)
     \<and> (\<forall>x \<in> set_tree l. nkey (h x) < nkey (h a)) \<and> (\<forall>x \<in> set_tree r. nkey (h a) < nkey (h x))"
  by (auto simp: tree_ok_def sorted_wrt_append intro: less_trans)

lemma insert_goes_left:
  assumes "node_ok nx m" and "node_ok nx n"
  shows "(if rn_key m < rn_key n then True else if rn_key m > rn_key n then False
          else key_cmp (rn_text m) (uint (rn_key_len m)) n < 0) \<longleftrightarrow> nkey m < nkey n"
proof -
  have "uint (rn_key_len m) = int (length (rn_text m))"
    using assms(1) unfolding node_ok_def by (metis uint_nat)
  then show ?thesis
    using assms key_cmp_lex(1) [of n _ "rn_text m"] by (auto simp: node_ok_def nkey_def)
qed

lemma insert_tree_ok:
  assumes "tree_ok nx h t" and "node_ok nx (h a)" and "\<forall>b \<in> set_tree t. nkey (h b) \<noteq> nkey (h a)"
  shows "tree_ok nx h (ngx_http_dmmr_rate_rbtree_insert h a t)
    \<and> set_tree (ngx_http_dmmr_rate_rbtree_insert h a t) = insert a (set_tree t)"
  using assms
proof (induction h a t rule: ngx_http_dmmr_rate_rbtree_insert.induct)
  case (1 h node)
  then show ?case by (simp add: tree_ok_def)
next
  case (2 h node l temp r)
  have "node_ok nx (h temp)" using "2.prems"(1) by (simp add: tree_ok_Node)
  note left = insert_goes_left [OF "2.prems"(2) this]
  show ?case
  proof (cases "nkey (h node) < nkey (h temp)")
    case True
    then show ?thesis
      using 2(1) [unfolded left] "2.prems" by (auto simp: left tree_ok_Node)
  next
    case False
    then have "nkey (h temp) < nkey (h node)"
      using "2.prems"(3) by (metis linorder_neqE tree.set_intros(2))
    then show ?thesis
      using False 2(2) [unfolded left] "2.prems" by (auto simp: left tree_ok_Node)
  qed
qed

lemma lookup_spec:
  assumes "tree_ok nx h t" and "hash = ucast (nx_crc32_short nx key)"
  shows "ngx_http_dmmr_rate_lookup h key hash t = Some a \<longleftrightarrow> a \<in> set_tree t \<and> rn_text (h a) = key"
  using assms
proof (induction t)
  case Leaf
  then show ?case by simp
next
  case (Node l b r)
  let ?k = "(hash, length key, key)"
  have ok: "tree_ok nx h l" "tree_ok nx h r" "node_ok nx (h b)" "\<forall>x \<in> set_tree l. nkey (h x) < nkey (h b)"
    "\<forall>x \<in> set_tree r. nkey (h b) < nkey (h x)"
    using Node.prems(1) by (simp_all add: tree_ok_Node)
  have key: "nkey (h x) = ?k \<longleftrightarrow> rn_text (h x) = key" if "x \<in> set_tree (Node l b r)" for x
    using that Node.prems by (auto simp: tree_ok_def node_ok_def nkey_def)
  have cmp: "key_cmp key (int (length key)) (h b) < 0 \<longleftrightarrow> (length key, key) < (unat (rn_key_len (h b)), rn_text (h b))"
    "key_cmp key (int (length key)) (h b) = 0 \<longleftrightarrow> key = rn_text (h b)"
    using key_cmp_lex [of "h b" _ key] ok(3) by (simp_all add: node_ok_def)
  consider (lt) "?k < nkey (h b)" | (eq) "?k = nkey (h b)" | (gt) "nkey (h b) < ?k"
    by (metis linorder_neqE)
  then show ?case
  proof cases
    case lt
    then have "ngx_http_dmmr_rate_lookup h key hash (Node l b r) = ngx_http_dmmr_rate_lookup h key hash l"
      using cmp ok(3) by (auto simp: nkey_def Let_def node_ok_def)
    moreover have "rn_text (h x) \<noteq> key" if "x = b \<or> x \<in> set_tree r" for x
      using that lt ok(5) key by (metis less_asym less_irrefl tree.set_intros(2,3))
    ultimately show ?thesis
      using Node.IH(1) [OF ok(1) Node.prems(2)] by auto
  next
    case eq
    then have "ngx_http_dmmr_rate_lookup h key hash (Node l b r) = Some b"
      using cmp ok(3) by (auto simp: nkey_def Let_def node_ok_def)
    moreover have "rn_text (h x) \<noteq> key" if "x \<in> set_tree l \<or> x \<in> set_tree r" for x
      using that eq ok(4,5) key by (metis less_irrefl tree.set_intros(1,3))
    moreover have "rn_text (h b) = key" using eq key [of b] by simp
    ultimately show ?thesis by auto
  next
    case gt
    then have "ngx_http_dmmr_rate_lookup h key hash (Node l b r) = ngx_http_dmmr_rate_lookup h key hash r"
      using cmp ok(3) by (auto simp: nkey_def Let_def node_ok_def)
    moreover have "rn_text (h x) \<noteq> key" if "x = b \<or> x \<in> set_tree l" for x
      using that gt ok(4) key by (metis less_asym less_irrefl tree.set_intros(1,2))
    ultimately show ?thesis
      using Node.IH(2) [OF ok(2) Node.prems(2)] by auto
  qed
qed

section \<open>The contract of the zone and its invariant\<close>

text \<open>\<open>live\<close> is the set of the blocks handed out by the slab allocator.\<close>

definition shm_ok :: "'p shm_api \<Rightarrow> ('p \<Rightarrow> nat set) \<Rightarrow> bool" where
  "shm_ok S live \<longleftrightarrow>
     (\<forall>p a p'. sp_alloc S p = (Some a, p') \<longrightarrow> a \<notin> live p \<and> live p' = insert a (live p)) \<and>
     (\<forall>p p'. sp_alloc S p = (None, p') \<longrightarrow> live p' = live p) \<and>
     (\<forall>a p. live (sp_free S a p) = live p - {a}) \<and>
     (\<forall>t. inorder (rb_fix S t) = inorder t) \<and>
     (\<forall>a t. distinct (inorder t) \<longrightarrow> inorder (rb_delete S a t) = remove1 a (inorder t))"

definition rate_inv :: "ngx_api \<Rightarrow> ('p \<Rightarrow> nat set) \<Rightarrow> 'p rate_sh \<Rightarrow> bool" where
  "rate_inv nx live sh \<longleftrightarrow>
     tree_ok nx (sh_heap sh) (sh_tree sh) \<and> distinct (sh_lru sh) \<and> set (sh_lru sh) = set_tree (sh_tree sh) \<and>
     set_tree (sh_tree sh) \<subseteq> live (sh_pool sh)"

text \<open>What the zone knows of a client: the start of its window and its count.\<close>

definition client :: "ngx_api \<Rightarrow> 'p rate_sh \<Rightarrow> bytes \<Rightarrow> (u64 \<times> u64) option" where
  "client nx sh k = map_option (\<lambda>a. (rn_window_start (sh_heap sh a), rn_count (sh_heap sh a)))
     (ngx_http_dmmr_rate_lookup (sh_heap sh) k (ucast (nx_crc32_short nx k)) (sh_tree sh))"

lemma tree_ok_distinct: "tree_ok nx h t \<Longrightarrow> distinct (inorder t)"
  unfolding tree_ok_def
  by (metis distinct_map strict_sorted_iff)

lemma tree_ok_cong:
  assumes "tree_ok nx h t" and "\<forall>a \<in> set_tree t. nkey (h' a) = nkey (h a)"
  shows "tree_ok nx h' t"
proof -
  have "map (\<lambda>a. nkey (h' a)) (inorder t) = map (\<lambda>a. nkey (h a)) (inorder t)"
    using assms(2) by simp
  moreover have "node_ok nx (h' a)" if "a \<in> set_tree t" for a
    using that assms by (auto simp: tree_ok_def node_ok_def nkey_def)
  ultimately show ?thesis
    using assms(1) unfolding tree_ok_def by metis
qed

lemma sorted_wrt_remove1: "sorted_wrt P (map f xs) \<Longrightarrow> sorted_wrt P (map f (remove1 a xs))"
  by (induction xs) (auto dest: notin_set_remove1 [of _ _ a] simp: in_set_remove1 dest: set_remove1_subset [THEN subsetD])

lemma tree_ok_sublist:
  assumes "tree_ok nx h t" and "inorder t' = remove1 a (inorder t)"
  shows "tree_ok nx h t' \<and> set_tree t' = set_tree t - {a}"
proof -
  have set: "set_tree t' = set_tree t - {a}"
    using assms(2) tree_ok_distinct [OF assms(1)] set_inorder by (metis set_remove1_eq)
  show ?thesis
    using assms set sorted_wrt_remove1 by (auto simp: tree_ok_def)
qed

lemma client_at:
  assumes "rate_inv nx live sh"
  shows "client nx sh k = Some (ws, c) \<longleftrightarrow>
    (\<exists>a \<in> set_tree (sh_tree sh). rn_text (sh_heap sh a) = k \<and> rn_window_start (sh_heap sh a) = ws \<and> rn_count (sh_heap sh a) = c)"
  using assms lookup_spec [of nx "sh_heap sh" "sh_tree sh" _ k] by (auto simp: client_def rate_inv_def)

lemma client_None:
  assumes "rate_inv nx live sh"
  shows "client nx sh k = None \<longleftrightarrow> (\<forall>a \<in> set_tree (sh_tree sh). rn_text (sh_heap sh a) \<noteq> k)"
proof -
  have "client nx sh k = None \<longleftrightarrow> (\<nexists>ws c. client nx sh k = Some (ws, c))"
    by (cases "client nx sh k") auto
  then show ?thesis unfolding client_at [OF assms] by blast
qed

lemma node_of_client:
  assumes "rate_inv nx live sh" and "a \<in> set_tree (sh_tree sh)"
  shows "client nx sh (rn_text (sh_heap sh a)) = Some (rn_window_start (sh_heap sh a), rn_count (sh_heap sh a))"
  using client_at [OF assms(1)] assms(2) by blast

lemma same_text_same_node:
  assumes "rate_inv nx live sh" and "a \<in> set_tree (sh_tree sh)" and "b \<in> set_tree (sh_tree sh)"
    and "rn_text (sh_heap sh a) = rn_text (sh_heap sh b)"
  shows "a = b"
  using assms lookup_spec [of nx "sh_heap sh" "sh_tree sh" _ "rn_text (sh_heap sh a)"]
  unfolding rate_inv_def by (metis option.inject)

text \<open>Two states with the same clients among their nodes agree on \<open>client\<close>.\<close>

lemma client_eqI:
  assumes "rate_inv nx live sh" and "rate_inv nx live sh'"
    and "\<And>a. a \<in> set_tree (sh_tree sh') \<and> rn_text (sh_heap sh' a) = k \<longleftrightarrow>
           a \<in> set_tree (sh_tree sh) \<and> rn_text (sh_heap sh a) = k"
    and "\<And>a. a \<in> set_tree (sh_tree sh) \<Longrightarrow> rn_text (sh_heap sh a) = k \<Longrightarrow> sh_heap sh' a = sh_heap sh a"
  shows "client nx sh' k = client nx sh k"
proof (cases "client nx sh k")
  case None
  then show ?thesis
    using client_None [OF assms(1)] client_None [OF assms(2)] assms(3) by metis
next
  case (Some e)
  obtain ws c where e: "e = (ws, c)" by fastforce
  then show ?thesis
    using Some client_at [OF assms(1), of k ws c] client_at [OF assms(2), of k ws c] assms(3,4) by metis
qed

section \<open>The operations on the zone\<close>

lemma rate_drop_effect:
  assumes "shm_ok S live" and "rate_inv nx live sh" and "a \<in> set_tree (sh_tree sh)"
  shows "rate_inv nx live (rate_drop S a sh)"
    and "client nx (rate_drop S a sh) = (client nx sh)(rn_text (sh_heap sh a) := None)"
proof -
  let ?sh = "rate_drop S a sh"
  have del: "inorder (sh_tree ?sh) = remove1 a (inorder (sh_tree sh))"
    using assms(1,2) tree_ok_distinct by (auto simp: shm_ok_def rate_drop_def rate_inv_def)
  have ok: "tree_ok nx (sh_heap sh) (sh_tree ?sh)" and set: "set_tree (sh_tree ?sh) = set_tree (sh_tree sh) - {a}"
    using tree_ok_sublist [OF _ del] assms(2) by (auto simp: rate_inv_def)
  show inv: "rate_inv nx live ?sh"
    using ok set assms(1,2) by (auto simp: rate_inv_def rate_drop_def shm_ok_def)
  show "client nx ?sh = (client nx sh)(rn_text (sh_heap sh a) := None)"
  proof (rule ext)
    fix k
    show "client nx ?sh k = ((client nx sh)(rn_text (sh_heap sh a) := None)) k"
    proof (cases "k = rn_text (sh_heap sh a)")
      case True
      have "rn_text (sh_heap sh b) \<noteq> k" if "b \<in> set_tree (sh_tree sh)" "b \<noteq> a" for b
        using that True same_text_same_node [OF assms(2) _ assms(3)] by blast
      then show ?thesis
        using True set client_None [OF inv, of k] by (auto simp: rate_drop_def)
    next
      case False
      then have "client nx ?sh k = client nx sh k"
        using set by (intro client_eqI [OF assms(2) inv]) (auto simp: rate_drop_def)
      then show ?thesis using False by simp
    qed
  qed
qed

lemma rate_expire_effect:
  assumes "shm_ok S live" and "rate_inv nx live sh"
  shows "rate_inv nx live (ngx_http_dmmr_rate_expire S now window sh) \<and>
    (\<forall>k. client nx (ngx_http_dmmr_rate_expire S now window sh) k = client nx sh k \<or>
         client nx (ngx_http_dmmr_rate_expire S now window sh) k = None \<and>
         (\<exists>ws c. client nx sh k = Some (ws, c) \<and> now - ws > window))"
  using assms
proof (induction S now window sh rule: ngx_http_dmmr_rate_expire.induct)
  case (1 S now window sh)
  show ?case
  proof (cases "\<exists>a as. sh_lru sh = a # as \<and> \<not> now - rn_window_start (sh_heap sh a) \<le> window")
    case False
    then have "ngx_http_dmmr_rate_expire S now window sh = sh"
      by (subst ngx_http_dmmr_rate_expire.simps) (auto split: list.splits)
    then show ?thesis using "1.prems" by simp
  next
    case True
    then obtain a as where a: "sh_lru sh = a # as" "now - rn_window_start (sh_heap sh a) > window"
      by (auto simp: not_le)
    then have "a \<in> set_tree (sh_tree sh)"
      using "1.prems"(2) by (auto simp: rate_inv_def)
    note drop = rate_drop_effect [OF "1.prems" this] and node = node_of_client [OF "1.prems"(2) this]
    let ?e = "ngx_http_dmmr_rate_expire S now window (rate_drop S a sh)"
    have step: "ngx_http_dmmr_rate_expire S now window sh = ?e"
      using a by (subst ngx_http_dmmr_rate_expire.simps) (simp add: not_le)
    have IH: "rate_inv nx live ?e" "\<And>k. client nx ?e k = client nx (rate_drop S a sh) k \<or>
        client nx ?e k = None \<and> (\<exists>ws c. client nx (rate_drop S a sh) k = Some (ws, c) \<and> now - ws > window)"
      using "1.IH" [OF a(1) _ "1.prems"(1) drop(1)] a(2) by (auto simp: not_le)
    have "client nx ?e k = client nx sh k \<or> client nx ?e k = None \<and> (\<exists>ws c. client nx sh k = Some (ws, c) \<and> now - ws > window)" for k
    proof (cases "k = rn_text (sh_heap sh a)")
      case True
      then show ?thesis using IH(2) [of k] drop(2) node a(2) by auto
    next
      case False
      then show ?thesis using IH(2) [of k] drop(2) by simp
    qed
    then show ?thesis unfolding step using IH(1) by blast
  qed
qed

lemma rate_alloc_effect:
  assumes "shm_ok S live" and "rate_inv nx live sh" and "rate_alloc S sh = (res, sh')"
  shows "rate_inv nx live sh'"
    and "res = Some a \<Longrightarrow> a \<notin> set_tree (sh_tree sh') \<and> a \<in> live (sh_pool sh')"
    and "fst (sp_alloc S (sh_pool sh)) \<noteq> None \<Longrightarrow> res \<noteq> None \<and> client nx sh' = client nx sh"
    and "client nx sh' k = client nx sh k \<or> client nx sh' k = None"
proof -
  have pool: "rate_inv nx live (sh0\<lparr>sh_pool := p\<rparr>)" "client nx (sh0\<lparr>sh_pool := p\<rparr>) = client nx sh0"
    if "rate_inv nx live sh0" "live (sh_pool sh0) \<subseteq> live p" for sh0 :: "'a rate_sh" and p
    using that by (auto simp: rate_inv_def client_def fun_eq_iff)
  have alloc: "live (sh_pool sh0) \<subseteq> live p" "r = Some b \<Longrightarrow> b \<notin> live (sh_pool sh0) \<and> b \<in> live p"
    if "sp_alloc S (sh_pool sh0) = (r, p)" for sh0 :: "'a rate_sh" and r p b
    using that assms(1) unfolding shm_ok_def by (cases r; fastforce)+
  obtain r p where r: "sp_alloc S (sh_pool sh) = (r, p)" by fastforce
  consider (ok) b where "r = Some b" "res = Some b" "sh' = sh\<lparr>sh_pool := p\<rparr>"
    | (empty) "r = None" "res = None" "sh' = sh\<lparr>sh_pool := p\<rparr>"
    | (evict) b p' where "r = None" "b \<in> set (sh_lru sh)"
        "sp_alloc S (sh_pool (rate_drop S b (sh\<lparr>sh_pool := p\<rparr>))) = (res, p')"
        "sh' = rate_drop S b (sh\<lparr>sh_pool := p\<rparr>)\<lparr>sh_pool := p'\<rparr>"
    using assms(3) r by (auto simp: rate_alloc_def Let_def split: option.splits list.splits prod.splits)
  then have "rate_inv nx live sh' \<and> (\<forall>a. res = Some a \<longrightarrow> a \<notin> set_tree (sh_tree sh') \<and> a \<in> live (sh_pool sh'))
      \<and> (r \<noteq> None \<longrightarrow> res \<noteq> None \<and> client nx sh' = client nx sh) \<and> (\<forall>k. client nx sh' k = client nx sh k \<or> client nx sh' k = None)"
  proof cases
    case ok
    then show ?thesis
      using pool [OF assms(2) alloc(1) [OF r]] alloc(2) [OF r] assms(2) by (auto simp: rate_inv_def)
  next
    case empty
    then show ?thesis using pool [OF assms(2) alloc(1) [OF r]] by auto
  next
    case evict
    let ?d = "rate_drop S b (sh\<lparr>sh_pool := p\<rparr>)"
    have b: "b \<in> set_tree (sh_tree (sh\<lparr>sh_pool := p\<rparr>))"
      using evict(2) assms(2) by (simp add: rate_inv_def)
    note p1 = pool [OF assms(2) alloc(1) [OF r]]
    note d = rate_drop_effect [OF assms(1) p1(1) b]
    note p2 = pool [OF d(1) alloc(1) [OF evict(3)]]
    have "a \<notin> set_tree (sh_tree ?d) \<and> a \<in> live p'" if "res = Some a" for a
      using alloc(2) [OF evict(3) that] d(1) by (auto simp: rate_inv_def)
    then show ?thesis
      using evict(1,4) p2 d(2) p1(2) by auto
  qed
  then show "rate_inv nx live sh'"
    and "res = Some a \<Longrightarrow> a \<notin> set_tree (sh_tree sh') \<and> a \<in> live (sh_pool sh')"
    and "fst (sp_alloc S (sh_pool sh)) \<noteq> None \<Longrightarrow> res \<noteq> None \<and> client nx sh' = client nx sh"
    and "client nx sh' k = client nx sh k \<or> client nx sh' k = None"
    using r by auto
qed

lemma rate_add_effect:
  assumes "shm_ok S live" and "rate_inv nx live sh" and "a \<notin> set_tree (sh_tree sh)" and "a \<in> live (sh_pool sh)"
    and "client nx sh key = None" and "length key \<le> 255" and "hash = ucast (nx_crc32_short nx key)"
  shows "rate_inv nx live (rate_add S key hash now a sh)"
    and "client nx (rate_add S key hash now a sh) = (client nx sh)(key \<mapsto> (now, 1))"
proof -
  let ?sh = "rate_add S key hash now a sh"
  define n where "n = \<lparr>rn_key = hash, rn_window_start = now, rn_count = 1, rn_key_len = of_nat (length key), rn_text = key\<rparr>"
  define h where "h = (sh_heap sh)(a := n)"
  let ?t = "ngx_http_dmmr_rate_rbtree_insert h a (sh_tree sh)"
  have sh: "?sh = sh\<lparr>sh_heap := h, sh_tree := rb_fix S ?t, sh_lru := sh_lru sh @ [a]\<rparr>"
    by (simp add: rate_add_def Let_def h_def n_def)
  have ha: "h a = n" by (simp add: h_def)
  have hb: "h b = sh_heap sh b" if "b \<in> set_tree (sh_tree sh)" for b
    using that assms(3) by (auto simp: h_def)
  have n: "node_ok nx n" "rn_text n = key" "rn_window_start n = now" "rn_count n = 1"
    using assms(6,7) by (simp_all add: n_def node_ok_def unat_of_nat take_bit_nat_def)
  have ok: "tree_ok nx h (sh_tree sh)"
    using assms(2) hb by (simp add: rate_inv_def tree_ok_cong [of nx "sh_heap sh" "sh_tree sh"])
  have "\<forall>b \<in> set_tree (sh_tree sh). rn_text (sh_heap sh b) \<noteq> key"
    using client_None [OF assms(2), of key] assms(5) by blast
  then have "\<forall>b \<in> set_tree (sh_tree sh). nkey (h b) \<noteq> nkey (h a)"
    using hb n(2) by (simp add: nkey_def ha)
  then have ins: "tree_ok nx h ?t" "set_tree ?t = insert a (set_tree (sh_tree sh))"
    using insert_tree_ok [OF ok, of a] n(1) by (simp_all add: ha)
  have fix_t: "inorder (rb_fix S ?t) = inorder ?t"
    using assms(1) by (simp add: shm_ok_def)
  then have set: "set_tree (sh_tree ?sh) = insert a (set_tree (sh_tree sh))"
    using ins(2) by (simp add: sh flip: set_inorder)
  have "tree_ok nx h (rb_fix S ?t)"
    using ins(1) fix_t unfolding tree_ok_def by (metis set_inorder)
  then show inv: "rate_inv nx live ?sh"
    using set assms(2,3,4) by (auto simp: rate_inv_def sh)
  show "client nx ?sh = (client nx sh)(key \<mapsto> (now, 1))"
  proof (rule ext)
    fix k
    show "client nx ?sh k = ((client nx sh)(key \<mapsto> (now, 1))) k"
    proof (cases "k = key")
      case True
      then show ?thesis
        using client_at [OF inv, of key now 1] set n ha by (auto simp: sh)
    next
      case False
      then have "client nx ?sh k = client nx sh k"
        using set assms(3) hb ha n(2) by (intro client_eqI [OF assms(2) inv]) (auto simp: sh)
      then show ?thesis using False by simp
    qed
  qed
qed

lemma rate_hit_effect:
  assumes "rate_inv nx live sh" and "a \<in> set_tree (sh_tree sh)" and "rn_text (sh_heap sh a) = key"
    and "client nx sh key = Some (ws, c)" and "rate_hit L W now a sh = (limited, sh')"
  shows "rate_inv nx live sh'"
    and "(limited, client nx sh') =
      (if now - ws > W then (False, (client nx sh)(key \<mapsto> (now, 1)))
       else if c \<ge> L then (True, client nx sh)
       else (False, (client nx sh)(key \<mapsto> (ws, c + 1))))"
proof -
  have e: "rn_window_start (sh_heap sh a) = ws" "rn_count (sh_heap sh a) = c"
    using node_of_client [OF assms(1,2)] assms(3,4) by auto
  define n where "n = (if now - ws > W then (sh_heap sh a)\<lparr>rn_window_start := now, rn_count := 1\<rparr>
    else if c \<ge> L then sh_heap sh a else (sh_heap sh a)\<lparr>rn_count := c + 1\<rparr>)"
  have n: "sh' = sh\<lparr>sh_heap := (sh_heap sh)(a := n), sh_lru := remove1 a (sh_lru sh) @ [a]\<rparr>" "nkey n = nkey (sh_heap sh a)"
    using assms(5) e by (auto simp: rate_hit_def Let_def nkey_def n_def split: if_splits)
  have res: "(limited, rn_window_start n, rn_count n) =
      (if now - ws > W then (False, now, 1) else if c \<ge> L then (True, ws, c) else (False, ws, c + 1))"
    using assms(5) e by (auto simp: rate_hit_def Let_def n_def split: if_splits)
  have lru: "distinct (sh_lru sh)" "set (sh_lru sh) = set_tree (sh_tree sh)"
    using assms(1) by (simp_all add: rate_inv_def)
  have "tree_ok nx (sh_heap sh') (sh_tree sh)"
    using tree_ok_cong [of nx "sh_heap sh" "sh_tree sh" "sh_heap sh'"] assms(1) n by (simp add: rate_inv_def)
  then show inv: "rate_inv nx live sh'"
    using assms(1,2) n(1) lru by (auto simp: rate_inv_def)
  have "client nx sh' = (client nx sh)(key \<mapsto> (rn_window_start n, rn_count n))"
  proof (rule ext)
    fix k
    show "client nx sh' k = ((client nx sh)(key \<mapsto> (rn_window_start n, rn_count n))) k"
    proof (cases "k = key")
      case True
      have "rn_text n = key" using n(2) assms(3) by (simp add: nkey_def)
      then show ?thesis
        using True client_at [OF inv, of key "rn_window_start n" "rn_count n"] assms(2) n(1) by auto
    next
      case False
      then have "client nx sh' k = client nx sh k"
        using n assms(3) by (intro client_eqI [OF assms(1) inv]) (auto simp: nkey_def)
      then show ?thesis using False by simp
    qed
  qed
  moreover have "(client nx sh)(key \<mapsto> (ws, c)) = client nx sh"
    using assms(4) by auto
  ultimately show "(limited, client nx sh') =
      (if now - ws > W then (False, (client nx sh)(key \<mapsto> (now, 1)))
       else if c \<ge> L then (True, client nx sh)
       else (False, (client nx sh)(key \<mapsto> (ws, c + 1))))"
    using res by (auto split: if_splits)
qed

lemma rate_locked_known:
  assumes "rate_inv nx live sh" and "client nx sh key = Some (ws, c)" and "rate_locked nx S L W key now sh = (rc, sh')"
  shows "rate_inv nx live sh'"
    and "(rc, client nx sh') =
      (if now - ws > W then (NGX_OK, (client nx sh)(key \<mapsto> (now, 1)))
       else if c \<ge> L then (NGX_HTTP_TOO_MANY_REQUESTS, client nx sh)
       else (NGX_OK, (client nx sh)(key \<mapsto> (ws, c + 1))))"
proof -
  obtain a where look: "ngx_http_dmmr_rate_lookup (sh_heap sh) key (ucast (nx_crc32_short nx key)) (sh_tree sh) = Some a"
    using assms(2) by (auto simp: client_def)
  then have a: "a \<in> set_tree (sh_tree sh)" "rn_text (sh_heap sh a) = key"
    using lookup_spec [of nx "sh_heap sh" "sh_tree sh"] assms(1) by (auto simp: rate_inv_def)
  obtain limited where hit: "rate_hit L W now a sh = (limited, sh')"
    and rc: "rc = (if limited then NGX_HTTP_TOO_MANY_REQUESTS else NGX_OK)"
    using assms(3) look by (auto simp: rate_locked_def split: prod.splits)
  note effect = rate_hit_effect [OF assms(1) a assms(2) hit]
  show "rate_inv nx live sh'" by (rule effect(1))
  show "(rc, client nx sh') =
      (if now - ws > W then (NGX_OK, (client nx sh)(key \<mapsto> (now, 1)))
       else if c \<ge> L then (NGX_HTTP_TOO_MANY_REQUESTS, client nx sh)
       else (NGX_OK, (client nx sh)(key \<mapsto> (ws, c + 1))))"
    using effect(2) rc by (auto split: if_splits)
qed

definition slab_full :: "'p shm_api \<Rightarrow> u64 \<Rightarrow> u64 \<Rightarrow> 'p rate_sh \<Rightarrow> bool" where
  "slab_full S W now sh \<longleftrightarrow> fst (sp_alloc S (sh_pool (ngx_http_dmmr_rate_expire S now W sh))) = None"

lemma rate_locked_new:
  assumes "shm_ok S live" and "rate_inv nx live sh" and "client nx sh key = None" and "length key \<le> 255"
    and "rate_locked nx S L W key now sh = (rc, sh')"
  shows "rate_inv nx live sh'"
    and "(rc, client nx sh' key) = (NGX_OK, Some (now, 1)) \<or>
         (rc, client nx sh' key) = (NGX_HTTP_SERVICE_UNAVAILABLE, None) \<and> slab_full S W now sh"
    and "k \<noteq> key \<Longrightarrow> client nx sh' k = client nx sh k \<or> client nx sh' k = None \<and>
         (slab_full S W now sh \<or> (\<exists>ws c. client nx sh k = Some (ws, c) \<and> now - ws > W))"
proof -
  let ?e = "ngx_http_dmmr_rate_expire S now W sh"
  note expire = rate_expire_effect [OF assms(1,2), of now W]
  then have e: "rate_inv nx live ?e" and e_key: "client nx ?e key = None"
    using assms(3) by metis+
  obtain res sh1 where alloc: "rate_alloc S ?e = (res, sh1)" by fastforce
  note al = rate_alloc_effect [OF assms(1) e alloc]
  have look: "ngx_http_dmmr_rate_lookup (sh_heap sh) key (ucast (nx_crc32_short nx key)) (sh_tree sh) = None"
    using assms(3) by (simp add: client_def)
  have k1: "client nx sh1 k = client nx sh k \<or> client nx sh1 k = None \<and>
      (slab_full S W now sh \<or> (\<exists>ws c. client nx sh k = Some (ws, c) \<and> now - ws > W))" for k
    using al(3) al(4) [of k] expire unfolding slab_full_def by metis
  have key1: "client nx sh1 key = None" using al(4) [of key] e_key by simp
  have "rate_inv nx live sh' \<and> ((rc, client nx sh' key) = (NGX_OK, Some (now, 1)) \<or>
         (rc, client nx sh' key) = (NGX_HTTP_SERVICE_UNAVAILABLE, None) \<and> slab_full S W now sh)
       \<and> (\<forall>k. k \<noteq> key \<longrightarrow> client nx sh' k = client nx sh1 k)"
  proof (cases res)
    case None
    then have "rc = NGX_HTTP_SERVICE_UNAVAILABLE" "sh' = sh1"
      using assms(5) look alloc by (auto simp: rate_locked_def)
    moreover have "slab_full S W now sh"
      using None al(3) unfolding slab_full_def by blast
    ultimately show ?thesis using al(1) key1 by simp
  next
    case (Some a)
    then have sh': "rc = NGX_OK" "sh' = rate_add S key (ucast (nx_crc32_short nx key)) now a sh1"
      using assms(5) look alloc by (auto simp: rate_locked_def Let_def)
    have fresh: "a \<notin> set_tree (sh_tree sh1)" "a \<in> live (sh_pool sh1)"
      using al(2) [OF Some] by simp_all
    show ?thesis
      using rate_add_effect [OF assms(1) al(1) fresh key1 assms(4) refl, of now] sh' by simp
  qed
  then show "rate_inv nx live sh'"
    and "(rc, client nx sh' key) = (NGX_OK, Some (now, 1)) \<or>
         (rc, client nx sh' key) = (NGX_HTTP_SERVICE_UNAVAILABLE, None) \<and> slab_full S W now sh"
    and "k \<noteq> key \<Longrightarrow> client nx sh' k = client nx sh k \<or> client nx sh' k = None \<and>
         (slab_full S W now sh \<or> (\<exists>ws c. client nx sh k = Some (ws, c) \<and> now - ws > W))"
    using k1 by auto
qed

section \<open>Sequences of requests\<close>

fun run_seq :: "('e \<Rightarrow> 's \<Rightarrow> ngx_rc \<times> 's) \<Rightarrow> 'e list \<Rightarrow> 's \<Rightarrow> ngx_rc list \<times> 's" where
  "run_seq step [] s = ([], s)"
| "run_seq step (e # es) s =
     (case step e s of (rc, s1) \<Rightarrow> case run_seq step es s1 of (rcs, s2) \<Rightarrow> (rc # rcs, s2))"

text \<open>The answers a client gets, in order.\<close>

definition answers :: "('e \<Rightarrow> bool) \<Rightarrow> 'e list \<Rightarrow> ngx_rc list \<Rightarrow> ngx_rc list" where
  "answers mine es rcs = map snd (filter (\<lambda>(e, rc). mine e) (zip es rcs))"

definition quota :: "nat \<Rightarrow> nat \<Rightarrow> nat \<Rightarrow> ngx_rc list" where
  "quota limit used n = map (\<lambda>i. if used + i < limit then NGX_OK else NGX_HTTP_TOO_MANY_REQUESTS) [0..<n]"

lemma quota_Suc:
  "quota limit used (Suc n) = (if used < limit then NGX_OK else NGX_HTTP_TOO_MANY_REQUESTS) # quota limit (Suc used) n"
  by (simp add: quota_def upt_conv_Cons map_Suc_upt [symmetric] del: upt_Suc map_Suc_upt)

lemma quota_full: "limit \<le> used \<Longrightarrow> quota limit (Suc used) n = quota limit used n"
  by (simp add: quota_def)

text \<open>
  The contract of a limiter with a window of \<open>W\<close> and at most \<open>L\<close> requests: a new client is counted from the time
  of its request, a known one within its window is counted or turned away, and nobody else's window changes
  before it is over.
\<close>

locale window_limiter =
  fixes inv :: "'s \<Rightarrow> bool"
    and entry :: "'s \<Rightarrow> 'k \<Rightarrow> (u64 \<times> u64) option"
    and step :: "'k \<times> u64 \<Rightarrow> 's \<Rightarrow> ngx_rc \<times> 's"
    and L :: u64
    and W :: u64
    and valid :: "'k \<Rightarrow> bool"
  assumes keeps: "inv s \<Longrightarrow> valid k \<Longrightarrow> step (k, now) s = (rc, s') \<Longrightarrow> inv s'"
    and starts: "inv s \<Longrightarrow> valid k \<Longrightarrow> entry s k = None \<Longrightarrow> step (k, now) s = (rc, s') \<Longrightarrow>
      rc = NGX_OK \<and> entry s' k = Some (now, 1)"
    and counts: "inv s \<Longrightarrow> valid k \<Longrightarrow> entry s k = Some (ws, c) \<Longrightarrow> now - ws \<le> W \<Longrightarrow> c < L \<Longrightarrow>
      step (k, now) s = (rc, s') \<Longrightarrow> rc = NGX_OK \<and> entry s' k = Some (ws, c + 1)"
    and limits: "inv s \<Longrightarrow> valid k \<Longrightarrow> entry s k = Some (ws, c) \<Longrightarrow> now - ws \<le> W \<Longrightarrow> L \<le> c \<Longrightarrow>
      step (k, now) s = (rc, s') \<Longrightarrow> rc = NGX_HTTP_TOO_MANY_REQUESTS \<and> entry s' k = Some (ws, c)"
    and others: "inv s \<Longrightarrow> valid k \<Longrightarrow> entry s k' = Some (ws, c) \<Longrightarrow> now - ws \<le> W \<Longrightarrow> k' \<noteq> k \<Longrightarrow>
      step (k, now) s = (rc, s') \<Longrightarrow> entry s' k' = Some (ws, c)"
begin

lemma run_quota:
  assumes "inv s" and "entry s k = Some (ws, c)" and "\<forall>(k', now) \<in> set es. valid k' \<and> now - ws \<le> W"
  shows "answers (\<lambda>e. fst e = k) es (fst (run_seq step es s)) = quota (unat L) (unat c) (length (filter (\<lambda>e. fst e = k) es))"
  using assms
proof (induction es arbitrary: s c)
  case Nil
  then show ?case by (simp add: answers_def quota_def)
next
  case (Cons e es)
  obtain k' now where e: "e = (k', now)" by fastforce
  obtain rc s1 where st: "step (k', now) s = (rc, s1)" by fastforce
  have v: "valid k'" "now - ws \<le> W" using Cons.prems(3) e by auto
  have inv1: "inv s1" using keeps [OF Cons.prems(1) v(1) st] .
  have rest: "\<forall>(k', now) \<in> set es. valid k' \<and> now - ws \<le> W" using Cons.prems(3) by simp
  have run: "fst (run_seq step (e # es) s) = rc # fst (run_seq step es s1)"
    by (simp add: e st split: prod.splits)
  show ?case
  proof (cases "k' = k")
    case False
    then have "entry s1 k = Some (ws, c)"
      using others [OF Cons.prems(1) v(1) Cons.prems(2) v(2) _ st] by blast
    then show ?thesis
      using Cons.IH [OF inv1 _ rest] False unfolding run by (simp add: answers_def e)
  next
    case True
    show ?thesis
    proof (cases "c < L")
      case lt: True
      then have c: "rc = NGX_OK" "entry s1 k = Some (ws, c + 1)"
        using counts [OF Cons.prems(1) v(1) _ v(2) _ st] Cons.prems(2) True by auto
      have "unat (c + 1) = Suc (unat c)"
        using lt unsigned_less [of L, where ?'a = nat] by (simp add: word_less_nat_alt unat_word_ariths)
      then show ?thesis
        using Cons.IH [OF inv1 c(2) rest] True c(1) lt unfolding run
        by (simp add: answers_def e quota_Suc word_less_nat_alt)
    next
      case ge: False
      then have c: "rc = NGX_HTTP_TOO_MANY_REQUESTS" "entry s1 k = Some (ws, c)"
        using limits [OF Cons.prems(1) v(1) _ v(2) _ st] Cons.prems(2) True by auto
      then show ?thesis
        using Cons.IH [OF inv1 c(2) rest] True ge unfolding run
        by (simp add: answers_def e quota_Suc quota_full word_less_nat_alt)
    qed
  qed
qed

lemma run_admits:
  assumes "inv s" and "entry s k = None" and "valid k" and "0 < L" and "\<forall>(k', now) \<in> set es. valid k' \<and> now - t0 \<le> W"
  shows "answers (\<lambda>e. fst e = k) ((k, t0) # es) (fst (run_seq step ((k, t0) # es) s))
    = quota (unat L) 0 (Suc (length (filter (\<lambda>e. fst e = k) es)))"
proof -
  obtain rc s1 where st: "step (k, t0) s = (rc, s1)" by fastforce
  note first = starts [OF assms(1,3,2) st]
  have "answers (\<lambda>e. fst e = k) es (fst (run_seq step es s1)) = quota (unat L) 1 (length (filter (\<lambda>e. fst e = k) es))"
    using run_quota [OF keeps [OF assms(1,3) st] _ assms(5), of k 1] first by simp
  then show ?thesis
    using first assms(4)
    by (cases "run_seq step es s1") (simp add: st answers_def quota_Suc word_less_nat_alt)
qed

end

section \<open>Room in the zone\<close>

text \<open>A slab with room for \<open>N\<close> entries: an allocation fails only when as many blocks are in use.\<close>

definition slab_holds :: "'p shm_api \<Rightarrow> ('p \<Rightarrow> nat set) \<Rightarrow> nat \<Rightarrow> bool" where
  "slab_holds S live N \<longleftrightarrow> (\<forall>p. finite (live p) \<and> card (live p) < N \<longrightarrow> fst (sp_alloc S p) \<noteq> None)"

text \<open>Of the clients \<open>K\<close>, those the zone does not know still fit beside the blocks in use.\<close>

definition zone_fits :: "ngx_api \<Rightarrow> ('p \<Rightarrow> nat set) \<Rightarrow> nat \<Rightarrow> bytes set \<Rightarrow> 'p rate_sh \<Rightarrow> bool" where
  "zone_fits nx live N K sh \<longleftrightarrow> finite K \<and> finite (live (sh_pool sh))
     \<and> card (live (sh_pool sh)) + card (K - dom (client nx sh)) \<le> N"

lemma rate_drop_fits:
  assumes "shm_ok S live" and "rate_inv nx live sh" and "a \<in> set_tree (sh_tree sh)" and "zone_fits nx live N K sh"
  shows "zone_fits nx live N K (rate_drop S a sh)"
proof -
  let ?k = "rn_text (sh_heap sh a)"
  have live: "live (sh_pool (rate_drop S a sh)) = live (sh_pool sh) - {a}" "a \<in> live (sh_pool sh)" "finite (live (sh_pool sh))"
    "finite K"
    using assms by (auto simp: shm_ok_def rate_drop_def rate_inv_def zone_fits_def)
  have "K - dom (client nx (rate_drop S a sh)) \<subseteq> insert ?k (K - dom (client nx sh))"
    unfolding rate_drop_effect(2) [OF assms(1-3)] by auto
  then have "card (K - dom (client nx (rate_drop S a sh))) \<le> card (insert ?k (K - dom (client nx sh)))"
    using live(4) by (intro card_mono) auto
  also have "\<dots> \<le> Suc (card (K - dom (client nx sh)))" by (rule card_insert_le_m1) auto
  moreover have "Suc (card (live (sh_pool sh) - {a})) = card (live (sh_pool sh))"
    using live(2,3) by (rule card_Suc_Diff1 [rotated])
  ultimately show ?thesis using live assms(4) by (simp add: zone_fits_def)
qed

lemma rate_expire_fits:
  assumes "shm_ok S live" and "rate_inv nx live sh" and "zone_fits nx live N K sh"
  shows "zone_fits nx live N K (ngx_http_dmmr_rate_expire S now window sh)"
  using assms
proof (induction S now window sh rule: ngx_http_dmmr_rate_expire.induct)
  case (1 S now window sh)
  show ?case
  proof (cases "\<exists>a as. sh_lru sh = a # as \<and> \<not> now - rn_window_start (sh_heap sh a) \<le> window")
    case False
    then have "ngx_http_dmmr_rate_expire S now window sh = sh"
      by (subst ngx_http_dmmr_rate_expire.simps) (auto split: list.splits)
    then show ?thesis using "1.prems" by simp
  next
    case True
    then obtain a as where a: "sh_lru sh = a # as" "\<not> now - rn_window_start (sh_heap sh a) \<le> window" by blast
    then have "a \<in> set_tree (sh_tree sh)" using "1.prems"(2) by (auto simp: rate_inv_def)
    with "1.IH" [OF a "1.prems"(1)] rate_drop_effect(1) rate_drop_fits "1.prems"
    have "zone_fits nx live N K (ngx_http_dmmr_rate_expire S now window (rate_drop S a sh))" by blast
    then show ?thesis using a by (subst ngx_http_dmmr_rate_expire.simps) simp
  qed
qed

lemma zone_fits_alloc:
  assumes "slab_holds S live N" and "zone_fits nx live N K sh" and "k \<in> K" and "client nx sh k = None"
  shows "fst (sp_alloc S (sh_pool sh)) \<noteq> None"
proof -
  have "k \<in> K - dom (client nx sh)" using assms(3,4) by auto
  then have "0 < card (K - dom (client nx sh))" using assms(2) by (auto simp: zone_fits_def card_gt_0_iff)
  then have "finite (live (sh_pool sh)) \<and> card (live (sh_pool sh)) < N" using assms(2) by (simp add: zone_fits_def)
  with assms(1) show ?thesis by (simp add: slab_holds_def)
qed

lemma zone_fits_not_full:
  assumes "shm_ok S live" and "slab_holds S live N" and "rate_inv nx live sh" and "zone_fits nx live N K sh"
    and "k \<in> K" and "client nx sh k = None"
  shows "\<not> slab_full S W now sh"
proof -
  let ?e = "ngx_http_dmmr_rate_expire S now W sh"
  have "client nx ?e k = None" using rate_expire_effect [OF assms(1,3), of now W] assms(6) by metis
  with zone_fits_alloc [OF assms(2) rate_expire_fits [OF assms(1,3,4), of now W] assms(5)]
  show ?thesis by (simp add: slab_full_def)
qed

lemma rate_locked_fits:
  assumes "shm_ok S live" and "slab_holds S live N" and "rate_inv nx live sh" and "zone_fits nx live N K sh"
    and "key \<in> K" and "length key \<le> 255" and "rate_locked nx S L W key now sh = (rc, sh')"
  shows "zone_fits nx live N K sh'"
proof (cases "client nx sh key")
  case (Some e)
  then have dom: "dom (client nx sh') = dom (client nx sh)"
    using rate_locked_known(2) [OF assms(3) _ assms(7), of "fst e" "snd e"] by (auto split: if_splits)
  from Some obtain a where "ngx_http_dmmr_rate_lookup (sh_heap sh) key (ucast (nx_crc32_short nx key)) (sh_tree sh) = Some a"
    by (auto simp: client_def)
  then have "sh_pool sh' = sh_pool sh"
    using assms(7) by (auto simp: rate_locked_def rate_hit_def Let_def split: prod.splits if_splits)
  with dom assms(4) show ?thesis by (simp add: zone_fits_def)
next
  case None
  let ?e = "ngx_http_dmmr_rate_expire S now W sh"
  note expire = rate_expire_effect [OF assms(1,3), of now W]
  then have e: "rate_inv nx live ?e" "client nx ?e key = None" using None by metis+
  note fits = rate_expire_fits [OF assms(1,3,4), of now W]
  from zone_fits_alloc [OF assms(2) fits assms(5) e(2)] obtain a q where q: "sp_alloc S (sh_pool ?e) = (Some a, q)"
    by (cases "sp_alloc S (sh_pool ?e)") auto
  then have al: "rate_alloc S ?e = (Some a, ?e\<lparr>sh_pool := q\<rparr>)" by (simp add: rate_alloc_def)
  have live: "a \<notin> live (sh_pool ?e)" "live q = insert a (live (sh_pool ?e))" using q assms(1) by (auto simp: shm_ok_def)
  have look: "ngx_http_dmmr_rate_lookup (sh_heap sh) key (ucast (nx_crc32_short nx key)) (sh_tree sh) = None"
    using None by (simp add: client_def)
  let ?s1 = "?e\<lparr>sh_pool := q\<rparr>"
  have sh': "sh' = rate_add S key (ucast (nx_crc32_short nx key)) now a ?s1"
    using assms(7) look al by (simp add: rate_locked_def Let_def)
  note s1 = rate_alloc_effect(1-3) [OF assms(1) e(1) al]
  have "client nx ?s1 = client nx ?e" using s1(3) q by simp
  then have "client nx sh' = (client nx ?e)(key \<mapsto> (now, 1))"
    using rate_add_effect(2) [OF assms(1) s1(1) _ _ _ assms(6) refl, of a now] s1(2) e(2) unfolding sh' by simp
  then have "K - dom (client nx ?e) = insert key (K - dom (client nx sh'))" "key \<notin> K - dom (client nx sh')"
    using assms(5) e(2) by auto
  moreover have "finite K" using assms(4) by (simp add: zone_fits_def)
  ultimately have "card (K - dom (client nx ?e)) = Suc (card (K - dom (client nx sh')))" by simp
  moreover have "sh_pool sh' = q" by (simp add: sh' rate_add_def Let_def)
  ultimately show ?thesis using fits live by (simp add: zone_fits_def)
qed

interpretation limiter: window_limiter
  "\<lambda>sh. shm_ok S live \<and> slab_holds S live N \<and> rate_inv nx live sh \<and> zone_fits nx live N K sh" "client nx"
  "\<lambda>(k, now). rate_locked nx S L W k now" L W "\<lambda>k. length k \<le> 255 \<and> k \<in> K"
  for S :: "'p shm_api" and live nx L W N K
proof (unfold_locales, goal_cases)
  case (1 s k now rc s')
  then have "zone_fits nx live N K s'"
    using rate_locked_fits [of S live N nx s K k L W now rc s'] by auto
  with 1 show ?case
    using rate_locked_known(1) [of nx live s k _ _ S L W now rc s'] rate_locked_new(1) [of S live nx s k L W now rc s']
    by (cases "client nx s k") auto
next
  case (2 s k now rc s')
  then show ?case
    using rate_locked_new(2) [of S live nx s k L W now rc s'] zone_fits_not_full [of S live N nx s K k W now] by auto
next
  case (3 s k ws c now rc s')
  then show ?case
    using rate_locked_known(2) [of nx live s k ws c S L W now rc s'] by (auto split: if_splits)
next
  case (4 s k ws c now rc s')
  then show ?case
    using rate_locked_known(2) [of nx live s k ws c S L W now rc s'] by (auto split: if_splits)
next
  case (5 s k k' ws c now rc s')
  show ?case
  proof (cases "client nx s k")
    case None
    then show ?thesis
      using 5 rate_locked_new(3) [of S live nx s k L W now rc s' k'] zone_fits_not_full [of S live N nx s K k W now] by auto
  next
    case (Some e)
    then show ?thesis
      using 5 rate_locked_known(2) [of nx live s k "fst e" "snd e" S L W now rc s'] by (auto split: if_splits)
  qed
qed

lemma rate_zone_init_inv:
  assumes "ngx_http_dmmr_rate_zone_init S pool None = (NGX_OK, Some sh)"
  shows "rate_inv nx live sh" and "client nx sh k = None"
  using assms
  by (auto simp: ngx_http_dmmr_rate_zone_init_def rate_inv_def tree_ok_def client_def split: prod.splits option.splits)

text \<open>The directive accepts \<open>name:size\<close> with a size of at least eight pages, once, and nothing else.\<close>

lemma rate_zone_directive:
  assumes "ngx_api_ok nx" and "ngx_http_dmmr_rate_zone nx added arg mc = (NGX_CONF_OK, mc')"
  shows "\<exists>name size. nc_rate_zone mc = None \<and> arg = name @ of_char CHR '':'' # size \<and> name \<noteq> [] \<and> size \<noteq> []
    \<and> of_char CHR '':'' \<notin> set name \<and> int (8 * nx_pagesize nx) \<le> nx_parse_size nx size
    \<and> mc' = mc\<lparr>nc_rate_zone := Some (name, nat (nx_parse_size nx size))\<rparr>"
proof -
  obtain p where p: "nx_strlchr nx arg (of_char CHR '':'') = Some p" "p \<noteq> 0" "p \<noteq> length arg - 1"
      "\<not> nx_parse_size nx (drop (p + 1) arg) < int (8 * nx_pagesize nx)" "nc_rate_zone mc = None"
      "mc' = mc\<lparr>nc_rate_zone := Some (take p arg, nat (nx_parse_size nx (drop (p + 1) arg)))\<rparr>"
    using assms(2)
    by (cases "nc_rate_zone mc") (auto simp: ngx_http_dmmr_rate_zone_def Let_def split: if_splits option.splits)
  note at = ngx_strlchrD(2) [OF assms(1) p(1)]
  then have "arg = take p arg @ of_char CHR '':'' # drop (p + 1) arg"
    by (metis Suc_eq_plus1 id_take_nth_drop)
  then show ?thesis
    using p at by (intro exI [of _ "take p arg"] exI [of _ "drop (p + 1) arg"]) auto
qed

section \<open>Properties\<close>

definition conf_limit :: "ngx_conf \<Rightarrow> u64" where
  "conf_limit c = (if nc_rate_limit c > 0 then nc_rate_limit c else 100)"

definition conf_window :: "ngx_conf \<Rightarrow> u64" where
  "conf_window c = (if nc_rate_window c > 0 then nc_rate_window c else 60000)"

definition addr_ok :: "ngx_api \<Rightarrow> ngx_request \<Rightarrow> bool" where
  "addr_ok nx r \<longleftrightarrow> 0 < length (rq_peer r) \<and> length (rq_peer r) \<le> nx_sockaddr_strlen nx"

lemma rate_limit_locked:
  assumes "nc_rate_zone mc \<noteq> None" and "addr_ok nx r"
  shows "ngx_http_dmmr_rate_limit nx S (Some conf) (Some mc) now r (Some sh) =
    map_prod id Some (rate_locked nx S (conf_limit conf) (conf_window conf) (rq_peer r) now sh)"
  using assms by (auto simp: ngx_http_dmmr_rate_limit_def conf_limit_def conf_window_def addr_ok_def split: prod.splits)

lemma run_seq_locked:
  assumes "nc_rate_zone mc \<noteq> None" and "\<forall>(r, now) \<in> set es. addr_ok nx r"
  shows "run_seq (\<lambda>(r, now). ngx_http_dmmr_rate_limit nx S (Some conf) (Some mc) now r) es (Some sh) =
    map_prod id Some (run_seq (\<lambda>(k, now). rate_locked nx S (conf_limit conf) (conf_window conf) k now)
      (map (\<lambda>(r, now). (rq_peer r, now)) es) sh)"
  using assms(2)
  by (induction es arbitrary: sh) (auto simp: rate_limit_locked [OF assms(1)] split: prod.splits)

text \<open>
  C11: the limiter keeps its books.  Under the contract of nginx's slab and tree, a request leaves the zone
  consistent, whatever happens.  A known client is counted in its window, starts a new one when it is over, or
  is turned away with 429 and nothing changed.  A new client starts a window at 1, or is answered 503 when the
  slab is full; and no other client loses its window before it is over, unless the slab is full.
\<close>

theorem rate_limit_books:
  assumes "shm_ok S live" and "rate_inv nx live sh" and "ngx_api_ok nx" and "nc_rate_zone mc \<noteq> None" and "addr_ok nx r"
    and "ngx_http_dmmr_rate_limit nx S (Some conf) (Some mc) now r (Some sh) = (rc, data)"
  shows "\<exists>sh'. data = Some sh' \<and> rate_inv nx live sh' \<and>
    (case client nx sh (rq_peer r) of
       Some (ws, c) \<Rightarrow>
         (rc, client nx sh') =
           (if now - ws > conf_window conf then (NGX_OK, (client nx sh)(rq_peer r \<mapsto> (now, 1)))
            else if c \<ge> conf_limit conf then (NGX_HTTP_TOO_MANY_REQUESTS, client nx sh)
            else (NGX_OK, (client nx sh)(rq_peer r \<mapsto> (ws, c + 1))))
     | None \<Rightarrow>
         ((rc, client nx sh' (rq_peer r)) = (NGX_OK, Some (now, 1)) \<or>
          (rc, client nx sh' (rq_peer r)) = (NGX_HTTP_SERVICE_UNAVAILABLE, None) \<and> slab_full S (conf_window conf) now sh) \<and>
         (\<forall>k. k \<noteq> rq_peer r \<longrightarrow> client nx sh' k = client nx sh k \<or> client nx sh' k = None \<and>
            (slab_full S (conf_window conf) now sh \<or> (\<exists>ws c. client nx sh k = Some (ws, c) \<and> now - ws > conf_window conf))))"
proof -
  obtain sh' where sh': "data = Some sh'" "rate_locked nx S (conf_limit conf) (conf_window conf) (rq_peer r) now sh = (rc, sh')"
    using assms(6) rate_limit_locked [OF assms(4,5), of S conf now sh]
    by (cases "rate_locked nx S (conf_limit conf) (conf_window conf) (rq_peer r) now sh") auto
  have len: "length (rq_peer r) \<le> 255"
    using assms(3,5) by (auto simp: ngx_api_ok_def addr_ok_def)
  show ?thesis
  proof (cases "client nx sh (rq_peer r)")
    case None
    note new = rate_locked_new [OF assms(1,2) None len sh'(2)]
    show ?thesis using sh'(1) new(1,2) new(3) None by auto
  next
    case (Some e)
    obtain ws c where e: "client nx sh (rq_peer r) = Some (ws, c)" using Some by (cases e) auto
    show ?thesis using sh'(1) rate_locked_known [OF assms(2) e sh'(2)] e by auto
  qed
qed

text \<open>
  C10: the limit holds.  Take a client without a running window whose first request comes at \<open>t0\<close>, and any
  sequence of requests of any clients in the window that follows.  If the clients of the sequence the zone does not
  know yet fit into it beside the blocks in use (so that no entry is given up for another client's), the client's
  first \<open>rate_limit\<close> requests are admitted and every further one is answered 429, exactly and in this order,
  however the other clients' requests are interleaved with its own.
\<close>

theorem rate_limit_admits:
  assumes "shm_ok S live" and "slab_holds S live N" and "rate_inv nx live sh" and "ngx_api_ok nx" and "nc_rate_zone mc \<noteq> None"
    and "client nx sh (rq_peer r0) = None"
    and "\<forall>(r, now) \<in> set ((r0, t0) # es). addr_ok nx r \<and> now - t0 \<le> conf_window conf"
    and "zone_fits nx live N ((\<lambda>(r, now). rq_peer r) ` set ((r0, t0) # es)) sh"
  shows "answers (\<lambda>(r, now). rq_peer r = rq_peer r0) ((r0, t0) # es)
      (fst (run_seq (\<lambda>(r, now). ngx_http_dmmr_rate_limit nx S (Some conf) (Some mc) now r) ((r0, t0) # es) (Some sh)))
    = quota (unat (conf_limit conf)) 0 (length (filter (\<lambda>(r, now). rq_peer r = rq_peer r0) ((r0, t0) # es)))"
proof -
  let ?f = "\<lambda>(r, now :: u64). (rq_peer r, now)"
  let ?locked = "\<lambda>(k, now). rate_locked nx S (conf_limit conf) (conf_window conf) k now"
  have len: "length (rq_peer r) \<le> 255" if "addr_ok nx r" for r
    using that assms(4) by (auto simp: ngx_api_ok_def addr_ok_def)
  have pos: "0 < conf_limit conf"
    by (simp add: conf_limit_def)
  let ?K = "(\<lambda>(r, now :: u64). rq_peer r) ` set ((r0, t0) # es)"
  have inv: "shm_ok S live \<and> slab_holds S live N \<and> rate_inv nx live sh \<and> zone_fits nx live N ?K sh"
    using assms(1-3,8) by blast
  have first: "length (rq_peer r0) \<le> 255 \<and> rq_peer r0 \<in> ?K"
    and rest: "\<forall>(k', now) \<in> set (map ?f es). (length k' \<le> 255 \<and> k' \<in> ?K) \<and> now - t0 \<le> conf_window conf"
    using assms(7) len by force+
  note main = limiter.run_admits [where nx = nx, OF inv assms(6) first pos rest]
  have run: "run_seq (\<lambda>(r, now). ngx_http_dmmr_rate_limit nx S (Some conf) (Some mc) now r) ((r0, t0) # es) (Some sh) =
      map_prod id Some (run_seq ?locked (map ?f ((r0, t0) # es)) sh)"
    by (rule run_seq_locked) (use assms(5,7) in auto)
  have zip: "answers (\<lambda>e. fst e = k) (map ?f xs) rcs = answers (\<lambda>(r, now). rq_peer r = k) xs rcs" for k xs rcs
    by (auto simp: answers_def zip_map1 filter_map comp_def case_prod_unfold)
  show ?thesis
    using main unfolding run zip [symmetric]
    by (simp add: comp_def case_prod_unfold filter_map id_def del: run_seq.simps)
qed

text \<open>A zone of 64 blocks, in which a block is a number above those in use, and a tree is rebuilt from its traversal.\<close>

fun spine :: "nat list \<Rightarrow> nat tree" where
  "spine [] = Leaf"
| "spine (a # as) = Node Leaf a (spine as)"

definition demo_shm :: "nat list shm_api" where
  "demo_shm = \<lparr>sp_alloc = (\<lambda>p. let a = Suc (foldr max p 0) in if card (set p) < 64 then (Some a, a # p) else (None, p)), sp_free = (\<lambda>a p. removeAll a p),
     rb_fix = (\<lambda>t. t), rb_delete = (\<lambda>a t. spine (remove1 a (inorder t)))\<rparr>"

lemma foldr_max_upper: "a \<in> set p \<Longrightarrow> a \<le> foldr max p (0 :: nat)"
  by (induction p) auto

lemma inorder_spine: "inorder (spine as) = as"
  by (induction as) auto

lemma demo_shm_ok: "shm_ok demo_shm set" "slab_holds demo_shm set 64"
  by (auto simp: shm_ok_def slab_holds_def demo_shm_def inorder_spine Let_def dest: foldr_max_upper split: if_splits)

definition demo_zone :: "nat list rate_sh" where
  "demo_zone = the (snd (ngx_http_dmmr_rate_zone_init demo_shm [] None))"

lemma demo_zone_inv: "rate_inv nx set demo_zone" "client nx demo_zone k = None"
proof -
  have "ngx_http_dmmr_rate_zone_init demo_shm [] None = (NGX_OK, Some demo_zone)"
    by (simp add: demo_zone_def ngx_http_dmmr_rate_zone_init_def demo_shm_def)
  then show "rate_inv nx set demo_zone" "client nx demo_zone k = None"
    by (rule rate_zone_init_inv)+
qed

lemma demo_zone_fits: "finite K \<Longrightarrow> card K \<le> 63 \<Longrightarrow> zone_fits nx set 64 K demo_zone"
  by (simp add: zone_fits_def dom_def demo_zone_inv(2)) (simp add: demo_zone_def ngx_http_dmmr_rate_zone_init_def demo_shm_def)

text \<open>
  All locations share the zone, but a request ages the queue with the window of its own location: a request of
  another client at a location with a short window ends the window a client has at this one, and the client
  is admitted again at once.
\<close>

definition slow_conf :: ngx_conf where
  "slow_conf = demo_conf\<lparr>nc_rate_limit := 1, nc_rate_window := 60000\<rparr>"

definition fast_conf :: ngx_conf where
  "fast_conf = demo_conf\<lparr>nc_rate_limit := 1, nc_rate_window := 2\<rparr>"

lemma limit_reset_by_other_location:
  "fst (run_seq (\<lambda>(conf, r, now). ngx_http_dmmr_rate_limit demo_api demo_shm (Some conf) (Some demo_conf) now r)
     [(slow_conf, demo_request, 5), (slow_conf, demo_request, 6),
      (fast_conf, demo_request\<lparr>rq_peer := cstr ''10.0.0.22''\<rparr>, 20), (slow_conf, demo_request, 30)] (Some demo_zone))
   = [NGX_OK, NGX_HTTP_TOO_MANY_REQUESTS, NGX_OK, NGX_OK]"
  by (simp add: slow_conf_def fast_conf_def demo_conf_def demo_request_def demo_zone_def demo_shm_def demo_api_def
      ngx_http_dmmr_rate_zone_init_def ngx_http_dmmr_rate_limit_def rate_locked_def rate_hit_def rate_alloc_def
      rate_add_def rate_drop_def key_cmp_def ngx_http_dmmr_rate_expire.simps Let_def)

theorem rate_limit_books_witness:
  "\<exists>sh'. ngx_http_dmmr_rate_limit demo_api demo_shm (Some demo_conf) (Some demo_conf) 5 demo_request (Some demo_zone) = (NGX_OK, Some sh')
    \<and> client demo_api sh' (rq_peer demo_request) = Some (5, 1)"
proof -
  obtain rc data where run: "ngx_http_dmmr_rate_limit demo_api demo_shm (Some demo_conf) (Some demo_conf) 5 demo_request
      (Some demo_zone) = (rc, data)" by fastforce
  have "nc_rate_zone demo_conf \<noteq> None" "addr_ok demo_api demo_request"
    by (simp_all add: demo_conf_def addr_ok_def demo_request_def demo_api_def)
  from rate_limit_books [OF demo_shm_ok(1) demo_zone_inv(1) demo_api_ok this run]
  show ?thesis
    using run zone_fits_not_full [OF demo_shm_ok demo_zone_inv(1) demo_zone_fits [of "{rq_peer demo_request}"]]
    by (auto simp: demo_zone_inv(2))
qed

theorem rate_limit_admits_witness:
  "\<exists>rc. fst (run_seq (\<lambda>(r, now). ngx_http_dmmr_rate_limit demo_api demo_shm (Some demo_conf) (Some demo_conf) now r)
     [(demo_request, 5), (demo_request, 6), (demo_request\<lparr>rq_peer := cstr ''10.0.0.22''\<rparr>, 7), (demo_request, 1000)] (Some demo_zone))
   = [NGX_OK, NGX_OK, rc, NGX_HTTP_TOO_MANY_REQUESTS]"
proof -
  let ?other = "demo_request\<lparr>rq_peer := cstr ''10.0.0.22''\<rparr>"
  let ?es = "[(demo_request, 6), (?other, 7), (demo_request, 1000)] :: (ngx_request \<times> u64) list"
  let ?rcs = "fst (run_seq (\<lambda>(r, now). ngx_http_dmmr_rate_limit demo_api demo_shm (Some demo_conf) (Some demo_conf) now r)
     ((demo_request, 5) # ?es) (Some demo_zone))"
  have zone: "nc_rate_zone demo_conf \<noteq> None"
    by (simp add: demo_conf_def)
  have ne: "rq_peer ?other \<noteq> rq_peer demo_request" by (simp add: demo_request_def)
  have "\<forall>(r, now) \<in> set ((demo_request, 5) # ?es). addr_ok demo_api r \<and> now - 5 \<le> conf_window demo_conf"
    by (simp add: demo_conf_def addr_ok_def demo_request_def demo_api_def conf_window_def)
  moreover have "zone_fits demo_api set 64 ((\<lambda>(r, now). rq_peer r) ` set ((demo_request, 5) # ?es)) demo_zone"
    by (rule demo_zone_fits) (simp_all add: card_insert_if)
  ultimately
  have "answers (\<lambda>(r, now). rq_peer r = rq_peer demo_request) ((demo_request, 5) # ?es) ?rcs
      = [NGX_OK, NGX_OK, NGX_HTTP_TOO_MANY_REQUESTS]"
    using rate_limit_admits [OF demo_shm_ok demo_zone_inv(1) demo_api_ok zone demo_zone_inv(2), of demo_request 5 ?es demo_conf] ne
    by (simp add: quota_def conf_limit_def demo_conf_def upt_rec)
  moreover have "length ?rcs = 4"
    by (auto split: prod.splits)
  then obtain a b c d where "?rcs = [a, b, c, d]"
    by (auto simp: length_Suc_conv numeral_eq_Suc)
  ultimately show ?thesis
    using ne by (simp add: answers_def)
qed

end
