(* ===== verification/Dmmr_Protocol.thy ===== *)
theory Dmmr_Protocol
  imports Dmmr_Prelude
begin

unbundle bit_operations_syntax

text \<open>
  \<open>dmmr_config.h\<close> (constants) and \<open>dmmr_protocol.h\<close>: opcodes, flags, the two frame structs with
  their memory images, the FNV-1a cluster identity, the stored record header and the 64-bit
  byte-order conversion.  A struct is a record together with \<open>_mem\<close>, its memory image with the
  padding the C ABI inserts, and \<open>_of_mem\<close>, the record a memory image denotes.
\<close>

section \<open>Constants\<close>

definition DMMR_MAGIC :: u16 where [const_defs]: "DMMR_MAGIC = 0xD4D4"
definition DMMR_VERSION :: u16 where [const_defs]: "DMMR_VERSION = 1"
definition DMMR_CLUSTER_VERSION :: u16 where [const_defs]: "DMMR_CLUSTER_VERSION = 3"

definition DMMR_PROTO_STATUS_OK :: u16 where [const_defs]: "DMMR_PROTO_STATUS_OK = 0"
definition DMMR_PROTO_STATUS_NOT_FOUND :: u16 where [const_defs]: "DMMR_PROTO_STATUS_NOT_FOUND = 1"
definition DMMR_PROTO_STATUS_ERROR :: u16 where [const_defs]: "DMMR_PROTO_STATUS_ERROR = 2"

definition QUEUE_MAX :: nat where [const_defs]: "QUEUE_MAX = 128"
definition MAX_KEY_LEN :: nat where [const_defs]: "MAX_KEY_LEN = 1024"
definition MAX_VALUE_LEN :: nat where [const_defs]: "MAX_VALUE_LEN = 1024 * 1024"
definition HIGH_WATERMARK :: nat where [const_defs]: "HIGH_WATERMARK = 50"
definition TTL_SCAN_CHUNK_SIZE :: nat where [const_defs]: "TTL_SCAN_CHUNK_SIZE = 100"
definition POOL_INITIAL_SIZE :: nat where [const_defs]: "POOL_INITIAL_SIZE = 0x400"

definition OP_GET :: u16 where [const_defs]: "OP_GET = 1"
definition OP_SET :: u16 where [const_defs]: "OP_SET = 2"
definition OP_DEL :: u16 where [const_defs]: "OP_DEL = 3"
definition OP_SYNC :: u16 where [const_defs]: "OP_SYNC = 4"
definition OP_CLUSTER_HELLO :: u16 where [const_defs]: "OP_CLUSTER_HELLO = 5"
definition OP_CLUSTER_PEER_LIST :: u16 where [const_defs]: "OP_CLUSTER_PEER_LIST = 6"
definition OP_CLUSTER_SYNC_REQUEST :: u16 where [const_defs]: "OP_CLUSTER_SYNC_REQUEST = 7"
definition OP_CLUSTER_SYNC_BEGIN :: u16 where [const_defs]: "OP_CLUSTER_SYNC_BEGIN = 8"
definition OP_CLUSTER_SYNC_END :: u16 where [const_defs]: "OP_CLUSTER_SYNC_END = 9"
definition OP_AUTH_REQUEST :: u16 where [const_defs]: "OP_AUTH_REQUEST = 13"
definition OP_AUTH_RESPONSE :: u16 where [const_defs]: "OP_AUTH_RESPONSE = 14"
definition OP_AUTH_OK :: u16 where [const_defs]: "OP_AUTH_OK = 15"

definition FLAG_NONE :: u16 where [const_defs]: "FLAG_NONE = 0"
definition FLAG_FROM_PEER :: u16 where [const_defs]: "FLAG_FROM_PEER = push_bit 0 1"
definition FLAG_TOMBSTONE :: u16 where [const_defs]: "FLAG_TOMBSTONE = push_bit 1 1"

definition DMMR_RECORD_TOMBSTONE :: u32 where [const_defs]: "DMMR_RECORD_TOMBSTONE = 0x80000000"
definition DMMR_RECORD_VALUE_LEN_MASK :: u32
  where [const_defs]: "DMMR_RECORD_VALUE_LEN_MASK = 0x7fffffff"

section \<open>64-bit byte order\<close>

text \<open>The union of \<open>htonll\<close>: on a little-endian host \<open>u32[0]\<close> is the low half.\<close>

definition htonll :: "u64 \<Rightarrow> u64" where
  "htonll value =
     (let u32_0 = ucast value :: u32;
          u32_1 = ucast (drop_bit 32 value) :: u32
      in push_bit 32 (ucast (htonl u32_0) :: u64) OR ucast (htonl u32_1))"

definition ntohll :: "u64 \<Rightarrow> u64" where
  "ntohll value = htonll value"

lemma htonll_bswap: "htonll v = bswap 8 v"
proof (rule bit_word_eqI)
  fix k assume "k < LENGTH(64)"
  then have k: "k < 64" by simp
  show "bit (htonll v) k \<longleftrightarrow> bit (bswap 8 v) k"
  proof (cases "k < 32")
    case True
    then have m: "k div 8 < 4" "k mod 8 < 8" by simp_all
    then have eq: "32 + (8 * (4 - Suc (k div 8)) + k mod 8) = 8 * (8 - Suc (k div 8)) + k mod 8"
      and lt: "8 * (4 - Suc (k div 8)) + k mod 8 < 32"
      by linarith+
    have "bit (htonll v) k \<longleftrightarrow> bit v (32 + (8 * (4 - Suc (k div 8)) + k mod 8))"
      using True lt
      by (simp add: htonll_def htonl_def Let_def bit_or_iff bit_push_bit_iff bit_ucast_iff
          bit_bswap bit_drop_bit_eq del: diff_Suc_Suc)
    then show ?thesis
      using k by (simp only: eq) (simp add: bit_bswap)
  next
    case False
    then obtain j where j: "k = 32 + j" "j < 32"
      using k by (metis add_less_cancel_left le_Suc_ex not_less numeral_Bit0)
    then have m: "j div 8 < 4" "j mod 8 < 8" "k div 8 = 4 + j div 8" "k mod 8 = j mod 8"
      by (simp_all, presburger)
    then have eq: "8 * (8 - Suc (k div 8)) + k mod 8 = 8 * (4 - Suc (j div 8)) + j mod 8"
      and lt: "8 * (4 - Suc (j div 8)) + j mod 8 < 32"
      by linarith+
    have "\<not> bit (ucast (htonl (ucast (drop_bit 32 v) :: u32)) :: u64) k"
      using False by (simp add: bit_ucast_iff impossible_bit)
    then have "bit (htonll v) k \<longleftrightarrow> bit v (8 * (4 - Suc (j div 8)) + j mod 8)"
      using j lt
      by (simp add: htonll_def htonl_def Let_def bit_or_iff bit_push_bit_iff bit_ucast_iff
          bit_bswap del: diff_Suc_Suc)
    moreover have "bit (bswap 8 v) k \<longleftrightarrow> bit v (8 * (8 - Suc (k div 8)) + k mod 8)"
      using k by (simp add: bit_bswap del: diff_Suc_Suc)
    ultimately show ?thesis by (simp only: eq)
  qed
qed

lemma htonll_wire [codec_simps]: "le_bytes 8 (htonll v) = be_bytes 8 v"
  by (simp add: htonll_bswap le_bytes_bswap)

lemma ntohll_wire [codec_simps]: "length bs = 8 \<Longrightarrow> ntohll (of_le bs) = of_be bs"
  by (simp add: ntohll_def htonll_bswap bswap_of_le)

lemma ntohll_htonll [codec_simps]: "ntohll (htonll v) = v"
  by (simp add: ntohll_def htonll_bswap bswap_bswap)

lemma ntohs_htons [codec_simps]: "ntohs (htons a) = a"
  by (simp add: ntohs_def htons_def bswap_bswap)

lemma ntohl_htonl [codec_simps]: "ntohl (htonl a) = a"
  by (simp add: ntohl_def htonl_def bswap_bswap)

section \<open>FNV-1a\<close>

definition dmmr_fnv1a_32 :: "bytes \<Rightarrow> u32" where
  "dmmr_fnv1a_32 name = foldl (\<lambda>hash b. (hash XOR ucast b) * 16777619) 2166136261 name"

section \<open>The version-1 frame header\<close>

record dmmr_frame =
  f_magic :: u16
  f_version :: u16
  f_opcode :: u16
  f_flags :: u16
  f_key_len :: u32
  f_value_len :: u32
  f_timestamp :: u64

definition frame_size :: nat where "frame_size = 24"

definition frame_mem :: "dmmr_frame \<Rightarrow> bytes" where
  "frame_mem f = le_bytes 2 (f_magic f) @ le_bytes 2 (f_version f) @ le_bytes 2 (f_opcode f) @
     le_bytes 2 (f_flags f) @ le_bytes 4 (f_key_len f) @ le_bytes 4 (f_value_len f) @
     le_bytes 8 (f_timestamp f)"

definition frame_of_mem :: "bytes \<Rightarrow> dmmr_frame" where
  "frame_of_mem bs = \<lparr>f_magic = of_le (sub 0 2 bs), f_version = of_le (sub 2 2 bs),
     f_opcode = of_le (sub 4 2 bs), f_flags = of_le (sub 6 2 bs),
     f_key_len = of_le (sub 8 4 bs), f_value_len = of_le (sub 12 4 bs),
     f_timestamp = of_le (sub 16 8 bs)\<rparr>"

definition frame_ntoh :: "dmmr_frame \<Rightarrow> dmmr_frame" where
  "frame_ntoh f = \<lparr>f_magic = ntohs (f_magic f), f_version = ntohs (f_version f),
     f_opcode = ntohs (f_opcode f), f_flags = ntohs (f_flags f),
     f_key_len = ntohl (f_key_len f), f_value_len = ntohl (f_value_len f),
     f_timestamp = ntohll (f_timestamp f)\<rparr>"

text \<open>The documented wire format: every field in network byte order, no padding.\<close>

definition frame_wire :: "dmmr_frame \<Rightarrow> bytes" where
  "frame_wire f = be_bytes 2 (f_magic f) @ be_bytes 2 (f_version f) @ be_bytes 2 (f_opcode f) @
     be_bytes 2 (f_flags f) @ be_bytes 4 (f_key_len f) @ be_bytes 4 (f_value_len f) @
     be_bytes 8 (f_timestamp f)"

lemma length_frame_wire [simp]: "length (frame_wire f) = frame_size"
  by (simp add: frame_wire_def frame_size_def)

lemma frame_of_mem_wire: "frame_ntoh (frame_of_mem (frame_wire f)) = f"
  by (simp add: frame_ntoh_def frame_of_mem_def frame_wire_def sub_append_skip sub_0_all codec_simps)

interpretation frame_codec: byte_codec frame_size frame_wire "\<lambda>bs. frame_ntoh (frame_of_mem bs)"
  by unfold_locales (simp_all add: frame_of_mem_wire)

section \<open>The version-3 cluster frame header\<close>

record dmmr_cluster_frame =
  cf_magic :: u16
  cf_version :: u16
  cf_opcode :: u16
  cf_flags :: u16
  cf_key_len :: u32
  cf_value_len :: u32
  cf_timestamp :: u64
  cf_node_id :: u64
  cf_expire_at :: u64
  cf_cluster_id :: u32

text \<open>44 bytes of fields, padded to a multiple of the 8-byte alignment of \<open>uint64_t\<close>.\<close>

definition cluster_frame_size :: nat where "cluster_frame_size = 48"

definition cluster_frame_mem :: "dmmr_cluster_frame \<Rightarrow> bytes" where
  "cluster_frame_mem f = le_bytes 2 (cf_magic f) @ le_bytes 2 (cf_version f) @
     le_bytes 2 (cf_opcode f) @ le_bytes 2 (cf_flags f) @ le_bytes 4 (cf_key_len f) @
     le_bytes 4 (cf_value_len f) @ le_bytes 8 (cf_timestamp f) @ le_bytes 8 (cf_node_id f) @
     le_bytes 8 (cf_expire_at f) @ le_bytes 4 (cf_cluster_id f) @ replicate 4 0"

definition cluster_frame_of_mem :: "bytes \<Rightarrow> dmmr_cluster_frame" where
  "cluster_frame_of_mem bs = \<lparr>cf_magic = of_le (sub 0 2 bs), cf_version = of_le (sub 2 2 bs),
     cf_opcode = of_le (sub 4 2 bs), cf_flags = of_le (sub 6 2 bs),
     cf_key_len = of_le (sub 8 4 bs), cf_value_len = of_le (sub 12 4 bs),
     cf_timestamp = of_le (sub 16 8 bs), cf_node_id = of_le (sub 24 8 bs),
     cf_expire_at = of_le (sub 32 8 bs), cf_cluster_id = of_le (sub 40 4 bs)\<rparr>"

definition cluster_frame_ntoh :: "dmmr_cluster_frame \<Rightarrow> dmmr_cluster_frame" where
  "cluster_frame_ntoh f = \<lparr>cf_magic = ntohs (cf_magic f), cf_version = ntohs (cf_version f),
     cf_opcode = ntohs (cf_opcode f), cf_flags = ntohs (cf_flags f),
     cf_key_len = ntohl (cf_key_len f), cf_value_len = ntohl (cf_value_len f),
     cf_timestamp = ntohll (cf_timestamp f), cf_node_id = ntohll (cf_node_id f),
     cf_expire_at = ntohll (cf_expire_at f), cf_cluster_id = ntohl (cf_cluster_id f)\<rparr>"

definition cluster_frame_hton :: "dmmr_cluster_frame \<Rightarrow> dmmr_cluster_frame" where
  "cluster_frame_hton f = \<lparr>cf_magic = htons (cf_magic f), cf_version = htons (cf_version f),
     cf_opcode = htons (cf_opcode f), cf_flags = htons (cf_flags f),
     cf_key_len = htonl (cf_key_len f), cf_value_len = htonl (cf_value_len f),
     cf_timestamp = htonll (cf_timestamp f), cf_node_id = htonll (cf_node_id f),
     cf_expire_at = htonll (cf_expire_at f), cf_cluster_id = htonl (cf_cluster_id f)\<rparr>"

lemma length_cluster_frame_mem [simp]: "length (cluster_frame_mem f) = cluster_frame_size"
  by (simp add: cluster_frame_mem_def cluster_frame_size_def)

lemma cluster_frame_of_mem_mem [codec_simps]: "cluster_frame_of_mem (cluster_frame_mem f) = f"
  by (simp add: cluster_frame_of_mem_def cluster_frame_mem_def sub_append_skip sub_0_all codec_simps)

lemma cluster_frame_ntoh_hton [codec_simps]: "cluster_frame_ntoh (cluster_frame_hton f) = f"
  by (simp add: cluster_frame_ntoh_def cluster_frame_hton_def codec_simps)

interpretation cluster_codec: byte_codec cluster_frame_size
  "\<lambda>f. cluster_frame_mem (cluster_frame_hton f)"
  "\<lambda>bs. cluster_frame_ntoh (cluster_frame_of_mem bs)"
  by unfold_locales (simp_all add: codec_simps)

section \<open>The stored record header\<close>

record cache_entry =
  ce_timestamp :: u64
  ce_node_id :: u64
  ce_value_len :: u32
  ce_expire_at :: u64

definition entry_size :: nat where [const_defs]: "entry_size = 32"

definition entry_mem :: "cache_entry \<Rightarrow> bytes" where
  "entry_mem e = le_bytes 8 (ce_timestamp e) @ le_bytes 8 (ce_node_id e) @
     le_bytes 4 (ce_value_len e) @ replicate 4 0 @ le_bytes 8 (ce_expire_at e)"

definition entry_of_mem :: "bytes \<Rightarrow> cache_entry" where
  "entry_of_mem bs = \<lparr>ce_timestamp = of_le (sub 0 8 bs), ce_node_id = of_le (sub 8 8 bs),
     ce_value_len = of_le (sub 16 4 bs), ce_expire_at = of_le (sub 24 8 bs)\<rparr>"

lemma length_entry_mem [simp]: "length (entry_mem e) = entry_size"
  by (simp add: entry_mem_def entry_size_def)

lemma entry_of_mem_mem [codec_simps]: "entry_of_mem (entry_mem e @ v) = e"
  by (simp add: entry_of_mem_def entry_mem_def sub_append_skip sub_0_all codec_simps)

interpretation entry_codec: byte_codec entry_size entry_mem entry_of_mem
  using entry_of_mem_mem [of _ "[]"] by unfold_locales simp_all

definition dmmr_record_is_tombstone :: "cache_entry \<Rightarrow> bool" where
  "dmmr_record_is_tombstone e \<longleftrightarrow> (ce_value_len e AND DMMR_RECORD_TOMBSTONE) \<noteq> 0"

definition dmmr_record_value_len :: "cache_entry \<Rightarrow> u32" where
  "dmmr_record_value_len e = ce_value_len e AND DMMR_RECORD_VALUE_LEN_MASK"

lemma tombstone_header:
  "ce_value_len e = DMMR_RECORD_TOMBSTONE \<Longrightarrow>
     dmmr_record_is_tombstone e \<and> dmmr_record_value_len e = 0"
  by (simp add: dmmr_record_is_tombstone_def dmmr_record_value_len_def const_defs)

lemma mask31: "DMMR_RECORD_VALUE_LEN_MASK = mask 31"
  by (simp add: const_defs mask_eq_exp_minus_1)

lemma live_header:
  assumes "ce_value_len e = of_nat n" and "n < 2 ^ 31"
  shows "\<not> dmmr_record_is_tombstone e" and "unat (dmmr_record_value_len e) = n"
proof -
  have "\<not> bit n 31" using assms(2) by (simp add: bit_iff_odd)
  moreover have "unat (of_nat n :: u32) = n"
    using assms(2) by (simp add: unsigned_of_nat take_bit_eq_mod)
  ultimately have "\<not> bit (of_nat n :: u32) 31"
    using bit_unsigned_iff [where ?'a = nat, of "of_nat n :: u32" 31] by simp
  then have "(of_nat n :: u32) AND 2 ^ 31 = 0" by (simp only: and_exp_eq_0_iff_not_bit) simp
  then show "\<not> dmmr_record_is_tombstone e"
    using assms(1) by (simp add: dmmr_record_is_tombstone_def const_defs)
  show "unat (dmmr_record_value_len e) = n"
    using assms by (simp add: dmmr_record_value_len_def mask31 take_bit_eq_mask [symmetric]
        unsigned_take_bit_eq unsigned_of_nat take_bit_take_bit) (simp add: take_bit_eq_mod)
qed

end
