(* ===== verification/Dmmr_Net.thy ===== *)
theory Dmmr_Net
  imports Dmmr_Prelude
begin

text \<open>
  \<open>dmmr_net.c\<close>: the retry loops around \<open>recv\<close> and \<open>send\<close>.

  The kernel side of a connection is the list of the outcomes its next calls will have: a
  segment of data, end of stream, an interrupted call, an error (a timeout or a reset); an empty
  list is a peer that stays silent, so that a call blocks for ever.  The loops are functions over
  that list; \<open>None\<close> is "does not return".
\<close>

section \<open>A connected socket\<close>

datatype rx_event = RxData bytes | RxEof | RxIntr | RxError

datatype tx_event = TxTake nat | TxIntr | TxError

record sock =
  s_rx :: "rx_event list"
  s_tx :: "tx_event list"
  s_errno_eintr :: bool
  s_out :: bytes
  s_open :: bool

datatype rx_result = RxRet bytes | RxFail bool | RxBlock

fun recv :: "nat \<Rightarrow> rx_event list \<Rightarrow> rx_result \<times> rx_event list" where
  "recv want [] = (RxBlock, [])"
| "recv want (RxData bs # evs) =
     (RxRet (take want bs), if want < length bs then RxData (drop want bs) # evs else evs)"
| "recv want (RxEof # evs) = (RxRet [], RxEof # evs)"
| "recv want (RxIntr # evs) = (RxFail True, evs)"
| "recv want (RxError # evs) = (RxFail False, evs)"

section \<open>recv_full\<close>

lemma recv_fail_shrinks: "(RxFail eintr, evs') = recv want evs \<Longrightarrow> length evs' < length evs"
  by (cases "(want, evs)" rule: recv.cases) auto

function recv_full_loop :: "nat \<Rightarrow> bytes \<Rightarrow> rx_event list \<Rightarrow> (int \<times> bytes \<times> rx_event list) option" where
  "recv_full_loop len buf evs =
     (if length buf < len then
        (case recv (len - length buf) evs of
           (RxBlock, _) \<Rightarrow> None
         | (RxRet bs, evs') \<Rightarrow>
             if bs = [] then Some (int (length buf), buf, evs')
             else recv_full_loop len (buf @ bs) evs'
         | (RxFail eintr, evs') \<Rightarrow>
             if eintr then recv_full_loop len buf evs' else Some (- 1, buf, evs'))
      else Some (int (length buf), buf, evs))"
  by pat_completeness auto
termination
  by (relation "measures [\<lambda>(len, buf, evs). len - length buf, \<lambda>(len, buf, evs). length evs]")
    (auto dest: recv_fail_shrinks simp: neq_Nil_conv)

declare recv_full_loop.simps [simp del]

definition recv_full :: "nat \<Rightarrow> sock \<Rightarrow> ((int \<times> bytes) \<times> sock) option" where
  "recv_full len s =
     (case recv_full_loop len [] (s_rx s) of
        None \<Rightarrow> None
      | Some (n, buf, evs) \<Rightarrow> Some ((n, buf), s\<lparr>s_rx := evs\<rparr>))"

text \<open>What a receiver can read before the stream ends, and how it ends.\<close>

datatype rx_end = EndBlock | EndEof | EndError

fun stream_of :: "rx_event list \<Rightarrow> bytes" where
  "stream_of (RxData bs # evs) = (if bs = [] then [] else bs @ stream_of evs)"
| "stream_of (RxIntr # evs) = stream_of evs"
| "stream_of _ = []"

fun stream_end :: "rx_event list \<Rightarrow> rx_end" where
  "stream_end (RxData bs # evs) = (if bs = [] then EndEof else stream_end evs)"
| "stream_end (RxIntr # evs) = stream_end evs"
| "stream_end (RxEof # evs) = EndEof"
| "stream_end (RxError # evs) = EndError"
| "stream_end [] = EndBlock"

lemma recv_stream:
  assumes "0 < want"
  shows "case recv want evs of
      (RxBlock, evs') \<Rightarrow> stream_of evs = [] \<and> stream_end evs = EndBlock
    | (RxRet bs, evs') \<Rightarrow>
        if bs = [] then stream_of evs = [] \<and> stream_end evs = EndEof
        else length bs \<le> want \<and> stream_of evs = bs @ stream_of evs' \<and> stream_end evs' = stream_end evs
    | (RxFail eintr, evs') \<Rightarrow>
        if eintr then stream_of evs' = stream_of evs \<and> stream_end evs' = stream_end evs
        else stream_of evs = [] \<and> stream_end evs = EndError"
  using assms by (cases "(want, evs)" rule: recv.cases) auto

text \<open>
  The abstract read: how a read of \<open>len\<close> bytes ends depends on the bytes of the stream and on its
  end, not on how the network cut it into segments nor on interrupted calls.
\<close>

definition recv_outcome :: "nat \<Rightarrow> bytes \<Rightarrow> rx_end \<Rightarrow> (int \<times> bytes) option" where
  "recv_outcome len st e =
     (if len \<le> length st then Some (int len, take len st)
      else case e of EndBlock \<Rightarrow> None | EndEof \<Rightarrow> Some (int (length st), st) | EndError \<Rightarrow> Some (- 1, st))"

lemma recv_full_loop_outcome:
  assumes "length buf \<le> len"
  shows "map_option (\<lambda>(n, b, _). (n, b)) (recv_full_loop len buf evs)
      = recv_outcome len (buf @ stream_of evs) (stream_end evs)"
  using assms
proof (induction len buf evs rule: recv_full_loop.induct)
  case (1 len buf evs)
  show ?case
  proof (cases "length buf < len")
    case False
    then show ?thesis
      using "1.prems" by (simp add: recv_full_loop.simps [of len buf evs] recv_outcome_def)
  next
    case True
    obtain r evs' where r: "recv (len - length buf) evs = (r, evs')" by fastforce
    then show ?thesis
      using True recv_stream [of "len - length buf" evs] "1.IH"(1) [OF True r [symmetric]]
        "1.IH"(2) [OF True r [symmetric]] "1.prems"
      by (cases r)
        (auto simp: recv_full_loop.simps [of len buf evs] recv_outcome_def split: rx_end.splits)
  qed
qed

lemma recv_full_loop_rest:
  assumes "recv_full_loop len buf evs = Some (int len, b, evs')" and "length buf \<le> len"
  shows "b @ stream_of evs' = buf @ stream_of evs \<and> stream_end evs' = stream_end evs"
  using assms
proof (induction len buf evs rule: recv_full_loop.induct)
  case (1 len buf evs)
  show ?case
  proof (cases "length buf < len")
    case False
    then show ?thesis
      using "1.prems" by (simp add: recv_full_loop.simps [of len buf evs])
  next
    case True
    obtain r evs'' where r: "recv (len - length buf) evs = (r, evs'')" by fastforce
    then show ?thesis
      using True recv_stream [of "len - length buf" evs] "1.IH"(1) [OF True r [symmetric]]
        "1.IH"(2) [OF True r [symmetric]] "1.prems"
      by (cases r) (auto simp: recv_full_loop.simps [of len buf evs] split: if_splits)
  qed
qed

lemma recv_full_outcome:
  "map_option fst (recv_full len s) = recv_outcome len (stream_of (s_rx s)) (stream_end (s_rx s))"
  using recv_full_loop_outcome [of "[]" len "s_rx s"]
  by (auto simp: recv_full_def option.map_comp split: option.splits)

lemma recv_full_enough:
  assumes "len \<le> length (stream_of (s_rx s))"
  obtains evs' where
    "recv_full len s = Some ((int len, take len (stream_of (s_rx s))), s\<lparr>s_rx := evs'\<rparr>)"
    "stream_of evs' = drop len (stream_of (s_rx s))"
    "stream_end evs' = stream_end (s_rx s)"
proof -
  have "map_option (\<lambda>(n, b, _). (n, b)) (recv_full_loop len [] (s_rx s))
      = Some (int len, take len (stream_of (s_rx s)))"
    using recv_full_loop_outcome [of "[]" len "s_rx s"] assms by (simp add: recv_outcome_def)
  then obtain evs' where l: "recv_full_loop len [] (s_rx s)
      = Some (int len, take len (stream_of (s_rx s)), evs')"
    by auto
  with recv_full_loop_rest [OF l] have "take len (stream_of (s_rx s)) @ stream_of evs' = stream_of (s_rx s)"
    and e: "stream_end evs' = stream_end (s_rx s)"
    by simp_all
  then have "stream_of evs' = drop len (stream_of (s_rx s))"
    by (metis append_take_drop_id same_append_eq)
  then show ?thesis using that l e by (simp add: recv_full_def)
qed

lemma recv_full_short:
  assumes "length (stream_of (s_rx s)) < len" and "recv_full len s = Some ((n, b), s')"
  shows "n \<noteq> int len"
  using recv_full_outcome [of len s] assms
  by (auto simp: recv_outcome_def split: rx_end.splits)

lemma recv_full_exact_iff:
  assumes "recv_full len s = Some ((n, b), s')"
  shows "n = int len \<longleftrightarrow> len \<le> length (stream_of (s_rx s))"
  using recv_full_enough [of len s] recv_full_short [of s len n b s'] assms
  by (metis fst_conv not_le option.inject)

section \<open>send_full\<close>

text \<open>A call that takes no byte (\<open>n = 0\<close>) does not set \<open>errno\<close>, so the loop then looks at the value an
  earlier call left there.\<close>

fun send_full_loop :: "bytes \<Rightarrow> bool \<Rightarrow> bytes \<Rightarrow> tx_event list \<Rightarrow> (bool \<times> bool \<times> bytes \<times> tx_event list) option" where
  "send_full_loop [] eintr out evs = Some (True, eintr, out, evs)"
| "send_full_loop buf eintr out [] = None"
| "send_full_loop buf eintr out (TxTake n # evs) =
     (if n = 0 then
        (if eintr then send_full_loop buf eintr out evs else Some (False, eintr, out, evs))
      else send_full_loop (drop n buf) eintr (out @ take n buf) evs)"
| "send_full_loop buf eintr out (TxIntr # evs) = send_full_loop buf True out evs"
| "send_full_loop buf eintr out (TxError # evs) = Some (False, False, out, evs)"

definition send_full :: "bytes \<Rightarrow> sock \<Rightarrow> (int \<times> sock) option" where
  "send_full buf s =
     (case send_full_loop buf (s_errno_eintr s) (s_out s) (s_tx s) of
        None \<Rightarrow> None
      | Some (ok, eintr, out, evs) \<Rightarrow>
          Some (if ok then int (length buf) else - 1,
                s\<lparr>s_tx := evs, s_errno_eintr := eintr, s_out := out\<rparr>))"

lemma send_full_loop_prefix:
  assumes "send_full_loop buf eintr out evs = Some (ok, eintr', out', evs')"
  shows "\<exists>sent rest. buf = sent @ rest \<and> out' = out @ sent \<and> (ok \<longleftrightarrow> rest = [])"
  using assms
proof (induction buf eintr out evs arbitrary: rule: send_full_loop.induct)
  case (3 b bs eintr out n evs)
  show ?case
  proof (cases "n = 0")
    case True
    with "3.prems" "3.IH"(1) show ?thesis by (cases eintr) auto
  next
    case False
    with "3.prems" "3.IH"(2) obtain sent rest where
      "drop n (b # bs) = sent @ rest" "out' = (out @ take n (b # bs)) @ sent" "ok \<longleftrightarrow> rest = []"
      by auto
    then have "b # bs = (take n (b # bs) @ sent) @ rest"
      "out' = out @ (take n (b # bs) @ sent)" "ok \<longleftrightarrow> rest = []"
      by (metis append.assoc append_take_drop_id)+
    then show ?thesis by blast
  qed
qed auto

text \<open>A peer that keeps reading: every call takes at least one byte or is interrupted, and there
  are enough of them.\<close>

definition tx_live :: "nat \<Rightarrow> tx_event list \<Rightarrow> bool" where
  "tx_live n evs \<longleftrightarrow> n \<le> length (filter (\<lambda>e. e \<noteq> TxIntr) evs)
     \<and> (\<forall>e \<in> set evs. case e of TxTake k \<Rightarrow> 0 < k | TxIntr \<Rightarrow> True | TxError \<Rightarrow> False)"

lemma send_full_loop_live:
  assumes "tx_live (length buf + k) evs"
  shows "\<exists>eintr' evs'. send_full_loop buf eintr out evs = Some (True, eintr', out @ buf, evs') \<and> tx_live k evs'"
  using assms
proof (induction buf eintr out evs rule: send_full_loop.induct)
  case (3 b bs eintr out n evs)
  then have "n \<noteq> 0" and "tx_live (length (drop n (b # bs)) + k) evs"
    by (auto simp: tx_live_def)
  with "3.IH"(2) show ?case by (cases n) auto
qed (auto simp: tx_live_def)

lemma send_full_live:
  assumes "tx_live (length buf + k) (s_tx s)"
  shows "\<exists>evs' eintr'. send_full buf s = Some (int (length buf),
      s\<lparr>s_tx := evs', s_errno_eintr := eintr', s_out := s_out s @ buf\<rparr>) \<and> tx_live k evs'"
proof -
  obtain eintr' evs' where "send_full_loop buf (s_errno_eintr s) (s_out s) (s_tx s)
      = Some (True, eintr', s_out s @ buf, evs')" "tx_live k evs'"
    using send_full_loop_live [OF assms] by blast
  then show ?thesis by (intro exI [of _ evs'] exI [of _ eintr']) (simp add: send_full_def)
qed

lemma send_full_rx: "send_full buf s = Some (n, s') \<Longrightarrow> s_rx s' = s_rx s \<and> s_open s' = s_open s"
  by (auto simp: send_full_def split: option.splits)

text \<open>Every successful read takes something off the connection: the measure of the loops that read
  one message after the other.\<close>

definition rx_measure :: "rx_event list \<Rightarrow> nat" where
  "rx_measure evs = sum_list (map (\<lambda>e. case e of RxData bs \<Rightarrow> Suc (length bs) | _ \<Rightarrow> 1) evs)"

lemma recv_measure:
  assumes "recv want evs = (r, evs')"
  shows "rx_measure evs' + (case r of RxRet bs \<Rightarrow> length bs | _ \<Rightarrow> 0) \<le> rx_measure evs"
    and "r = RxRet bs \<Longrightarrow> length bs \<le> want"
  using assms by (cases "(want, evs)" rule: recv.cases; auto simp: rx_measure_def split: if_splits)+

lemma recv_full_loop_measure:
  assumes "recv_full_loop len buf evs = Some (n, b, evs')" and "length buf \<le> len"
  shows "length buf \<le> length b \<and> length b \<le> len \<and> n \<le> int (length b)
    \<and> rx_measure evs' + length b \<le> rx_measure evs + length buf"
  using assms
proof (induction len buf evs rule: recv_full_loop.induct)
  case (1 len buf evs)
  show ?case
  proof (cases "length buf < len")
    case False
    then show ?thesis using "1.prems" by (simp add: recv_full_loop.simps [of len buf evs])
  next
    case True
    obtain r evs1 where r: "recv (len - length buf) evs = (r, evs1)" by fastforce
    note m = recv_measure [OF r] and ih = "1.IH" [OF True r [symmetric]]
    show ?thesis
    proof (cases r)
      case (RxRet bs)
      show ?thesis
      proof (cases "bs = []")
        case True
        with RxRet r m(1) "1.prems" show ?thesis
          by (auto simp: recv_full_loop.simps [of len buf evs] split: if_splits)
      next
        case False
        with RxRet r \<open>length buf < len\<close> "1.prems" have "recv_full_loop len (buf @ bs) evs1 = Some (n, b, evs')"
          by (simp add: recv_full_loop.simps [of len buf evs])
        moreover have "length (buf @ bs) \<le> len" using m(2) RxRet \<open>length buf < len\<close> by simp
        ultimately show ?thesis using ih(1) [OF RxRet False] m(1) RxRet by simp
      qed
    next
      case (RxFail eintr)
      with r m(1) ih(2) [OF RxFail] True "1.prems" show ?thesis
        by (cases eintr) (simp_all add: recv_full_loop.simps [of len buf evs])
    next
      case RxBlock
      with r True "1.prems" show ?thesis by (simp add: recv_full_loop.simps [of len buf evs])
    qed
  qed
qed

lemma recv_full_measure:
  assumes "recv_full len s = Some ((n, b), s')"
  shows "rx_measure (s_rx s') + length b \<le> rx_measure (s_rx s)"
    and "length b \<le> len" and "n \<le> int (length b)"
    and "n = int len \<Longrightarrow> length b = len"
    and "s_tx s' = s_tx s \<and> s_out s' = s_out s \<and> s_open s' = s_open s"
  using assms recv_full_loop_measure [of len "[]" "s_rx s" n b "s_rx s'"]
  by (auto simp: recv_full_def split: option.splits)

lemma send_full_ok:
  assumes "send_full buf s = Some (n, s')"
  shows "n = int (length buf) \<and> s_out s' = s_out s @ buf
      \<or> n = - 1 \<and> (\<exists>sent rest. buf = sent @ rest \<and> rest \<noteq> [] \<and> s_out s' = s_out s @ sent)"
  using assms send_full_loop_prefix [of buf "s_errno_eintr s" "s_out s" "s_tx s"]
  by (fastforce simp: send_full_def split: option.splits if_splits)

section \<open>Properties\<close>

text \<open>
  C18: \<open>recv_full\<close> does not depend on segmentation.  Its result is that of the abstract read of the
  byte stream: all bytes if the stream is long enough, else the short count at end of stream, \<open>-1\<close>
  on an error, or it blocks; and when it delivers all bytes the stream goes on with the byte after
  the last one delivered, so that no byte is lost or read twice.
\<close>

theorem recv_full_segmentation:
  "map_option fst (recv_full len s) = recv_outcome len (stream_of (s_rx s)) (stream_end (s_rx s))
   \<and> (len \<le> length (stream_of (s_rx s)) \<longrightarrow>
        (\<exists>s'. recv_full len s = Some ((int len, take len (stream_of (s_rx s))), s')
            \<and> stream_of (s_rx s') = drop len (stream_of (s_rx s))))"
  using recv_full_outcome recv_full_enough [of len s] by fastforce

definition demo_sock :: sock where
  "demo_sock = \<lparr>s_rx = [RxData [1, 2], RxIntr, RxData [3, 4, 5], RxEof], s_tx = [TxTake 1, TxIntr, TxTake 5],
     s_errno_eintr = False, s_out = [], s_open = True\<rparr>"

theorem recv_full_segmentation_witness:
  "\<exists>s'. recv_full 3 demo_sock = Some ((3, [1, 2, 3]), s') \<and> stream_of (s_rx s') = [4, 5]"
  using recv_full_segmentation [of 3 demo_sock] by (simp add: demo_sock_def)

text \<open>
  \<open>send_full\<close> on a peer that keeps reading returns, reports the whole length and has put exactly
  the bytes of the buffer on the connection; and whenever it reports the whole length, it did.
\<close>

theorem send_full_delivers:
  "(tx_live (length buf) (s_tx s) \<longrightarrow>
      (\<exists>s'. send_full buf s = Some (int (length buf), s') \<and> s_out s' = s_out s @ buf))
   \<and> (\<forall>s'. send_full buf s = Some (int (length buf), s') \<longrightarrow> s_out s' = s_out s @ buf)"
proof (intro conjI impI allI)
  assume "tx_live (length buf) (s_tx s)"
  with send_full_live [of buf 0 s] show
    "\<exists>s'. send_full buf s = Some (int (length buf), s') \<and> s_out s' = s_out s @ buf"
    by fastforce
next
  fix s' assume "send_full buf s = Some (int (length buf), s')"
  from send_full_ok [OF this] show "s_out s' = s_out s @ buf" by auto
qed

theorem send_full_delivers_witness:
  "\<exists>s'. send_full [7, 8] demo_sock = Some (2, s') \<and> s_out s' = [7, 8]"
  using send_full_delivers [of "[7, 8]" demo_sock] by (simp add: demo_sock_def tx_live_def)

end
