(* ===== verification/Ngx_Auth.thy ===== *)
theory Ngx_Auth
  imports Ngx_Core Dmmr_Protocol Dmmr_Net
begin

text \<open>
  Authentication (\<open>ngx_http_dmmr_auth.c\<close>): finding the credential of a request, the connection to the cache
  daemon, the GET it is asked with, and the decision.

  The connections the module opens carry a send and a receive timeout of one second, so a peer that stays silent
  is an error of the call and every call returns.  What the successive attempts to connect meet is the stream
  \<open>ax_net\<close>; the sockets that were closed are kept in \<open>ax_done\<close>, with what was written to them.
\<close>

section \<open>Credentials\<close>

fun get_header_loop :: "ngx_api \<Rightarrow> bytes \<Rightarrow> (bytes \<times> bytes) list \<Rightarrow> bytes option" where
  "get_header_loop nx name [] = None"
| "get_header_loop nx name ((key, v) # hs) =
     (if length key = length name \<and> nx_strncasecmp nx key name (length name) then Some v
      else get_header_loop nx name hs)"

text \<open>The parts of the header list are searched one after the other.\<close>

fun ngx_http_dmmr_get_header_value :: "ngx_api \<Rightarrow> (bytes \<times> bytes) list list \<Rightarrow> bytes \<Rightarrow> bytes option" where
  "ngx_http_dmmr_get_header_value nx [] name = None"
| "ngx_http_dmmr_get_header_value nx (part # parts) name =
     (case get_header_loop nx name part of
        Some v \<Rightarrow> Some v
      | None \<Rightarrow> ngx_http_dmmr_get_header_value nx parts name)"

text \<open>\<open>strstr\<close>: the offset of the first occurrence in a C string.\<close>

fun strstr :: "bytes \<Rightarrow> bytes \<Rightarrow> nat option" where
  "strstr needle [] = (if needle = [] then Some 0 else None)"
| "strstr needle (b # bs) = (if prefix needle (b # bs) then Some 0 else map_option Suc (strstr needle bs))"

definition query_credential :: "bytes \<Rightarrow> bytes option" where
  "query_credential mem =
     (case (case strstr (cstr ''apikey='') mem of None \<Rightarrow> strstr (cstr ''token='') mem | Some i \<Rightarrow> Some i) of
        None \<Rightarrow> None
      | Some i \<Rightarrow>
          let p = drop i mem; p' = drop (if hd p = of_char CHR ''a'' then 7 else 6) p in
          Some (takeWhile (\<lambda>c. c \<noteq> of_char CHR ''&'') p'))"

definition ngx_http_dmmr_extract_credential :: "ngx_api \<Rightarrow> ngx_request \<Rightarrow> bytes option" where
  "ngx_http_dmmr_extract_credential nx r =
     (let header = ngx_http_dmmr_get_header_value nx (rq_headers r);
          auth = header (cstr ''authorization'');
          value_of = (\<lambda>h. case h of None \<Rightarrow> [] | Some v \<Rightarrow> v);
          a = value_of auth in
      if length a > 7 \<and> nx_strncasecmp nx a (cstr ''Bearer '') 7 then Some (drop 7 a)
      else if length a > 6 \<and> nx_strncasecmp nx a (cstr ''Token '') 6 then Some (drop 6 a)
      else if value_of (header (cstr ''x-api-key'')) \<noteq> [] then header (cstr ''x-api-key'')
      else if value_of (header (cstr ''apikey'')) \<noteq> [] then header (cstr ''apikey'')
      else if rq_args_len r > 0 then query_credential (rq_args_mem r)
      else None)"

section \<open>The connection to the daemon\<close>

definition DMMR_PROTO_OP_GET :: u16 where [const_defs]: "DMMR_PROTO_OP_GET = 1"
definition NGX_PROTO_STATUS_OK :: u16 where [const_defs]: "NGX_PROTO_STATUS_OK = 0"
definition DMMR_FRAME_MAGIC :: u16 where [const_defs]: "DMMR_FRAME_MAGIC = 0xD4D4"
definition DMMR_FRAME_VERSION :: u16 where [const_defs]: "DMMR_FRAME_VERSION = 1"

definition ngx_http_dmmr_htonll :: "u64 \<Rightarrow> u64" where
  "ngx_http_dmmr_htonll v = push_bit 32 (ucast (htonl (ucast v :: u32))) OR ucast (htonl (ucast (drop_bit 32 v) :: u32))"

fun ngx_send_loop :: "bytes \<Rightarrow> bytes \<Rightarrow> tx_event list \<Rightarrow> bool \<times> bytes \<times> tx_event list" where
  "ngx_send_loop [] out evs = (True, out, evs)"
| "ngx_send_loop buf out [] = (False, out, [])"
| "ngx_send_loop buf out (TxTake n # evs) =
     (if n = 0 then (False, out, evs) else ngx_send_loop (drop n buf) (out @ take n buf) evs)"
| "ngx_send_loop buf out (TxIntr # evs) = ngx_send_loop buf out evs"
| "ngx_send_loop buf out (TxError # evs) = (False, out, evs)"

definition ngx_http_dmmr_send_full :: "bytes \<Rightarrow> sock \<Rightarrow> bool \<times> sock" where
  "ngx_http_dmmr_send_full buf s =
     (case ngx_send_loop buf (s_out s) (s_tx s) of (ok, out, evs) \<Rightarrow> (ok, s\<lparr>s_out := out, s_tx := evs\<rparr>))"

text \<open>What an attempt to connect meets: whether \<open>socket\<close> succeeds, the connection to a path if \<open>connect\<close>
  accepts, and for a name the candidates of \<open>getaddrinfo\<close> with the outcome of \<open>connect\<close> on each.\<close>

record cache_net =
  cn_socket :: bool
  cn_unix :: "bytes \<Rightarrow> sock option"
  cn_resolve :: "bytes \<Rightarrow> bytes \<Rightarrow> sock option list option"

record cache_conn =
  cc_fd :: "sock option"
  cc_address :: "bytes option"

record auth_env =
  ax_net :: "nat \<Rightarrow> cache_net"
  ax_mem :: "nat \<Rightarrow> bool"
  ax_conn :: cache_conn
  ax_done :: "sock list"

fun first_some :: "'a option list \<Rightarrow> 'a option" where
  "first_some [] = None"
| "first_some (Some x # xs) = Some x"
| "first_some (None # xs) = first_some xs"

definition SUN_PATH_SIZE :: nat where [const_defs]: "SUN_PATH_SIZE = 108"

definition ngx_http_dmmr_cache_connect_new :: "ngx_api \<Rightarrow> cache_net \<Rightarrow> bytes \<Rightarrow> sock option" where
  "ngx_http_dmmr_cache_connect_new nx net addr =
     (if length addr = 0 then None
      else if strncmp_eq 5 (addr @ [0]) (cstr ''unix:'' @ [0]) then
        let path = drop 5 addr in
        if length path = 0 \<or> length path \<ge> SUN_PATH_SIZE then None
        else if \<not> cn_socket net then None
        else cn_unix net path
      else
        let rest = (if strncmp_eq 4 (addr @ [0]) (cstr ''tcp:'' @ [0]) then drop 4 addr else addr) in
        (case nx_strlchr nx rest (of_char CHR '':'') of
           None \<Rightarrow> None
         | Some i \<Rightarrow>
             let host = take i rest; port = drop (i + 1) rest in
             if length host = 0 \<or> length port = 0 \<or> length host \<ge> 256 \<or> length port \<ge> 16 then None
             else if \<not> cn_socket net then None
             else (case cn_resolve net host port of None \<Rightarrow> None | Some cs \<Rightarrow> first_some cs)))"

definition ngx_http_dmmr_cache_close_conn :: "auth_env \<Rightarrow> auth_env" where
  "ngx_http_dmmr_cache_close_conn env =
     env\<lparr>ax_done := (case cc_fd (ax_conn env) of None \<Rightarrow> ax_done env | Some s \<Rightarrow> ax_done env @ [s\<lparr>s_open := False\<rparr>]),
         ax_conn := \<lparr>cc_fd = None, cc_address = None\<rparr>\<rparr>"

definition ngx_http_dmmr_cache_prepare_conn :: "ngx_api \<Rightarrow> bytes \<Rightarrow> auth_env \<Rightarrow> bool \<times> auth_env" where
  "ngx_http_dmmr_cache_prepare_conn nx addr env =
     (let env1 = ngx_http_dmmr_cache_close_conn env;
          env2 = env1\<lparr>ax_net := (\<lambda>n. ax_net env1 (Suc n))\<rparr> in
      case ngx_http_dmmr_cache_connect_new nx (ax_net env1 0) addr of
        None \<Rightarrow> (False, env2)
      | Some s \<Rightarrow>
          let env3 = env2\<lparr>ax_mem := (\<lambda>n. ax_mem env2 (Suc n))\<rparr> in
          if \<not> ax_mem env2 0 then (False, env3\<lparr>ax_done := ax_done env3 @ [s\<lparr>s_open := False\<rparr>]\<rparr>)
          else (True, env3\<lparr>ax_conn := \<lparr>cc_fd = Some s, cc_address = Some addr\<rparr>\<rparr>))"

text \<open>Both reading loops: any call that brings nothing ends them.\<close>

function cache_read :: "nat \<Rightarrow> bytes \<Rightarrow> rx_event list \<Rightarrow> bytes \<times> rx_event list" where
  "cache_read want buf evs =
     (if length buf < want then
        (case recv (want - length buf) evs of
           (RxRet bs, evs') \<Rightarrow> if bs = [] then (buf, evs') else cache_read want (buf @ bs) evs'
         | (_, evs') \<Rightarrow> (buf, evs'))
      else (buf, evs))"
  by pat_completeness auto
termination
  by (relation "measure (\<lambda>(want, buf, evs). want - length buf)") (auto simp: neq_Nil_conv)

declare cache_read.simps [simp del]

section \<open>Asking the daemon\<close>

definition cache_request :: "bytes \<Rightarrow> bytes" where
  "cache_request api_key =
     frame_mem \<lparr>f_magic = htons DMMR_FRAME_MAGIC, f_version = htons DMMR_FRAME_VERSION, f_opcode = htons DMMR_PROTO_OP_GET,
       f_flags = htons 0, f_key_len = htonl (of_nat (length api_key)), f_value_len = htonl 0,
       f_timestamp = ngx_http_dmmr_htonll 0\<rparr> @ api_key"

definition cache_candidates :: "ngx_str \<Rightarrow> bytes list" where
  "cache_candidates cache_addr =
     (let addr = (case cache_addr of None \<Rightarrow> [] | Some a \<Rightarrow> a);
          fallback_unix = cstr ''unix:/tmp/dmmr_cache.sock'';
          fallback_tcp = cstr ''tcp:127.0.0.1:9080'';
          first = (if addr = [] then fallback_unix else addr) in
      if addr = [] \<or> addr \<noteq> fallback_unix
      then (if addr = [] \<or> addr \<noteq> fallback_tcp then [first, fallback_unix, fallback_tcp] else [first, fallback_unix])
      else [first])"

text \<open>The exchange on a connection: \<open>None\<close> to try the next address, else the status and the body.\<close>

definition cache_exchange :: "bytes \<Rightarrow> sock \<Rightarrow> (u16 \<times> bytes) option \<times> sock" where
  "cache_exchange req s =
     (case ngx_http_dmmr_send_full req s of
        (False, s1) \<Rightarrow> (None, s1)
      | (True, s1) \<Rightarrow>
          (case cache_read 8 [] (s_rx s1) of
             (head, evs) \<Rightarrow>
               let s2 = s1\<lparr>s_rx := evs\<rparr> in
               if length head < 8 then (None, s2)
               else let status = ntohs (of_le (sub 0 2 head)); resp_len = ntohl (of_le (sub 2 4 head)) :: u32 in
                 if unat resp_len > 4096 - 8 then (None, s2)
                 else (case cache_read (8 + unat resp_len) head evs of
                         (buf, evs') \<Rightarrow>
                           let s3 = s2\<lparr>s_rx := evs'\<rparr> in
                           if length buf < 8 + unat resp_len then (None, s3)
                           else (Some (status, drop 8 buf), s3))))"

definition cache_attempt ::
  "ngx_api \<Rightarrow> bytes \<Rightarrow> bytes \<Rightarrow> ngx_request \<Rightarrow> auth_env \<Rightarrow> (ngx_rc \<times> ngx_str) option \<times> ngx_request \<times> auth_env" where
  "cache_attempt nx req addr r env =
     (case ngx_http_dmmr_cache_prepare_conn nx addr env of
        (False, env1) \<Rightarrow> (None, r, env1)
      | (True, env1) \<Rightarrow>
          (case cache_exchange req (the (cc_fd (ax_conn env1))) of
             (ans, s) \<Rightarrow>
               let env2 = ngx_http_dmmr_cache_close_conn (env1\<lparr>ax_conn := (ax_conn env1)\<lparr>cc_fd := Some s\<rparr>\<rparr>) in
               (case ans of
                  None \<Rightarrow> (None, r, env2)
                | Some (status, body) \<Rightarrow>
                    if status = NGX_PROTO_STATUS_OK then
                      (case ngx_palloc r of (ok, r1) \<Rightarrow> (Some (NGX_OK, if ok then Some body else None), r1, env2))
                    else (Some (NGX_DECLINED, None), r, env2))))"

fun cache_attempts ::
  "ngx_api \<Rightarrow> bytes \<Rightarrow> bytes list \<Rightarrow> ngx_request \<Rightarrow> auth_env \<Rightarrow> (ngx_rc \<times> ngx_str) option \<times> ngx_request \<times> auth_env" where
  "cache_attempts nx req [] r env = (None, r, env)"
| "cache_attempts nx req (a # as) r env =
     (case cache_attempt nx req a r env of
        (Some res, r1, env1) \<Rightarrow> (Some res, r1, env1)
      | (None, r1, env1) \<Rightarrow> cache_attempts nx req as r1 env1)"

definition ngx_http_dmmr_send_cache_request ::
  "ngx_api \<Rightarrow> ngx_conf option \<Rightarrow> bytes \<Rightarrow> ngx_request \<Rightarrow> auth_env \<Rightarrow> ngx_rc \<times> ngx_str \<times> ngx_request \<times> auth_env" where
  "ngx_http_dmmr_send_cache_request nx loc_conf api_key r env =
     (case loc_conf of
        None \<Rightarrow> (NGX_ERROR, None, r, env)
      | Some kcf \<Rightarrow>
          if length api_key > 4096 - frame_size then (NGX_ERROR, None, r, env)
          else let cs = cache_candidates (nc_cache_addr kcf) in
            (case cache_attempts nx (cache_request api_key) (cs @ cs) r env of
               (Some (rc, user), r1, env1) \<Rightarrow> (rc, user, r1, env1)
             | (None, r1, env1) \<Rightarrow> (NGX_ERROR, None, r1, ngx_http_dmmr_cache_close_conn env1)))"

definition ngx_http_dmmr_verify_key_api ::
  "ngx_api \<Rightarrow> ngx_conf option \<Rightarrow> bytes \<Rightarrow> ngx_request \<Rightarrow> auth_env \<Rightarrow> ngx_rc \<times> ngx_str \<times> ngx_request \<times> auth_env" where
  "ngx_http_dmmr_verify_key_api nx loc_conf api_key r env = ngx_http_dmmr_send_cache_request nx loc_conf api_key r env"

section \<open>The decision\<close>

definition ngx_http_dmmr_auth ::
  "ngx_api \<Rightarrow> ngx_conf option \<Rightarrow> ngx_request \<Rightarrow> ngx_ctx \<Rightarrow> auth_env \<Rightarrow> ngx_rc \<times> ngx_request \<times> ngx_ctx \<times> auth_env" where
  "ngx_http_dmmr_auth nx loc_conf r ctx env =
     (if length (rq_uri r) \<ge> 7 \<and> strncmp_eq 7 (rq_uri r) (cstr ''/public'')
      then (NGX_OK, r, ctx\<lparr>cx_authenticated := True\<rparr>, env)
      else case ngx_http_dmmr_extract_credential nx r of
        None \<Rightarrow> (NGX_HTTP_UNAUTHORIZED, r, ctx, env)
      | Some api_key \<Rightarrow>
          (case ngx_palloc r of
             (False, r1) \<Rightarrow> (NGX_HTTP_INTERNAL_SERVER_ERROR, r1, ctx, env)
           | (True, r1) \<Rightarrow>
               (case ngx_http_dmmr_verify_key_api nx loc_conf api_key r1 env of
                  (cache_rc, user_info, r2, env1) \<Rightarrow>
                    if cache_rc = NGX_OK then
                      (case ngx_palloc r2 of
                         (ok, r3) \<Rightarrow> (NGX_OK, r3,
                            ctx\<lparr>cx_authenticated := True, cx_auth_user := (if ok then Some user_info else None)\<rparr>, env1))
                    else if cache_rc = NGX_ERROR then (NGX_HTTP_SERVICE_UNAVAILABLE, r2, ctx, env1)
                    else (NGX_HTTP_FORBIDDEN, r2, ctx, env1))))"

section \<open>Sending and reading\<close>

lemma ngx_htonll_eq: "ngx_http_dmmr_htonll v = htonll v"
  by (simp add: ngx_http_dmmr_htonll_def htonll_def Let_def)

lemma cache_request_wire:
  "cache_request key = frame_wire \<lparr>f_magic = DMMR_MAGIC, f_version = DMMR_VERSION, f_opcode = OP_GET, f_flags = FLAG_NONE,
     f_key_len = of_nat (length key), f_value_len = 0, f_timestamp = 0\<rparr> @ key"
  by (simp add: cache_request_def frame_mem_def frame_wire_def codec_simps ngx_htonll_eq const_defs)

lemma length_cache_request: "length (cache_request key) = frame_size + length key"
  by (simp add: cache_request_wire)

lemma ngx_send_loop_ok: "ngx_send_loop buf out evs = (True, out', evs') \<Longrightarrow> out' = out @ buf"
  by (induction buf out evs rule: ngx_send_loop.induct) (auto split: if_splits)

lemma ngx_send_full_ok:
  "ngx_http_dmmr_send_full buf s = (True, s') \<Longrightarrow> s_out s' = s_out s @ buf \<and> s_rx s' = s_rx s"
  by (auto simp: ngx_http_dmmr_send_full_def dest: ngx_send_loop_ok split: prod.splits)

lemma ngx_send_loop_live:
  "tx_live (length buf) evs \<Longrightarrow> \<exists>evs'. ngx_send_loop buf out evs = (True, out @ buf, evs')"
proof (induction buf out evs rule: ngx_send_loop.induct)
  case (3 b bs out n evs)
  then have "n \<noteq> 0" and "tx_live (length (drop n (b # bs))) evs"
    by (auto simp: tx_live_def)
  with "3.IH" show ?case by (cases n) auto
qed (auto simp: tx_live_def)

lemma ngx_send_full_live:
  assumes "tx_live (length buf) (s_tx s)"
  shows "\<exists>s'. ngx_http_dmmr_send_full buf s = (True, s') \<and> s_rx s' = s_rx s"
  using ngx_send_loop_live [OF assms, of "s_out s"] by (auto simp: ngx_http_dmmr_send_full_def)

text \<open>What the loop has read is the beginning of the stream.\<close>

lemma cache_read_stream:
  assumes "cache_read want buf evs = (b, evs')"
  shows "\<exists>bs. b = buf @ bs \<and> stream_of evs = bs @ stream_of evs' \<or> (\<exists>bs rest. b = buf @ bs \<and> stream_of evs = bs @ rest \<and> length b < want)"
  using assms
proof (induction want buf evs rule: cache_read.induct)
  case (1 want buf evs)
  show ?case
  proof (cases "length buf < want")
    case False
    then show ?thesis using "1.prems" by (subst (asm) cache_read.simps) simp
  next
    case True
    obtain x evs1 where x: "recv (want - length buf) evs = (x, evs1)" by fastforce
    show ?thesis
    proof (cases "\<exists>bs. x = RxRet bs \<and> bs \<noteq> []")
      case data: True
      then obtain bs where bs: "x = RxRet bs" "bs \<noteq> []" by blast
      have rest: "stream_of evs = bs @ stream_of evs1"
        using recv_stream [of "want - length buf" evs] True x bs by simp
      have "cache_read want (buf @ bs) evs1 = (b, evs')"
        using "1.prems" True x bs by (subst (asm) cache_read.simps) simp
      then show ?thesis
        using "1.IH" [OF True x [symmetric] bs(1,2)] rest by fastforce
    next
      case False
      then have "b = buf"
        using "1.prems" True x by (subst (asm) cache_read.simps) (auto split: rx_result.splits)
      then show ?thesis using True by auto
    qed
  qed
qed

lemma cache_read_length: "cache_read want buf evs = (b, evs') \<Longrightarrow> length b \<le> max want (length buf)"
proof (induction want buf evs rule: cache_read.induct)
  case (1 want buf evs)
  show ?case
  proof (cases "length buf < want \<and> (\<exists>bs evs1. recv (want - length buf) evs = (RxRet bs, evs1) \<and> bs \<noteq> [])")
    case True
    then obtain bs evs1 where bs: "length buf < want" "recv (want - length buf) evs = (RxRet bs, evs1)" "bs \<noteq> []" by blast
    then have "cache_read want (buf @ bs) evs1 = (b, evs')"
      using "1.prems" by (subst (asm) cache_read.simps) simp
    then show ?thesis
      using "1.IH" [OF bs(1) bs(2) [symmetric] refl bs(3)] recv_measure(2) [OF bs(2) refl] bs(1) by simp
  next
    case False
    then have "b = buf"
      using "1.prems" by (subst (asm) cache_read.simps) (auto split: prod.splits rx_result.splits if_splits)
    then show ?thesis by simp
  qed
qed

lemma cache_read_enough:
  assumes "RxIntr \<notin> set evs" and "length buf \<le> want" and "want \<le> length buf + length (stream_of evs)"
  shows "\<exists>evs'. cache_read want buf evs = (buf @ take (want - length buf) (stream_of evs), evs')
    \<and> stream_of evs' = drop (want - length buf) (stream_of evs) \<and> RxIntr \<notin> set evs'"
  using assms
proof (induction want buf evs rule: cache_read.induct)
  case (1 want buf evs)
  show ?case
  proof (cases "length buf < want")
    case False
    then show ?thesis using "1.prems" by (subst cache_read.simps) simp
  next
    case True
    obtain x evs1 where x: "recv (want - length buf) evs = (x, evs1)" by fastforce
    have ne: "stream_of evs \<noteq> []" using True "1.prems"(3) by auto
    have calm: "RxIntr \<notin> set evs1" "x \<noteq> RxFail True"
      using x "1.prems"(1) by (cases "(want - length buf, evs)" rule: recv.cases; auto split: if_splits)+
    obtain bs where bs: "x = RxRet bs" "bs \<noteq> []" and rest: "stream_of evs = bs @ stream_of evs1" "length bs \<le> want - length buf"
      using recv_stream [of "want - length buf" evs] True x ne calm(2) by (cases x) (auto split: if_splits)
    have step: "cache_read want buf evs = cache_read want (buf @ bs) evs1"
      using True x bs by (subst cache_read.simps) simp
    show ?thesis
      using "1.IH" [OF True x [symmetric] bs(1,2) calm(1)] rest "1.prems"(3) True unfolding step by auto
  qed
qed

section \<open>The answer of the daemon\<close>

text \<open>The first bytes of a stream are a complete answer.\<close>

definition answers_with :: "bytes \<Rightarrow> u16 \<Rightarrow> bytes \<Rightarrow> bool" where
  "answers_with stream status body \<longleftrightarrow>
     (\<exists>pad rest. length pad = 2 \<and> length body \<le> 4088 \<and>
        stream = be_bytes 2 status @ be_bytes 4 (of_nat (length body) :: u32) @ pad @ body @ rest)"

lemma head_fields:
  fixes head :: bytes
  assumes "length head = 8"
  shows "head = be_bytes 2 (ntohs (of_le (sub 0 2 head)) :: u16) @ be_bytes 4 (ntohl (of_le (sub 2 4 head)) :: u32) @ drop 6 head"
proof -
  have "sub 0 2 head @ sub 2 4 head @ drop 6 head = head"
    using append_take_drop_id [of 4 "drop 2 head"] append_take_drop_id [of 2 head] by (simp add: sub_def)
  moreover have "be_bytes 2 (of_be (sub 0 2 head) :: u16) = sub 0 2 head" "be_bytes 4 (of_be (sub 2 4 head) :: u32) = sub 2 4 head"
    using assms by (intro be_bytes_of_be; simp)+
  ultimately show ?thesis
    using assms by (simp add: codec_simps)
qed

lemma cache_exchange_sound:
  assumes "cache_exchange req s = (Some (status, body), s')"
  shows "s_out s' = s_out s @ req" and "answers_with (stream_of (s_rx s)) status body"
proof -
  obtain s1 head evs buf evs' where send: "ngx_http_dmmr_send_full req s = (True, s1)"
    and head: "cache_read 8 [] (s_rx s1) = (head, evs)" "\<not> length head < 8"
    and small: "\<not> unat (ntohl (of_le (sub 2 4 head)) :: u32) > 4096 - 8"
    and buf: "cache_read (8 + unat (ntohl (of_le (sub 2 4 head)) :: u32)) head evs = (buf, evs')"
      "\<not> length buf < 8 + unat (ntohl (of_le (sub 2 4 head)) :: u32)"
    and res: "status = ntohs (of_le (sub 0 2 head))" "body = drop 8 buf" "s_out s' = s_out s1"
    using assms by (auto simp: cache_exchange_def Let_def split: prod.splits bool.splits if_splits)
  let ?n = "unat (ntohl (of_le (sub 2 4 head)) :: u32)"
  show "s_out s' = s_out s @ req"
    using ngx_send_full_ok [OF send] res(3) by simp
  have s1: "s_rx s1 = s_rx s" using ngx_send_full_ok [OF send] by simp
  have stream: "stream_of (s_rx s) = head @ stream_of evs"
    using cache_read_stream [OF head(1)] head(2) s1 by auto
  obtain bs where bs: "buf = head @ bs" "stream_of evs = bs @ stream_of evs'"
    using cache_read_stream [OF buf(1)] buf(2) by auto
  have len: "length head = 8" "length buf = 8 + ?n"
    using cache_read_length [OF head(1)] cache_read_length [OF buf(1)] head(2) buf(2) by auto
  have body: "body = bs" "length body = ?n" using res(2) bs(1) len by auto
  then have n: "(of_nat (length body) :: u32) = ntohl (of_le (sub 2 4 head))" by simp
  have "head = be_bytes 2 status @ be_bytes 4 (of_nat (length body) :: u32) @ drop 6 head"
    unfolding n using head_fields [OF len(1)] res(1) by simp
  then have "stream_of (s_rx s) = be_bytes 2 status @ be_bytes 4 (of_nat (length body) :: u32) @ drop 6 head @ body @ stream_of evs'"
    using stream bs(2) body(1) by (metis append.assoc)
  then show "answers_with (stream_of (s_rx s)) status body"
    using small body(2) len(1) unfolding answers_with_def by (intro exI [of _ "drop 6 head"] exI [of _ "stream_of evs'"]) simp
qed

lemma cache_exchange_complete:
  assumes "tx_live (length req) (s_tx s)" and "RxIntr \<notin> set (s_rx s)" and "answers_with (stream_of (s_rx s)) status body"
  shows "\<exists>s'. cache_exchange req s = (Some (status, body), s')"
proof -
  obtain pad rest where pad: "length pad = 2" "length body \<le> 4088"
    and stream: "stream_of (s_rx s) = be_bytes 2 status @ be_bytes 4 (of_nat (length body) :: u32) @ pad @ body @ rest"
    using assms(3) by (auto simp: answers_with_def)
  define head where "head = be_bytes 2 status @ be_bytes 4 (of_nat (length body) :: u32) @ pad"
  have hd: "length head = 8" "stream_of (s_rx s) = head @ body @ rest"
    using pad(1) stream by (simp_all add: head_def)
  have len: "unat (of_nat (length body) :: u32) = length body"
    using pad(2) by (simp add: unat_of_nat take_bit_nat_def)
  have fields: "ntohs (of_le (sub 0 2 head)) = status" "ntohl (of_le (sub 2 4 head)) = (of_nat (length body) :: u32)"
    by (simp_all add: head_def sub_append_skip codec_simps)
  obtain s1 where s1: "ngx_http_dmmr_send_full req s = (True, s1)" "s_rx s1 = s_rx s"
    using ngx_send_full_live [OF assms(1)] by blast
  obtain evs where evs: "cache_read 8 [] (s_rx s) = (head, evs)" "stream_of evs = body @ rest" "RxIntr \<notin> set evs"
    using cache_read_enough [OF assms(2), of "[]" 8] hd by auto
  obtain evs' where "cache_read (8 + length body) head evs = (head @ body, evs')"
    using cache_read_enough [OF evs(3), of head "8 + length body"] evs(2) hd(1) by auto
  then show ?thesis
    using s1 evs(1) hd(1) fields len pad(2) by (simp add: cache_exchange_def)
qed

text \<open>One of the connections of a request was opened to one of the addresses, the request for the key was written to
  it, and a complete positive answer came back.\<close>

definition granted :: "ngx_api \<Rightarrow> bytes list \<Rightarrow> bytes \<Rightarrow> auth_env \<Rightarrow> auth_env \<Rightarrow> ngx_str \<Rightarrow> bool" where
  "granted nx as key env env' user \<longleftrightarrow>
     (\<exists>n addr s0 s1 body. addr \<in> set as \<and> ngx_http_dmmr_cache_connect_new nx (ax_net env n) addr = Some s0 \<and>
        s1 \<in> set (ax_done env') \<and> s_out s1 = s_out s0 @ cache_request key \<and>
        answers_with (stream_of (s_rx s0)) NGX_PROTO_STATUS_OK body \<and> (user = Some body \<or> user = None))"

lemma prepare_conn_net:
  "ngx_http_dmmr_cache_prepare_conn nx addr env = (ok, env') \<Longrightarrow> ax_net env' = (\<lambda>n. ax_net env (Suc n))"
  by (auto simp: ngx_http_dmmr_cache_prepare_conn_def ngx_http_dmmr_cache_close_conn_def Let_def split: option.splits if_splits)

lemma prepare_conn_sock:
  assumes "ngx_http_dmmr_cache_prepare_conn nx addr env = (True, env')"
  shows "\<exists>s. ngx_http_dmmr_cache_connect_new nx (ax_net env 0) addr = Some s \<and> cc_fd (ax_conn env') = Some s"
  using assms
  by (auto simp: ngx_http_dmmr_cache_prepare_conn_def ngx_http_dmmr_cache_close_conn_def Let_def split: option.splits if_splits)

lemma close_conn_sock [simp]:
  "ax_net (ngx_http_dmmr_cache_close_conn env) = ax_net env"
  "cc_fd (ax_conn env) = Some s \<Longrightarrow> s\<lparr>s_open := False\<rparr> \<in> set (ax_done (ngx_http_dmmr_cache_close_conn env))"
  by (auto simp: ngx_http_dmmr_cache_close_conn_def)

lemma cache_attempt_net:
  "cache_attempt nx req addr r env = (res, r', env') \<Longrightarrow> ax_net env' = (\<lambda>n. ax_net env (Suc n))"
  by (auto simp: cache_attempt_def Let_def dest!: prepare_conn_net split: prod.splits bool.splits option.splits if_splits)

lemma cache_attempt_sound:
  assumes "cache_attempt nx (cache_request key) addr r env = (Some (rc, user), r', env')"
  shows "rc = NGX_OK \<and> granted nx [addr] key env env' user \<or> rc = NGX_DECLINED"
proof -
  obtain env1 s0 where env1: "ngx_http_dmmr_cache_prepare_conn nx addr env = (True, env1)"
    and s0: "ngx_http_dmmr_cache_connect_new nx (ax_net env 0) addr = Some s0" "cc_fd (ax_conn env1) = Some s0"
    using assms prepare_conn_sock [of nx addr env]
    by (cases "ngx_http_dmmr_cache_prepare_conn nx addr env") (auto simp: cache_attempt_def split: bool.splits)
  obtain status body s1 where ex: "cache_exchange (cache_request key) s0 = (Some (status, body), s1)"
    and env': "env' = ngx_http_dmmr_cache_close_conn (env1\<lparr>ax_conn := (ax_conn env1)\<lparr>cc_fd := Some s1\<rparr>\<rparr>)"
    and rc: "status = NGX_PROTO_STATUS_OK \<and> rc = NGX_OK \<and> (user = Some body \<or> user = None) \<or> rc = NGX_DECLINED"
    using assms s0 env1
    by (cases "cache_exchange (cache_request key) s0")
      (auto simp: cache_attempt_def Let_def split: option.splits if_splits prod.splits)
  note sound = cache_exchange_sound [OF ex]
  have "s1\<lparr>s_open := False\<rparr> \<in> set (ax_done env')"
    unfolding env' by (rule close_conn_sock(2)) simp
  then have "granted nx [addr] key env env' user" if "status = NGX_PROTO_STATUS_OK" "user = Some body \<or> user = None"
    unfolding granted_def using that s0(1) sound
    by (intro exI [of _ 0] exI [of _ addr] exI [of _ s0] exI [of _ "s1\<lparr>s_open := False\<rparr>"] exI [of _ body]) simp
  then show ?thesis using rc by blast
qed

lemma cache_attempts_sound:
  assumes "cache_attempts nx (cache_request key) as r env = (Some (rc, user), r', env')"
  shows "rc = NGX_OK \<and> granted nx as key env env' user \<or> rc = NGX_DECLINED"
  using assms
proof (induction as arbitrary: r env)
  case Nil
  then show ?case by simp
next
  case (Cons a as)
  obtain res r1 env1 where at: "cache_attempt nx (cache_request key) a r env = (res, r1, env1)" by (cases "cache_attempt nx (cache_request key) a r env") auto
  have net: "ax_net env1 = (\<lambda>n. ax_net env (Suc n))" using cache_attempt_net [OF at] .
  have weaken: "granted nx [a] key env env' user \<Longrightarrow> granted nx (a # as) key env env' user"
    unfolding granted_def by fastforce
  have later: "granted nx as key env1 env' user \<Longrightarrow> granted nx (a # as) key env env' user"
    unfolding granted_def net by (metis list.set_intros(2))
  show ?case
  proof (cases res)
    case None
    then show ?thesis using Cons at later by auto
  next
    case (Some x)
    then show ?thesis using Cons.prems at cache_attempt_sound weaken by fastforce
  qed
qed

lemma public_prefix:
  "length uri \<ge> 7 \<and> strncmp_eq 7 uri (cstr ''/public'') \<longleftrightarrow> prefix (cstr ''/public'') uri"
proof -
  have "length (cstr ''/public'') = 7" "0 \<notin> set (cstr ''/public'')"
    by simp_all
  then show ?thesis
    using prefix_take_eq [of "cstr ''/public''" uri] strncmp_eq_take [of "cstr ''/public''" 7 uri] by metis
qed

lemma cache_candidates_first: "addr \<noteq> [] \<Longrightarrow> \<exists>rest. cache_candidates (Some addr) = addr # rest"
  unfolding cache_candidates_def Let_def by (simp split: if_split del: cstr_Cons)

lemma auth_asks:
  assumes "loc = Some kcf" and "nc_cache_addr kcf = Some addr" and "addr \<noteq> []"
    and "\<not> prefix (cstr ''/public'') (rq_uri r)" and "ngx_http_dmmr_extract_credential nx r = Some key" and "length key \<le> 4072"
    and "pool_ok r" and "ax_mem env 0" and "ngx_http_dmmr_cache_connect_new nx (ax_net env 0) addr = Some s0"
    and "tx_live (frame_size + length key) (s_tx s0)" and "RxIntr \<notin> set (s_rx s0)" and "answers_with (stream_of (s_rx s0)) status body"
  shows "\<exists>r' env'. pool_ok r' \<and> ngx_http_dmmr_auth nx loc r ctx env =
    (if status = NGX_PROTO_STATUS_OK then (NGX_OK, r', ctx\<lparr>cx_authenticated := True, cx_auth_user := Some (Some body)\<rparr>, env')
     else (NGX_HTTP_FORBIDDEN, r', ctx, env'))"
proof -
  obtain s1 where ex: "cache_exchange (cache_request key) s0 = (Some (status, body), s1)"
    using cache_exchange_complete [of "cache_request key" s0 status body] assms(10-12) by (auto simp: length_cache_request)
  obtain env1 where env1: "ngx_http_dmmr_cache_prepare_conn nx addr env = (True, env1)" "cc_fd (ax_conn env1) = Some s0"
    using assms(8,9) by (auto simp: ngx_http_dmmr_cache_prepare_conn_def ngx_http_dmmr_cache_close_conn_def Let_def)
  obtain rest where cs: "cache_candidates (nc_cache_addr kcf) = addr # rest"
    using cache_candidates_first assms(2,3) by metis
  have key: "\<not> length key > 4096 - frame_size"
    using assms(6) by (simp add: frame_size_def)
  obtain r1 where r1: "ngx_palloc r = (True, r1)" "pool_ok r1" using assms(7) by (rule pool_okE)
  obtain r2 where r2: "ngx_palloc r1 = (True, r2)" "pool_ok r2" using r1(2) by (rule pool_okE)
  obtain r3 where r3: "ngx_palloc r2 = (True, r3)" "pool_ok r3" using r2(2) by (rule pool_okE)
  define env2 where "env2 = ngx_http_dmmr_cache_close_conn (env1\<lparr>ax_conn := (ax_conn env1)\<lparr>cc_fd := Some s1\<rparr>\<rparr>)"
  have "cache_attempt nx (cache_request key) addr r1 env =
      (if status = NGX_PROTO_STATUS_OK then (Some (NGX_OK, Some body), r2, env2) else (Some (NGX_DECLINED, None), r1, env2))"
    unfolding cache_attempt_def env1(1) by (simp add: env1(2) ex r2(1) env2_def Let_def)
  then have "ngx_http_dmmr_send_cache_request nx loc key r1 env =
      (if status = NGX_PROTO_STATUS_OK then (NGX_OK, Some body, r2, env2) else (NGX_DECLINED, None, r1, env2))"
    using assms(1) key by (simp add: ngx_http_dmmr_send_cache_request_def cs)
  then have "ngx_http_dmmr_auth nx loc r ctx env =
      (if status = NGX_PROTO_STATUS_OK then (NGX_OK, r3, ctx\<lparr>cx_authenticated := True, cx_auth_user := Some (Some body)\<rparr>, env2)
       else (NGX_HTTP_FORBIDDEN, r1, ctx, env2))"
    using assms(4,5) unfolding ngx_http_dmmr_auth_def public_prefix ngx_http_dmmr_verify_key_api_def
    by (cases "status = NGX_PROTO_STATUS_OK") (simp_all add: r1(1) r3(1))
  then show ?thesis
    using r1(2) r3(2) by (intro exI [of _ "if status = NGX_PROTO_STATUS_OK then r3 else r1"] exI [of _ env2]) simp
qed

section \<open>Credentials of a query string\<close>

lemma strstr_prefix: "prefix needle mem \<Longrightarrow> strstr needle mem = Some 0"
  by (cases mem) auto

text \<open>
  The search for a credential in the query string goes on to the next NUL byte and not to the end of the
  arguments: when the parameter is the last one, what follows it in the buffer of the request, as the protocol
  version and the first header name of the request, becomes part of the credential.
\<close>

lemma query_credential_overreads:
  assumes "of_char CHR ''&'' \<notin> set v"
  shows "query_credential (cstr ''apikey='' @ v @ rest) = Some (v @ takeWhile (\<lambda>c. c \<noteq> of_char CHR ''&'') rest)"
proof -
  have "strstr (cstr ''apikey='') (cstr ''apikey='' @ v @ rest) = Some 0"
    by (rule strstr_prefix) simp
  then show ?thesis
    using assms by (auto simp: query_credential_def Let_def takeWhile_append)
qed

section \<open>The decision is closed\<close>

lemma auth_closed:
  assumes "ngx_http_dmmr_auth nx loc r ctx env = (rc, r', ctx', env')"
  shows "(rc = NGX_OK \<longrightarrow> cx_authenticated ctx' \<and>
       (prefix (cstr ''/public'') (rq_uri r) \<or>
        (\<exists>kcf key user. loc = Some kcf \<and> ngx_http_dmmr_extract_credential nx r = Some key \<and> length key \<le> 4072 \<and>
           granted nx (cache_candidates (nc_cache_addr kcf)) key env env' user \<and>
           (cx_auth_user ctx' = Some user \<or> cx_auth_user ctx' = None))))
    \<and> (rc \<noteq> NGX_OK \<longrightarrow> ctx' = ctx \<and>
         rc \<in> {NGX_HTTP_UNAUTHORIZED, NGX_HTTP_FORBIDDEN, NGX_HTTP_INTERNAL_SERVER_ERROR, NGX_HTTP_SERVICE_UNAVAILABLE})"
proof (cases "prefix (cstr ''/public'') (rq_uri r)")
  case True
  then show ?thesis
    using assms unfolding ngx_http_dmmr_auth_def public_prefix by auto
next
  case False
  show ?thesis
  proof (cases "rc = NGX_OK")
    case bad: False
    then show ?thesis
      using assms False unfolding ngx_http_dmmr_auth_def public_prefix
      by (auto split: option.splits prod.splits bool.splits if_splits)
  next
    case True
    then obtain key r1 user r2 where key: "ngx_http_dmmr_extract_credential nx r = Some key"
      and ask: "ngx_http_dmmr_send_cache_request nx loc key r1 env = (NGX_OK, user, r2, env')"
      and ctx: "cx_authenticated ctx'" "cx_auth_user ctx' = Some user \<or> cx_auth_user ctx' = None"
      using assms False unfolding ngx_http_dmmr_auth_def public_prefix ngx_http_dmmr_verify_key_api_def
      by (auto split: option.splits prod.splits bool.splits if_splits)
    obtain kcf where kcf: "loc = Some kcf" "length key \<le> 4072"
      and att: "cache_attempts nx (cache_request key) (cache_candidates (nc_cache_addr kcf) @ cache_candidates (nc_cache_addr kcf))
          r1 env = (Some (NGX_OK, user), r2, env')"
      using ask by (auto simp: ngx_http_dmmr_send_cache_request_def Let_def frame_size_def
          split: option.splits prod.splits if_splits)
    have "granted nx (cache_candidates (nc_cache_addr kcf)) key env env' user"
      using cache_attempts_sound [OF att] unfolding granted_def by (auto; blast)
    then show ?thesis
      using True key kcf ctx by blast
  qed
qed

section \<open>Properties\<close>

text \<open>
  C9: authentication fails closed.  The module lets a request pass only when its URI begins with \<open>/public\<close>, or
  when it found a credential, wrote the request for exactly this credential to a connection to one of the
  addresses of the configuration, and received a complete positive answer on it, whose body is then the user.  In
  every other case (no credential, no memory, a negative answer, no daemon, a broken or oversized answer) the
  context stays unauthenticated and the answer is 401, 403, 500 or 503.
\<close>

theorem auth_fails_closed:
  assumes "ngx_http_dmmr_auth nx loc r ctx env = (rc, r', ctx', env')"
  shows "(rc = NGX_OK \<longrightarrow> cx_authenticated ctx' \<and>
       (prefix (cstr ''/public'') (rq_uri r) \<or>
        (\<exists>kcf key user. loc = Some kcf \<and> ngx_http_dmmr_extract_credential nx r = Some key \<and> length key \<le> 4072 \<and>
           granted nx (cache_candidates (nc_cache_addr kcf)) key env env' user \<and>
           (cx_auth_user ctx' = Some user \<or> cx_auth_user ctx' = None))))
    \<and> (rc \<noteq> NGX_OK \<longrightarrow> ctx' = ctx \<and>
         rc \<in> {NGX_HTTP_UNAUTHORIZED, NGX_HTTP_FORBIDDEN, NGX_HTTP_INTERNAL_SERVER_ERROR, NGX_HTTP_SERVICE_UNAVAILABLE})"
  using auth_closed [OF assms] .

definition demo_reply :: sock where
  "demo_reply = \<lparr>s_rx = [RxData (be_bytes 2 NGX_PROTO_STATUS_OK @ be_bytes 4 (1 :: u32) @ [0, 0] @ cstr ''u'')],
     s_tx = replicate 32 (TxTake 1), s_errno_eintr = False, s_out = [], s_open = True\<rparr>"

definition demo_env :: "sock \<Rightarrow> auth_env" where
  "demo_env s = \<lparr>ax_net = (\<lambda>_. \<lparr>cn_socket = True, cn_unix = (\<lambda>_. None), cn_resolve = (\<lambda>_ _. Some [None, Some s])\<rparr>),
     ax_mem = (\<lambda>_. True), ax_conn = \<lparr>cc_fd = None, cc_address = None\<rparr>, ax_done = []\<rparr>"

lemma strncmp_eq_unfold:
  "strncmp_eq 5 xs ys = strncmp_eq (Suc (Suc (Suc (Suc (Suc 0))))) xs ys"
  "strncmp_eq 4 xs ys = strncmp_eq (Suc (Suc (Suc (Suc 0)))) xs ys"
  by (simp_all add: eval_nat_numeral)

lemma demo_connects: "ngx_http_dmmr_cache_connect_new demo_api (ax_net (demo_env s) n) (cstr ''tcp:c:1'') = Some s"
  by (simp add: ngx_http_dmmr_cache_connect_new_def demo_env_def demo_api_def strchr_def strncmp_eq_unfold)

lemma demo_credential: "ngx_http_dmmr_extract_credential demo_api demo_request = Some (cstr ''k'')"
  by (simp add: ngx_http_dmmr_extract_credential_def demo_api_def demo_request_def same_text_def ascii_lower_def)

lemma demo_not_public: "\<not> prefix (cstr ''/public'') (rq_uri demo_request)"
  by (simp add: demo_request_def)

lemma demo_auth:
  "\<exists>r' env'. pool_ok r' \<and> ngx_http_dmmr_auth demo_api (Some demo_conf) demo_request ctx (demo_env demo_reply)
     = (NGX_OK, r', ctx\<lparr>cx_authenticated := True, cx_auth_user := Some (Some (cstr ''u''))\<rparr>, env')"
proof -
  have "answers_with (stream_of (s_rx demo_reply)) NGX_PROTO_STATUS_OK (cstr ''u'')"
    unfolding answers_with_def demo_reply_def by (intro exI [of _ "[0, 0]"] exI [of _ "[]"]) simp
  then show ?thesis
    using auth_asks [OF refl _ _ demo_not_public demo_credential _ _ _ demo_connects, of demo_conf demo_reply NGX_PROTO_STATUS_OK
        "cstr ''u''" ctx]
    by (simp add: demo_conf_def pool_ok_def demo_request_def demo_env_def demo_reply_def tx_live_def frame_size_def)
qed

theorem auth_fails_closed_witness:
  "\<exists>r' ctx' env'. ngx_http_dmmr_auth demo_api (Some demo_conf) demo_request ctx_zero (demo_env demo_reply) = (NGX_OK, r', ctx', env')
     \<and> (\<exists>user. granted demo_api (cache_candidates (nc_cache_addr demo_conf)) (cstr ''k'') (demo_env demo_reply) env' user)"
proof -
  obtain r' ctx' env' where run: "ngx_http_dmmr_auth demo_api (Some demo_conf) demo_request ctx_zero (demo_env demo_reply)
      = (NGX_OK, r', ctx', env')"
    using demo_auth by blast
  show ?thesis
    using auth_fails_closed [OF run] demo_not_public demo_credential run by auto
qed

end
