(* ===== verification/Ngx_Module.thy ===== *)
theory Ngx_Module
  imports Ngx_Router Ngx_Rate_Limit Ngx_Auth
begin

text \<open>
  The module itself (\<open>ngx_http_dmmr_module.c\<close>, \<open>ngx_http_dmmr_upstream.c\<close>, \<open>ngx_http_dmmr_plugins.c\<close>): the access
  phase handler that runs the stages one after the other, the upstream address and its variable, the
  configuration directives, and the creation and merging of configurations.
\<close>

section \<open>Upstream\<close>

definition upstream_uri :: "ngx_ctx \<Rightarrow> ngx_request \<Rightarrow> ngx_request" where
  "upstream_uri ctx r = (case cx_new_uri ctx of None \<Rightarrow> r | Some u \<Rightarrow> r\<lparr>rq_uri := u\<rparr>)"

definition ngx_http_dmmr_upstream :: "ngx_request \<Rightarrow> ngx_ctx \<Rightarrow> ngx_rc \<times> ngx_request \<times> ngx_ctx" where
  "ngx_http_dmmr_upstream r ctx =
     (case cx_service ctx of
        None \<Rightarrow> (NGX_HTTP_INTERNAL_SERVER_ERROR, r, ctx)
      | Some service \<Rightarrow>
          if cx_upstream_name ctx \<noteq> None then (NGX_OK, upstream_uri ctx r, ctx)
          else case ngx_palloc r of
            (False, r1) \<Rightarrow> (NGX_HTTP_INTERNAL_SERVER_ERROR, r1, ctx)
          | (True, r1) \<Rightarrow>
              (case ngx_palloc r1 of
                 (False, r2) \<Rightarrow> (NGX_HTTP_INTERNAL_SERVER_ERROR, r2, ctx)
               | (True, r2) \<Rightarrow>
                   let upstream_val = svc_host service @ cstr '':'' @ svc_port service;
                       ctx1 = ctx\<lparr>cx_upstream_name := Some upstream_val\<rparr> in
                   (NGX_OK, upstream_uri ctx1 r2, ctx1)))"

text \<open>The variable \<open>$dmmr_upstream\<close>: \<open>None\<close> is \<open>not_found\<close>.\<close>

definition ngx_http_dmmr_upstream_variable ::
  "ngx_request \<Rightarrow> ngx_ctx option \<Rightarrow> bytes option \<times> ngx_request \<times> ngx_ctx option" where
  "ngx_http_dmmr_upstream_variable r ctx =
     (case ctx of
        None \<Rightarrow> (None, r, None)
      | Some c \<Rightarrow>
          (case (if cx_upstream_name c = None \<and> cx_service c \<noteq> None
                 then ngx_http_dmmr_upstream r c else (NGX_OK, r, c)) of
             (_, r1, c1) \<Rightarrow> (cx_upstream_name c1, r1, Some c1)))"

section \<open>The handler\<close>

definition ngx_http_dmmr_plugins :: "ngx_request \<Rightarrow> ngx_ctx \<Rightarrow> ngx_rc" where
  "ngx_http_dmmr_plugins r ctx = NGX_OK"

text \<open>What a worker holds beside the request: the context attached to it, the connections to the cache and the
  shared zone of the limiter.\<close>

record 'p gateway =
  gw_ctx :: "ngx_ctx option"
  gw_env :: auth_env
  gw_zone :: "'p rate_sh option"

definition ngx_http_dmmr_handler ::
  "ngx_api \<Rightarrow> 'p shm_api \<Rightarrow> ngx_conf option \<Rightarrow> ngx_conf option \<Rightarrow> u64 \<Rightarrow> ngx_request \<Rightarrow> 'p gateway \<Rightarrow>
     ngx_rc \<times> ngx_request \<times> 'p gateway" where
  "ngx_http_dmmr_handler nx S main_conf loc_conf now r g =
     (if loc_conf = None \<or> nc_enable (the loc_conf) \<noteq> Some True then (NGX_DECLINED, r, g)
      else case ngx_palloc r of
        (False, r1) \<Rightarrow> (NGX_HTTP_INTERNAL_SERVER_ERROR, r1, g)
      | (True, r1) \<Rightarrow>
          (case ngx_http_dmmr_router nx main_conf r1 ctx_zero of
             (rc, r2, ctx2) \<Rightarrow>
               if rc \<noteq> NGX_OK then (rc, r2, g\<lparr>gw_ctx := Some ctx2\<rparr>)
               else (case ngx_http_dmmr_auth nx loc_conf r2 ctx2 (gw_env g) of
                 (rc, r3, ctx3, env3) \<Rightarrow>
                   if rc \<noteq> NGX_OK then (rc, r3, g\<lparr>gw_ctx := Some ctx3, gw_env := env3\<rparr>)
                   else (case ngx_http_dmmr_rate_limit nx S loc_conf main_conf now r3 (gw_zone g) of
                     (rc, zone) \<Rightarrow>
                       let g4 = g\<lparr>gw_ctx := Some ctx3, gw_env := env3, gw_zone := zone\<rparr> in
                       if rc \<noteq> NGX_OK then (rc, r3, g4)
                       else let rc = ngx_http_dmmr_plugins r3 ctx3 in
                         if rc \<noteq> NGX_OK then (rc, r3, g4)
                         else (case ngx_http_dmmr_upstream r3 ctx3 of
                                 (rc, r5, ctx5) \<Rightarrow>
                                   (if rc \<noteq> NGX_OK then rc else NGX_OK, r5, g4\<lparr>gw_ctx := Some ctx5\<rparr>))))))"

section \<open>Directives\<close>

text \<open>\<open>args\<close> holds the name of the directive and its arguments; \<open>mem\<close> the outcomes of the allocations.  A
  directive that fails ends the reading of the configuration.\<close>

definition ngx_http_dmmr_enable :: "bytes list \<Rightarrow> ngx_conf \<Rightarrow> conf_result \<times> ngx_conf" where
  "ngx_http_dmmr_enable args kcf =
     (if length args \<noteq> 2 then (Conf_Error ''invalid number of arguments'', kcf)
      else if args ! 1 = cstr ''on'' then (NGX_CONF_OK, kcf\<lparr>nc_enable := Some True\<rparr>)
      else if args ! 1 = cstr ''off'' then (NGX_CONF_OK, kcf\<lparr>nc_enable := Some False\<rparr>)
      else (Conf_Error (''invalid value, must be '' @ [CHR 0x27] @ ''on'' @ [CHR 0x27] @ '' or '' @ [CHR 0x27] @ ''off'' @ [CHR 0x27]), kcf))"

text \<open>\<open>junk\<close> is what the new array element holds in the field the directive does not set.\<close>

definition ngx_http_dmmr_service :: "(nat \<Rightarrow> bool) \<Rightarrow> bytes \<Rightarrow> bytes list \<Rightarrow> ngx_conf \<Rightarrow> conf_result \<times> ngx_conf" where
  "ngx_http_dmmr_service mem junk args kcf =
     (if nc_services kcf = None \<and> \<not> mem 0 then (NGX_CONF_ERROR, kcf)
      else let services = (case nc_services kcf of None \<Rightarrow> [] | Some ss \<Rightarrow> ss) in
        if \<not> mem 1 then (NGX_CONF_ERROR, kcf\<lparr>nc_services := Some services\<rparr>)
        else (NGX_CONF_OK, kcf\<lparr>nc_services := Some (services @
          [\<lparr>svc_name = args ! 1, svc_protocol = cstr ''http'', svc_host = args ! 2, svc_port = args ! 3, svc_path = junk\<rparr>])\<rparr>))"

definition ngx_http_dmmr_route :: "(nat \<Rightarrow> bool) \<Rightarrow> bytes list \<Rightarrow> ngx_conf \<Rightarrow> conf_result \<times> ngx_conf" where
  "ngx_http_dmmr_route mem args kcf =
     (if nc_routes kcf = None \<and> \<not> mem 0 then (NGX_CONF_ERROR, kcf)
      else let routes = (case nc_routes kcf of None \<Rightarrow> [] | Some rs \<Rightarrow> rs) in
        if \<not> mem 1 \<or> \<not> mem 2 \<or> \<not> mem 3 \<or> \<not> mem 4 then (NGX_CONF_ERROR, kcf\<lparr>nc_routes := Some routes\<rparr>)
        else (NGX_CONF_OK, kcf\<lparr>nc_routes := Some (routes @
          [\<lparr>rt_path = args ! 1, rt_method = [], rt_service_name = Some (args ! 2), rt_hosts = None, rt_strip_path = False,
            rt_preserve_host = False, rt_priority = 0\<rparr>])\<rparr>))"

definition ngx_http_dmmr_rate_limit_set :: "ngx_api \<Rightarrow> bytes list \<Rightarrow> ngx_conf \<Rightarrow> conf_result \<times> ngx_conf" where
  "ngx_http_dmmr_rate_limit_set nx args kcf =
     (if length args \<noteq> 2 then (Conf_Error ''invalid number of arguments'', kcf)
      else let limit = nx_atoi nx (args ! 1) in
        if limit \<le> 0 then (Conf_Error ''invalid value'', kcf)
        else (NGX_CONF_OK, kcf\<lparr>nc_rate_limit := of_int limit\<rparr>))"

definition ngx_http_dmmr_rate_window_set :: "ngx_api \<Rightarrow> bytes list \<Rightarrow> ngx_conf \<Rightarrow> conf_result \<times> ngx_conf" where
  "ngx_http_dmmr_rate_window_set nx args kcf =
     (if length args \<noteq> 2 then (Conf_Error ''invalid number of arguments'', kcf)
      else let window = nx_atoi nx (args ! 1) in
        if window \<le> 0 then (Conf_Error ''invalid value'', kcf)
        else (NGX_CONF_OK, kcf\<lparr>nc_rate_window := of_int window\<rparr>))"

section \<open>Configurations\<close>

definition ngx_http_dmmr_create_main_conf :: "bool \<Rightarrow> ngx_conf option" where
  "ngx_http_dmmr_create_main_conf mem_ok =
     (if \<not> mem_ok then None
      else Some \<lparr>nc_enable = None, nc_services = None, nc_routes = None, nc_cache_addr = None, nc_rate_limit = 100,
        nc_rate_window = 60000, nc_rate_zone = None\<rparr>)"

definition ngx_http_dmmr_create_srv_conf :: "bool \<Rightarrow> ngx_conf option" where
  "ngx_http_dmmr_create_srv_conf mem_ok = ngx_http_dmmr_create_main_conf mem_ok"

definition ngx_http_dmmr_create_loc_conf :: "bool \<Rightarrow> ngx_conf option" where
  "ngx_http_dmmr_create_loc_conf mem_ok = ngx_http_dmmr_create_main_conf mem_ok"

definition ngx_http_dmmr_merge_srv_conf :: "ngx_conf \<Rightarrow> ngx_conf \<Rightarrow> conf_result \<times> ngx_conf" where
  "ngx_http_dmmr_merge_srv_conf prev conf =
     (NGX_CONF_OK, conf\<lparr>
        nc_services := (if nc_services conf = None then nc_services prev else nc_services conf),
        nc_routes := (if nc_routes conf = None then nc_routes prev else nc_routes conf),
        nc_cache_addr := (if nc_cache_addr conf = None \<or> nc_cache_addr conf = Some [] then nc_cache_addr prev else nc_cache_addr conf),
        nc_enable := (if nc_enable conf = None then nc_enable prev else nc_enable conf),
        nc_rate_limit := (if nc_rate_limit conf = 100 \<and> nc_rate_limit prev \<noteq> 100 then nc_rate_limit prev else nc_rate_limit conf),
        nc_rate_window := (if nc_rate_window conf = 60000 \<and> nc_rate_window prev \<noteq> 60000 then nc_rate_window prev else nc_rate_window conf)\<rparr>)"

definition ngx_http_dmmr_merge_loc_conf :: "ngx_api \<Rightarrow> ngx_conf \<Rightarrow> ngx_conf \<Rightarrow> conf_result \<times> ngx_conf" where
  "ngx_http_dmmr_merge_loc_conf nx prev conf =
     (NGX_CONF_OK, conf\<lparr>
        nc_enable := nx_merge_flag nx (nc_enable conf) (nc_enable prev) False,
        nc_services := (if nc_services conf = None then nc_services prev else nc_services conf),
        nc_routes := (if nc_routes conf = None then nc_routes prev else nc_routes conf),
        nc_cache_addr := nx_merge_str nx (nc_cache_addr conf) (nc_cache_addr prev) (cstr ''unix:/tmp/dmmr_cache.sock''),
        nc_rate_limit := nx_merge_uint nx (nc_rate_limit conf) (nc_rate_limit prev) 100,
        nc_rate_window := nx_merge_uint nx (nc_rate_window conf) (nc_rate_window prev) 60000\<rparr>)"

text \<open>Whether the handler was registered for the access phase, and the configuration with its zone.\<close>

definition ngx_http_dmmr_postconfiguration :: "bool \<Rightarrow> bool \<Rightarrow> ngx_conf option \<Rightarrow> ngx_rc \<times> bool \<times> ngx_conf option" where
  "ngx_http_dmmr_postconfiguration shm_added pushed main_conf =
     (case main_conf of
        None \<Rightarrow> (NGX_ERROR, False, None)
      | Some mc \<Rightarrow>
          (case ngx_http_dmmr_rate_init shm_added mc of
             (rc, mc1) \<Rightarrow>
               if rc \<noteq> NGX_OK then (NGX_ERROR, False, Some mc1)
               else if \<not> pushed then (NGX_ERROR, False, Some mc1)
               else (NGX_OK, True, Some mc1)))"

section \<open>Facts about the configuration\<close>

text \<open>Routes that come from \<open>dmmr_route\<close> have no priority, so the first one that applies wins, also over a longer path
  configured after it.\<close>

lemma first_route_wins:
  assumes "\<forall>rt \<in> set rs. rt_priority rt = 0" and "best_at r rs i"
  shows "\<forall>j < i. \<not> route_applies r (rs ! j)"
  using assms unfolding best_at_def by (auto dest: less_trans simp: nth_mem)

lemma route_directive:
  assumes "ngx_http_dmmr_route mem args kcf = (NGX_CONF_OK, kcf')"
  shows "\<exists>rt. nc_routes kcf' = Some ((case nc_routes kcf of None \<Rightarrow> [] | Some rs \<Rightarrow> rs) @ [rt])
    \<and> rt_path rt = args ! 1 \<and> rt_service_name rt = Some (args ! 2) \<and> rt_priority rt = 0 \<and> \<not> rt_strip_path rt"
  using assms by (auto simp: ngx_http_dmmr_route_def Let_def split: if_splits)

text \<open>
  A location created without a limit of its own already holds 100 requests per 60000 ms, which are not the unset
  value: a limit or a window configured for the server or for all servers never reaches it.
\<close>

lemma location_ignores_outer_limit:
  assumes "ngx_api_ok nx" and "ngx_http_dmmr_create_loc_conf True = Some conf"
  shows "nc_rate_limit (snd (ngx_http_dmmr_merge_loc_conf nx prev conf)) = 100"
    and "nc_rate_window (snd (ngx_http_dmmr_merge_loc_conf nx prev conf)) = 60000"
  using assms
  by (auto simp: ngx_http_dmmr_create_loc_conf_def ngx_http_dmmr_create_main_conf_def ngx_http_dmmr_merge_loc_conf_def
      ngx_merge_uintD)

text \<open>The switch and the address of the cache are inherited; without either the gateway is off, and the address is the
  local socket.\<close>

lemma location_inherits:
  assumes "ngx_api_ok nx" and "ngx_http_dmmr_create_loc_conf True = Some conf"
  shows "nc_enable (snd (ngx_http_dmmr_merge_loc_conf nx prev conf)) =
      (if nc_enable prev = None then Some False else nc_enable prev)"
    and "nc_cache_addr (snd (ngx_http_dmmr_merge_loc_conf nx prev conf)) =
      (if nc_cache_addr prev = None then Some (cstr ''unix:/tmp/dmmr_cache.sock'') else nc_cache_addr prev)"
  using assms
  by (auto simp: ngx_http_dmmr_create_loc_conf_def ngx_http_dmmr_create_main_conf_def ngx_http_dmmr_merge_loc_conf_def
      ngx_api_ok_def)

section \<open>The stages of the handler\<close>

lemma upstream_ok:
  assumes "ngx_http_dmmr_upstream r ctx = (NGX_OK, r', ctx')" and "cx_upstream_name ctx = None"
  shows "\<exists>sv. cx_service ctx = Some sv \<and> ctx' = ctx\<lparr>cx_upstream_name := Some (svc_host sv @ cstr '':'' @ svc_port sv)\<rparr>
    \<and> rq_uri r' = (case cx_new_uri ctx of None \<Rightarrow> rq_uri r | Some u \<Rightarrow> u)"
  using assms
  by (auto simp: ngx_http_dmmr_upstream_def upstream_uri_def Let_def split: option.splits prod.splits bool.splits if_splits)

text \<open>The stages before the last one change nothing of the request but its pool.\<close>

definition same_request :: "ngx_request \<Rightarrow> ngx_request \<Rightarrow> bool" where
  "same_request r r' \<longleftrightarrow> (\<exists>m. r' = r\<lparr>rq_mem := m\<rparr>)"

lemma same_request_refl [simp]: "same_request r r"
  unfolding same_request_def by (rule exI [of _ "rq_mem r"]) simp

lemma same_request_trans: "same_request r s \<Longrightarrow> same_request s t \<Longrightarrow> same_request r t"
  unfolding same_request_def by auto

lemma palloc_same: "ngx_palloc r = (ok, r') \<Longrightarrow> same_request r r'"
  unfolding same_request_def ngx_palloc_def by blast

lemma strip_uri_keeps:
  "strip_uri rt r ctx = (rc, r', ctx') \<Longrightarrow> same_request r r' \<and> cx_upstream_name ctx' = cx_upstream_name ctx
     \<and> cx_authenticated ctx' = cx_authenticated ctx"
  by (auto simp: strip_uri_def dest!: palloc_same intro: same_request_trans split: prod.splits bool.splits if_splits)

lemma router_keeps:
  assumes "ngx_http_dmmr_router nx mc r ctx = (rc, r', ctx')"
  shows "same_request r r' \<and> cx_upstream_name ctx' = cx_upstream_name ctx \<and> cx_authenticated ctx' = cx_authenticated ctx"
  using assms
  by (auto simp: ngx_http_dmmr_router_def Let_def dest!: strip_uri_keeps split: option.splits if_splits)

lemma find_service_sound: "find_service name ss = Some sv \<Longrightarrow> sv \<in> set ss \<and> svc_name sv = name"
  by (induction ss) (auto split: if_splits)

lemma strip_uri_sound:
  "strip_uri rt r ctx = (NGX_OK, r', ctx') \<Longrightarrow> ctx' = ctx\<lparr>cx_new_uri := Some (stripped rt (rq_uri r))\<rparr>"
  by (cases "drop (length (rt_path rt)) (rq_uri r)")
    (auto simp: strip_uri_def stripped_def split: prod.splits bool.splits if_splits)

lemma router_service:
  assumes "ngx_http_dmmr_router nx main r ctx_zero = (NGX_OK, r', ctx')" and "cx_service ctx' = Some sv"
  shows "\<exists>mc best. main = Some mc \<and> best_route_loop nx r None (the (nc_routes mc)) = Some best
    \<and> rt_service_name best = Some (svc_name sv) \<and> sv \<in> set (the (nc_services mc))
    \<and> cx_new_uri ctx' = (if rt_strip_path best then Some (stripped best (rq_uri r)) else None)"
proof -
  obtain mc best where mc: "main = Some mc" "\<not> (nc_routes mc = None \<or> nc_routes mc = Some [])"
    and best: "best_route_loop nx r None (the (nc_routes mc)) = Some best"
    using assms(1) by (auto simp: ngx_http_dmmr_router_def split: option.splits if_splits)
  have named: "rt_service_name best \<noteq> None \<and> nc_services mc \<noteq> None"
  proof (rule ccontr)
    assume "\<not> ?thesis"
    then have "cx_service ctx' = None"
      using assms(1) mc best
      by (auto simp: ngx_http_dmmr_router_def Let_def ctx_zero_def dest: strip_uri_sound split: if_splits)
    then show False using assms(2) by simp
  qed
  then obtain name ss where ss: "rt_service_name best = Some name" "nc_services mc = Some ss" by blast
  have run: "(case find_service name ss of None \<Rightarrow> (NGX_HTTP_INTERNAL_SERVER_ERROR, r, ctx_zero\<lparr>cx_route := Some best\<rparr>)
      | Some s \<Rightarrow> if rt_strip_path best then strip_uri best r (ctx_zero\<lparr>cx_route := Some best, cx_service := Some s\<rparr>)
          else (NGX_OK, r, ctx_zero\<lparr>cx_route := Some best, cx_service := Some s\<rparr>)) = (NGX_OK, r', ctx')"
    using assms(1) mc best ss
    by (cases "find_service name ss"; cases "rt_strip_path best") (simp_all add: ngx_http_dmmr_router_def Let_def ctx_zero_def)
  then obtain s where s: "find_service name ss = Some s" by (auto split: option.splits)
  show ?thesis
    using run s mc(1) best ss assms(2) find_service_sound [OF s]
    by (auto simp: ctx_zero_def dest!: strip_uri_sound split: if_splits)
qed

lemma cache_attempt_keeps: "cache_attempt nx req a r env = (x, r', env') \<Longrightarrow> same_request r r'"
  by (auto simp: cache_attempt_def Let_def dest!: palloc_same split: prod.splits bool.splits option.splits if_splits)

lemma cache_attempts_keeps: "cache_attempts nx req as r env = (res, r', env') \<Longrightarrow> same_request r r'"
proof (induction as arbitrary: r env)
  case Nil
  then show ?case by simp
next
  case (Cons a as)
  obtain x r1 env1 where at: "cache_attempt nx req a r env = (x, r1, env1)" by (cases "cache_attempt nx req a r env")
  note first = cache_attempt_keeps [OF at]
  show ?case
  proof (cases x)
    case None
    then show ?thesis
      using Cons.IH [of r1 env1] Cons.prems at same_request_trans [OF first] by simp
  next
    case (Some y)
    then show ?thesis using Cons.prems at first by simp
  qed
qed

lemma send_cache_request_keeps:
  "ngx_http_dmmr_send_cache_request nx loc key r env = (rc, user, r', env') \<Longrightarrow> same_request r r'"
  by (auto simp: ngx_http_dmmr_send_cache_request_def Let_def dest!: cache_attempts_keeps split: option.splits prod.splits if_splits)

lemma auth_keeps:
  assumes "ngx_http_dmmr_auth nx loc r ctx env = (rc, r', ctx', env')"
  shows "same_request r r' \<and> cx_upstream_name ctx' = cx_upstream_name ctx \<and> cx_service ctx' = cx_service ctx
    \<and> cx_route ctx' = cx_route ctx \<and> cx_new_uri ctx' = cx_new_uri ctx"
  using assms
  by (auto simp: ngx_http_dmmr_auth_def ngx_http_dmmr_verify_key_api_def dest!: send_cache_request_keeps palloc_same
      intro: same_request_trans split: option.splits prod.splits bool.splits if_splits)

lemma best_route_loop_pool: "best_route_loop nx (r\<lparr>rq_mem := m\<rparr>) best rs = best_route_loop nx r best rs"
  by (induction rs arbitrary: best) (simp_all add: route_passes_def)

lemma extract_pool: "ngx_http_dmmr_extract_credential nx (r\<lparr>rq_mem := m\<rparr>) = ngx_http_dmmr_extract_credential nx r"
proof -
  have "rq_headers (r\<lparr>rq_mem := m\<rparr>) = rq_headers r" "rq_args_len (r\<lparr>rq_mem := m\<rparr>) = rq_args_len r"
    "rq_args_mem (r\<lparr>rq_mem := m\<rparr>) = rq_args_mem r"
    by simp_all
  then show ?thesis
    unfolding ngx_http_dmmr_extract_credential_def by (simp only:)
qed

lemma rate_limit_pool:
  "ngx_http_dmmr_rate_limit nx S c mc now (r\<lparr>rq_mem := m\<rparr>) z = ngx_http_dmmr_rate_limit nx S c mc now r z"
  by (simp add: ngx_http_dmmr_rate_limit_def)

lemma same_request_eqs:
  assumes "same_request r r'"
  shows "rq_uri r' = rq_uri r" and "ngx_http_dmmr_extract_credential nx r' = ngx_http_dmmr_extract_credential nx r"
    and "ngx_http_dmmr_rate_limit nx S c mc now r' z = ngx_http_dmmr_rate_limit nx S c mc now r z"
    and "best_route_loop nx r' best rs = best_route_loop nx r best rs"
  using assms
  by (auto simp: same_request_def extract_pool rate_limit_pool best_route_loop_pool)

text \<open>The runs of the handler that end with \<open>NGX_OK\<close>, stage by stage.\<close>

lemma handler_ok:
  assumes "ngx_http_dmmr_handler nx S main loc now r g = (NGX_OK, r', g')"
  obtains r1 r2 ctx2 r3 ctx3 ctx5 where
    "loc \<noteq> None" "nc_enable (the loc) = Some True" "same_request r r1"
    "ngx_http_dmmr_router nx main r1 ctx_zero = (NGX_OK, r2, ctx2)"
    "ngx_http_dmmr_auth nx loc r2 ctx2 (gw_env g) = (NGX_OK, r3, ctx3, gw_env g')"
    "ngx_http_dmmr_rate_limit nx S loc main now r3 (gw_zone g) = (NGX_OK, gw_zone g')"
    "ngx_http_dmmr_upstream r3 ctx3 = (NGX_OK, r', ctx5)" "gw_ctx g' = Some ctx5"
  using assms
  by (auto simp: ngx_http_dmmr_handler_def ngx_http_dmmr_plugins_def Let_def dest: palloc_same
      split: if_splits bool.splits prod.splits)

text \<open>The zone changes only after the request was authenticated.\<close>

lemma handler_zone:
  assumes "ngx_http_dmmr_handler nx S main loc now r g = (rc, r', g')" and "gw_zone g' \<noteq> gw_zone g"
  shows "\<exists>r2 ctx2 r3 ctx3. same_request r r2 \<and> ngx_http_dmmr_auth nx loc r2 ctx2 (gw_env g) = (NGX_OK, r3, ctx3, gw_env g')"
proof -
  obtain ok r1 where p: "ngx_palloc r = (ok, r1)" by (cases "ngx_palloc r")
  obtain rc2 r2 ctx2 where t: "ngx_http_dmmr_router nx main r1 ctx_zero = (rc2, r2, ctx2)"
    by (cases "ngx_http_dmmr_router nx main r1 ctx_zero")
  obtain rc3 r3 ctx3 env3 where a: "ngx_http_dmmr_auth nx loc r2 ctx2 (gw_env g) = (rc3, r3, ctx3, env3)"
    by (cases "ngx_http_dmmr_auth nx loc r2 ctx2 (gw_env g)")
  have "rc3 = NGX_OK \<and> gw_env g' = env3"
    using assms p t a
    by (auto simp: ngx_http_dmmr_handler_def Let_def split: if_splits bool.splits prod.splits)
  then show ?thesis
    using a same_request_trans [OF palloc_same [OF p]] router_keeps [OF t] by blast
qed

definition may_pass :: "ngx_api \<Rightarrow> ngx_conf option \<Rightarrow> ngx_request \<Rightarrow> auth_env \<Rightarrow> auth_env \<Rightarrow> bool" where
  "may_pass nx loc r env env' \<longleftrightarrow>
     prefix (cstr ''/public'') (rq_uri r) \<or>
     (\<exists>kcf key user. loc = Some kcf \<and> ngx_http_dmmr_extract_credential nx r = Some key \<and>
        granted nx (cache_candidates (nc_cache_addr kcf)) key env env' user)"

lemma auth_may_pass:
  assumes "ngx_http_dmmr_auth nx loc r2 ctx2 env = (NGX_OK, r3, ctx3, env')" and "same_request r r2"
  shows "may_pass nx loc r env env' \<and> cx_authenticated ctx3"
  using auth_closed [OF assms(1)] same_request_eqs(1,2) [OF assms(2)] unfolding may_pass_def by auto

section \<open>Properties\<close>

text \<open>
  C3: the gateway as a whole.  A request passes the handler only when the location has it switched on, a configured
  route was chosen and its service is known, the request may pass authentication, and the limiter counted and
  admitted it; then the upstream is \<open>host:port\<close> of that service and the URI the rewritten one.  And whatever the
  answer, the counters of the limiter change only for requests that may pass authentication.
\<close>

theorem gateway_admits:
  assumes "ngx_http_dmmr_handler nx S main loc now r g = (rc, r', g')"
  shows "(rc = NGX_OK \<longrightarrow>
      (\<exists>lc mc best sv ctx. loc = Some lc \<and> nc_enable lc = Some True \<and> main = Some mc \<and>
         best_route_loop nx r None (the (nc_routes mc)) = Some best \<and>
         rt_service_name best = Some (svc_name sv) \<and> sv \<in> set (the (nc_services mc)) \<and>
         may_pass nx loc r (gw_env g) (gw_env g') \<and>
         ngx_http_dmmr_rate_limit nx S loc main now r (gw_zone g) = (NGX_OK, gw_zone g') \<and>
         gw_ctx g' = Some ctx \<and> cx_authenticated ctx \<and> cx_service ctx = Some sv \<and>
         cx_upstream_name ctx = Some (svc_host sv @ cstr '':'' @ svc_port sv) \<and>
         rq_uri r' = (if rt_strip_path best then stripped best (rq_uri r) else rq_uri r)))
    \<and> (gw_zone g' \<noteq> gw_zone g \<longrightarrow> may_pass nx loc r (gw_env g) (gw_env g'))"
proof (rule conjI; rule impI)
  assume "gw_zone g' \<noteq> gw_zone g"
  then show "may_pass nx loc r (gw_env g) (gw_env g')"
    using handler_zone [OF assms] auth_may_pass by blast
next
  assume "rc = NGX_OK"
  then obtain r1 r2 ctx2 r3 ctx3 ctx where lc: "loc \<noteq> None" "nc_enable (the loc) = Some True"
    and r1: "same_request r r1" and route: "ngx_http_dmmr_router nx main r1 ctx_zero = (NGX_OK, r2, ctx2)"
    and auth: "ngx_http_dmmr_auth nx loc r2 ctx2 (gw_env g) = (NGX_OK, r3, ctx3, gw_env g')"
    and rate: "ngx_http_dmmr_rate_limit nx S loc main now r3 (gw_zone g) = (NGX_OK, gw_zone g')"
    and up: "ngx_http_dmmr_upstream r3 ctx3 = (NGX_OK, r', ctx)" and ctx: "gw_ctx g' = Some ctx"
    using handler_ok assms by metis
  have r2: "same_request r r2" and r3: "same_request r r3" and none: "cx_upstream_name ctx3 = None"
    using same_request_trans [OF r1] same_request_trans router_keeps [OF route] auth_keeps [OF auth]
    by (auto simp: ctx_zero_def)
  obtain sv where sv: "cx_service ctx3 = Some sv" "ctx = ctx3\<lparr>cx_upstream_name := Some (svc_host sv @ cstr '':'' @ svc_port sv)\<rparr>"
    "rq_uri r' = (case cx_new_uri ctx3 of None \<Rightarrow> rq_uri r3 | Some u \<Rightarrow> u)"
    using upstream_ok [OF up none] by blast
  have "cx_service ctx2 = Some sv" "cx_new_uri ctx3 = cx_new_uri ctx2"
    using sv(1) auth_keeps [OF auth] by auto
  then obtain mc best where mc: "main = Some mc" "best_route_loop nx r1 None (the (nc_routes mc)) = Some best"
    "rt_service_name best = Some (svc_name sv)" "sv \<in> set (the (nc_services mc))"
    "cx_new_uri ctx3 = (if rt_strip_path best then Some (stripped best (rq_uri r1)) else None)"
    using router_service [OF route] by auto
  have rated: "ngx_http_dmmr_rate_limit nx S loc main now r (gw_zone g) = (NGX_OK, gw_zone g')"
    using rate by (simp add: same_request_eqs(3) [OF r3])
  show "\<exists>lc mc best sv ctx. loc = Some lc \<and> nc_enable lc = Some True \<and> main = Some mc \<and>
         best_route_loop nx r None (the (nc_routes mc)) = Some best \<and>
         rt_service_name best = Some (svc_name sv) \<and> sv \<in> set (the (nc_services mc)) \<and>
         may_pass nx loc r (gw_env g) (gw_env g') \<and>
         ngx_http_dmmr_rate_limit nx S loc main now r (gw_zone g) = (NGX_OK, gw_zone g') \<and>
         gw_ctx g' = Some ctx \<and> cx_authenticated ctx \<and> cx_service ctx = Some sv \<and>
         cx_upstream_name ctx = Some (svc_host sv @ cstr '':'' @ svc_port sv) \<and>
         rq_uri r' = (if rt_strip_path best then stripped best (rq_uri r) else rq_uri r)"
    using lc mc sv ctx rated auth_may_pass [OF auth r2] same_request_eqs [OF r1] same_request_eqs [OF r3]
    by (intro exI [of _ "the loc"] exI [of _ mc] exI [of _ best] exI [of _ sv] exI [of _ ctx]) auto
qed

section \<open>Witnesses\<close>

definition demo_gateway :: "nat list gateway" where
  "demo_gateway = \<lparr>gw_ctx = None, gw_env = demo_env demo_reply, gw_zone = Some demo_zone\<rparr>"

lemma demo_rate:
  "fst (ngx_http_dmmr_rate_limit demo_api demo_shm (Some demo_conf) (Some demo_conf) 5 demo_request (Some demo_zone)) = NGX_OK"
  by (simp add: demo_conf_def demo_request_def demo_zone_def demo_shm_def demo_api_def ngx_http_dmmr_rate_zone_init_def
      ngx_http_dmmr_rate_limit_def rate_locked_def rate_hit_def rate_alloc_def rate_add_def rate_drop_def key_cmp_def
      ngx_http_dmmr_rate_expire.simps Let_def)

lemma demo_handler:
  "\<exists>r' g'. ngx_http_dmmr_handler demo_api demo_shm (Some demo_conf) (Some demo_conf) 5 demo_request demo_gateway = (NGX_OK, r', g')"
proof -
  have pool: "ngx_palloc demo_request = (True, demo_request)" and on: "nc_enable demo_conf = Some True"
    by (simp_all add: ngx_palloc_def demo_request_def demo_conf_def)
  define ctx2 where "ctx2 = ctx_zero\<lparr>cx_route := Some (demo_route (cstr ''/v'') 1),
    cx_service := Some (hd (the (nc_services demo_conf))), cx_new_uri := Some (cstr ''x'')\<rparr>"
  have route: "ngx_http_dmmr_router demo_api (Some demo_conf) demo_request ctx_zero = (NGX_OK, demo_request, ctx2)"
    by (simp add: ngx_http_dmmr_router_def strip_uri_def ctx2_def demo_conf_def demo_route_def route_passes_def
        ngx_http_dmmr_match_path_def ngx_http_dmmr_match_method_def ngx_http_dmmr_match_host_def ngx_palloc_def demo_request_def ctx_zero_def Let_def)
  obtain r3 env3 where r3: "pool_ok r3" and auth: "ngx_http_dmmr_auth demo_api (Some demo_conf) demo_request ctx2 (demo_env demo_reply)
      = (NGX_OK, r3, ctx2\<lparr>cx_authenticated := True, cx_auth_user := Some (Some (cstr ''u''))\<rparr>, env3)"
    using demo_auth by blast
  have "same_request demo_request r3" using auth_keeps [OF auth] by blast
  then have "fst (ngx_http_dmmr_rate_limit demo_api demo_shm (Some demo_conf) (Some demo_conf) 5 r3 (Some demo_zone)) = NGX_OK"
    using demo_rate by (simp only: same_request_eqs(3))
  then obtain z where rate: "ngx_http_dmmr_rate_limit demo_api demo_shm (Some demo_conf) (Some demo_conf) 5 r3 (Some demo_zone) = (NGX_OK, z)"
    by (metis prod.collapse)
  obtain r4 where r4: "ngx_palloc r3 = (True, r4)" "pool_ok r4" using r3 by (rule pool_okE)
  obtain r5 where r5: "ngx_palloc r4 = (True, r5)" using r4(2) by (rule pool_okE)
  have "fst (ngx_http_dmmr_upstream r3 (ctx2\<lparr>cx_authenticated := True, cx_auth_user := Some (Some (cstr ''u''))\<rparr>)) = NGX_OK"
    by (simp add: ngx_http_dmmr_upstream_def ctx2_def ctx_zero_def r4 r5 Let_def)
  then obtain r6 ctx6 where "ngx_http_dmmr_upstream r3 (ctx2\<lparr>cx_authenticated := True, cx_auth_user := Some (Some (cstr ''u''))\<rparr>)
      = (NGX_OK, r6, ctx6)"
    by (metis prod.collapse)
  then show ?thesis
    by (simp add: ngx_http_dmmr_handler_def demo_gateway_def on pool route auth rate ngx_http_dmmr_plugins_def Let_def)
qed

theorem gateway_admits_witness:
  "\<exists>r' g' ctx. ngx_http_dmmr_handler demo_api demo_shm (Some demo_conf) (Some demo_conf) 5 demo_request demo_gateway = (NGX_OK, r', g')
    \<and> gw_ctx g' = Some ctx \<and> cx_authenticated ctx \<and> cx_upstream_name ctx = Some (cstr ''h:80'')"
proof -
  obtain r' g' where run: "ngx_http_dmmr_handler demo_api demo_shm (Some demo_conf) (Some demo_conf) 5 demo_request demo_gateway
      = (NGX_OK, r', g')"
    using demo_handler by blast
  have "svc_host sv = cstr ''h'' \<and> svc_port sv = cstr ''80''" if "sv \<in> set (the (nc_services demo_conf))" for sv
    using that by (simp add: demo_conf_def)
  then show ?thesis
    using gateway_admits [OF run] run by fastforce
qed

end
