(* ===== verification/Ngx_Conf.thy ===== *)
theory Ngx_Conf
  imports Ngx_Module
begin

text \<open>
  The tables of \<open>ngx_http_dmmr_module.c\<close>: its directives, its variable, and the registration of the variable.
  nginx reads the tables; a directive is accepted where its flags allow it: at the levels they name and with exactly
  the number of arguments of \<open>NGX_CONF_TAKE\<open>n\<close>\<close>.  \<open>ngx_conf_set_str_slot\<close> is a function of nginx and a parameter here.
\<close>

section \<open>Directives\<close>

datatype conf_level = Main_Conf | Srv_Conf | Loc_Conf

datatype directive_set =
    Set_Enable | Set_Service | Set_Route | Set_Cache_Addr | Set_Rate_Limit | Set_Rate_Window | Set_Rate_Zone

record ngx_command =
  cmd_name :: bytes
  cmd_levels :: "conf_level list"
  cmd_take :: nat
  cmd_set :: directive_set
  cmd_conf :: conf_level

definition ngx_http_dmmr_commands :: "ngx_command list" where
  "ngx_http_dmmr_commands =
     [\<lparr>cmd_name = cstr ''dmmr_enable'', cmd_levels = [Main_Conf, Srv_Conf, Loc_Conf], cmd_take = 1,
        cmd_set = Set_Enable, cmd_conf = Loc_Conf\<rparr>,
      \<lparr>cmd_name = cstr ''dmmr_service'', cmd_levels = [Main_Conf, Srv_Conf, Loc_Conf], cmd_take = 3,
        cmd_set = Set_Service, cmd_conf = Main_Conf\<rparr>,
      \<lparr>cmd_name = cstr ''dmmr_route'', cmd_levels = [Main_Conf, Srv_Conf, Loc_Conf], cmd_take = 2,
        cmd_set = Set_Route, cmd_conf = Main_Conf\<rparr>,
      \<lparr>cmd_name = cstr ''dmmr_cache_addr'', cmd_levels = [Main_Conf, Srv_Conf, Loc_Conf], cmd_take = 1,
        cmd_set = Set_Cache_Addr, cmd_conf = Loc_Conf\<rparr>,
      \<lparr>cmd_name = cstr ''dmmr_rate_limit'', cmd_levels = [Main_Conf, Srv_Conf, Loc_Conf], cmd_take = 1,
        cmd_set = Set_Rate_Limit, cmd_conf = Loc_Conf\<rparr>,
      \<lparr>cmd_name = cstr ''dmmr_rate_window'', cmd_levels = [Main_Conf, Srv_Conf, Loc_Conf], cmd_take = 1,
        cmd_set = Set_Rate_Window, cmd_conf = Loc_Conf\<rparr>,
      \<lparr>cmd_name = cstr ''dmmr_rate_zone'', cmd_levels = [Main_Conf], cmd_take = 1,
        cmd_set = Set_Rate_Zone, cmd_conf = Main_Conf\<rparr>]"

definition directive_accepted :: "conf_level \<Rightarrow> bytes list \<Rightarrow> ngx_command \<Rightarrow> bool" where
  "directive_accepted level args cmd \<longleftrightarrow>
     args \<noteq> [] \<and> hd args = cmd_name cmd \<and> level \<in> set (cmd_levels cmd) \<and> length args = Suc (cmd_take cmd)"

text \<open>The call \<open>cmd->set (cf, cmd, conf)\<close>, on the configuration \<open>cmd_conf\<close> selects.\<close>

definition call_set ::
  "ngx_api \<Rightarrow> (bytes \<Rightarrow> ngx_str \<Rightarrow> conf_result \<times> ngx_str) \<Rightarrow> (nat \<Rightarrow> bool) \<Rightarrow> bytes \<Rightarrow> bool \<Rightarrow> ngx_command \<Rightarrow>
     bytes list \<Rightarrow> ngx_conf \<Rightarrow> conf_result \<times> ngx_conf" where
  "call_set nx set_str_slot mem junk shm_added cmd args kcf =
     (case cmd_set cmd of
        Set_Enable \<Rightarrow> ngx_http_dmmr_enable args kcf
      | Set_Service \<Rightarrow> ngx_http_dmmr_service mem junk args kcf
      | Set_Route \<Rightarrow> ngx_http_dmmr_route mem args kcf
      | Set_Cache_Addr \<Rightarrow> (case set_str_slot (args ! 1) (nc_cache_addr kcf) of (rc, a) \<Rightarrow> (rc, kcf\<lparr>nc_cache_addr := a\<rparr>))
      | Set_Rate_Limit \<Rightarrow> ngx_http_dmmr_rate_limit_set nx args kcf
      | Set_Rate_Window \<Rightarrow> ngx_http_dmmr_rate_window_set nx args kcf
      | Set_Rate_Zone \<Rightarrow> ngx_http_dmmr_rate_zone nx shm_added (args ! 1) kcf)"

definition ngx_http_dmmr_init_main_conf :: "ngx_conf \<Rightarrow> conf_result \<times> ngx_conf" where
  "ngx_http_dmmr_init_main_conf conf = (NGX_CONF_OK, conf)"

section \<open>Variables\<close>

datatype var_handler = Upstream_Variable

record ngx_var =
  var_name :: bytes
  var_get :: var_handler
  var_nocacheable :: bool

definition ngx_http_dmmr_vars :: "ngx_var list" where
  "ngx_http_dmmr_vars = [\<lparr>var_name = cstr ''dmmr_upstream'', var_get = Upstream_Variable, var_nocacheable = True\<rparr>]"

text \<open>\<open>added\<close> tells for which names \<open>ngx_http_add_variable\<close> succeeds; the second result lists the variables with their
  handlers installed.\<close>

fun add_variables :: "(bytes \<Rightarrow> bool) \<Rightarrow> ngx_var list \<Rightarrow> ngx_rc \<times> ngx_var list" where
  "add_variables added [] = (NGX_OK, [])"
| "add_variables added (v # vs) =
     (if \<not> added (var_name v) then (NGX_ERROR, [])
      else case add_variables added vs of (rc, installed) \<Rightarrow> (rc, v # installed))"

definition ngx_http_dmmr_preconfiguration :: "(bytes \<Rightarrow> bool) \<Rightarrow> ngx_rc \<times> ngx_var list" where
  "ngx_http_dmmr_preconfiguration added = add_variables added ngx_http_dmmr_vars"

section \<open>Facts\<close>

lemma add_variables_ok:
  "fst (add_variables added vs) = NGX_OK \<longleftrightarrow> (\<forall>v \<in> set vs. added (var_name v))"
  "fst (add_variables added vs) = NGX_OK \<Longrightarrow> snd (add_variables added vs) = vs"
  by (induction vs) (auto simp: case_prod_beta split: if_splits)

lemma command_names_distinct: "distinct (map cmd_name ngx_http_dmmr_commands)"
  by (simp add: ngx_http_dmmr_commands_def)

text \<open>A directive the table accepts finds its arguments: a handler that counts them never complains, and the ones that
  do not count read positions that exist.\<close>

definition reads_upto :: "directive_set \<Rightarrow> nat" where
  "reads_upto d = (case d of Set_Service \<Rightarrow> 3 | Set_Route \<Rightarrow> 2 | _ \<Rightarrow> 1)"

theorem directives_find_arguments:
  assumes "cmd \<in> set ngx_http_dmmr_commands" and "directive_accepted level args cmd"
    and "call_set nx set_str_slot mem junk shm_added cmd args kcf = (rc, kcf')"
  shows "reads_upto (cmd_set cmd) < length args \<and>
    (cmd_set cmd \<noteq> Set_Cache_Addr \<longrightarrow> rc \<noteq> Conf_Error ''invalid number of arguments'')"
  using assms
  by (auto simp: ngx_http_dmmr_commands_def directive_accepted_def call_set_def reads_upto_def ngx_http_dmmr_enable_def
      ngx_http_dmmr_service_def ngx_http_dmmr_route_def ngx_http_dmmr_rate_limit_set_def ngx_http_dmmr_rate_window_set_def
      ngx_http_dmmr_rate_zone_def Let_def split: if_splits option.splits)

text \<open>The form \<open>dmmr_service name host:port\<close> of the documentation has two arguments and is refused everywhere.\<close>

theorem service_with_two_arguments_refused:
  "\<not> (\<exists>cmd \<in> set ngx_http_dmmr_commands. directive_accepted level [cstr ''dmmr_service'', name, endpoint] cmd)"
  by (simp add: ngx_http_dmmr_commands_def directive_accepted_def)

text \<open>Services and routes always go to the main configuration, wherever they are written.\<close>

lemma services_and_routes_are_global:
  assumes "cmd \<in> set ngx_http_dmmr_commands" and "cmd_set cmd \<in> {Set_Service, Set_Route, Set_Rate_Zone}"
  shows "cmd_conf cmd = Main_Conf"
  using assms by (auto simp: ngx_http_dmmr_commands_def)

end
