(* ===== verification/Dmmr_Cluster_Frame.thy ===== *)
theory Dmmr_Cluster_Frame
  imports Dmmr_Protocol Dmmr_Net Dmmr_String
begin

text \<open>
  Frames of the cluster protocol (\<open>dmmr_cluster.c\<close>): the configuration of a node, \<open>cluster_send_frame\<close>,
  \<open>cluster_recv_frame\<close> and the check of the cluster identity.  A pointer argument that may be \<open>NULL\<close> is
  an option with its length beside it.  Strings are the bytes before the terminating zero.
\<close>

section \<open>Configuration\<close>

record cluster_cfg =
  cluster_name :: bytes
  cluster_secret :: bytes
  cluster_advertise_address :: bytes
  cluster_advertise_port :: u16
  cluster_seeds :: bytes
  discovery_interval_seconds :: int
  cfg_node_id :: u64

definition DMMR_PEER_ADDR_MAX :: nat where [const_defs]: "DMMR_PEER_ADDR_MAX = 255"
definition DMMR_SEEDS_MAX :: nat where [const_defs]: "DMMR_SEEDS_MAX = 2048"
definition DMMR_CLUSTER_NAME_MAX :: nat where [const_defs]: "DMMR_CLUSTER_NAME_MAX = 63"
definition DMMR_CLUSTER_SECRET_MAX :: nat where [const_defs]: "DMMR_CLUSTER_SECRET_MAX = 128"

definition cluster_configure ::
  "bytes option \<Rightarrow> int \<Rightarrow> bytes option \<Rightarrow> int \<Rightarrow> bytes option \<Rightarrow> bytes option \<Rightarrow> cluster_cfg \<Rightarrow> cluster_cfg" where
  "cluster_configure advertise_address cluster_port seeds interval_seconds name secret cfg =
     (let c1 = (case advertise_address of
                  Some a \<Rightarrow> if a \<noteq> [] \<and> length a \<le> DMMR_PEER_ADDR_MAX
                            then cfg\<lparr>cluster_advertise_address := strlcpy_text (DMMR_PEER_ADDR_MAX + 1) a\<rparr> else cfg
                | None \<Rightarrow> cfg);
          c2 = (if cluster_port \<ge> 1 \<and> cluster_port \<le> 65535
                then c1\<lparr>cluster_advertise_port := of_int cluster_port\<rparr> else c1);
          c3 = (case seeds of Some s \<Rightarrow> c2\<lparr>cluster_seeds := strlcpy_text DMMR_SEEDS_MAX s\<rparr> | None \<Rightarrow> c2);
          c4 = (if interval_seconds > 0 then c3\<lparr>discovery_interval_seconds := interval_seconds\<rparr> else c3);
          c5 = (case name of
                  Some n \<Rightarrow> if length n \<le> DMMR_CLUSTER_NAME_MAX
                            then c4\<lparr>cluster_name := strlcpy_text (DMMR_CLUSTER_NAME_MAX + 1) n\<rparr> else c4
                | None \<Rightarrow> c4)
      in (case secret of
            Some s \<Rightarrow> if length s \<le> DMMR_CLUSTER_SECRET_MAX
                      then c5\<lparr>cluster_secret := strlcpy_text (DMMR_CLUSTER_SECRET_MAX + 1) s\<rparr> else c5
          | None \<Rightarrow> c5))"

definition cluster_id_of :: "bytes \<Rightarrow> u32" where
  "cluster_id_of name = (if name \<noteq> [] then dmmr_fnv1a_32 name else 0)"

section \<open>Sending\<close>

text \<open>A sequence of \<open>send_full\<close> calls, given up at the first that fails.\<close>

fun send_parts :: "bytes list \<Rightarrow> sock \<Rightarrow> (int \<times> sock) option" where
  "send_parts [] s = Some (0, s)"
| "send_parts (p # ps) s =
     (case send_full p s of
        None \<Rightarrow> None
      | Some (n, s') \<Rightarrow> if n \<noteq> int (length p) then Some (- 1, s') else send_parts ps s')"

definition cluster_header :: "cluster_cfg \<Rightarrow> u16 \<Rightarrow> u16 \<Rightarrow> nat \<Rightarrow> nat \<Rightarrow> u64 \<Rightarrow> u64 \<Rightarrow> u64 \<Rightarrow> dmmr_cluster_frame" where
  "cluster_header cfg opcode flags key_len value_len timestamp node_id expire_at =
     \<lparr>cf_magic = DMMR_MAGIC, cf_version = DMMR_CLUSTER_VERSION, cf_opcode = opcode, cf_flags = flags,
      cf_key_len = of_nat key_len, cf_value_len = of_nat value_len, cf_timestamp = timestamp,
      cf_node_id = node_id, cf_expire_at = expire_at, cf_cluster_id = cluster_id_of (cluster_name cfg)\<rparr>"

definition cluster_send_frame ::
  "cluster_cfg \<Rightarrow> u16 \<Rightarrow> u16 \<Rightarrow> bytes option \<Rightarrow> nat \<Rightarrow> bytes option \<Rightarrow> nat \<Rightarrow> u64 \<Rightarrow> u64 \<Rightarrow> u64 \<Rightarrow>
     sock \<Rightarrow> (int \<times> sock) option" where
  "cluster_send_frame cfg opcode flags key key_len value value_len timestamp node_id expire_at s =
     (if key_len > MAX_KEY_LEN \<or> value_len > MAX_VALUE_LEN \<or> (key_len > 0 \<and> key = None) \<or>
         (value_len > 0 \<and> value = None)
      then Some (- 1, s)
      else send_parts
        ([cluster_frame_mem (cluster_frame_hton
            (cluster_header cfg opcode flags key_len value_len timestamp node_id expire_at))] @
         (if key_len > 0 then [take key_len (the key)] else []) @
         (if value_len > 0 then [take value_len (the value)] else [])) s)"

section \<open>Receiving\<close>

text \<open>The outer option is "does not return", the inner one the result \<open>-1\<close>; \<open>mem_ok\<close> is the outcome
  of \<open>malloc\<close> for the payload.\<close>

definition cluster_recv_frame ::
  "bool \<Rightarrow> sock \<Rightarrow> ((dmmr_cluster_frame \<times> bytes option) option \<times> sock) option" where
  "cluster_recv_frame mem_ok s =
     (case recv_full 4 s of
        None \<Rightarrow> None
      | Some ((n, prefix), s1) \<Rightarrow>
          if n \<noteq> 4 then Some (None, s1)
          else if ntohs (of_le (sub 0 2 prefix)) \<noteq> DMMR_MAGIC \<or> ntohs (of_le (sub 2 2 prefix)) \<noteq> DMMR_CLUSTER_VERSION
          then Some (None, s1)
          else (case recv_full (cluster_frame_size - 4) s1 of
            None \<Rightarrow> None
          | Some ((n, rest), s2) \<Rightarrow>
              if n \<noteq> int (cluster_frame_size - 4) then Some (None, s2)
              else let frame = cluster_frame_ntoh (cluster_frame_of_mem (prefix @ rest)) in
                if unat (cf_key_len frame) > MAX_KEY_LEN \<or> unat (cf_value_len frame) > MAX_VALUE_LEN
                then Some (None, s2)
                else let total_len = unat (cf_key_len frame) + unat (cf_value_len frame) in
                  if total_len = 0 then Some (Some (frame, None), s2)
                  else if \<not> mem_ok then Some (None, s2)
                  else (case recv_full total_len s2 of
                    None \<Rightarrow> None
                  | Some ((n, payload), s3) \<Rightarrow>
                      if n \<noteq> int total_len then Some (None, s3) else Some (Some (frame, Some payload), s3))))"

section \<open>Cluster identity\<close>

definition check_cluster_id :: "cluster_cfg \<Rightarrow> dmmr_cluster_frame \<Rightarrow> int" where
  "check_cluster_id cfg frame =
     (if cluster_name cfg = [] then 0
      else if cf_cluster_id frame \<noteq> dmmr_fnv1a_32 (cluster_name cfg) then - 1 else 0)"

definition authenticate_cluster_frame :: "cluster_cfg \<Rightarrow> dmmr_cluster_frame \<Rightarrow> int" where
  "authenticate_cluster_frame cfg frame =
     (if cluster_name cfg = [] then 0
      else if cf_cluster_id frame = 0 then - 1
      else check_cluster_id cfg frame)"

section \<open>The wire\<close>

text \<open>A message: a header and its payload, key before value.\<close>

definition cluster_wire :: "dmmr_cluster_frame \<times> bytes \<Rightarrow> bytes" where
  "cluster_wire m = cluster_frame_mem (cluster_frame_hton (fst m)) @ snd m"

definition cluster_msg_ok :: "dmmr_cluster_frame \<times> bytes \<Rightarrow> bool" where
  "cluster_msg_ok m \<longleftrightarrow> cf_magic (fst m) = DMMR_MAGIC \<and> cf_version (fst m) = DMMR_CLUSTER_VERSION
     \<and> unat (cf_key_len (fst m)) \<le> MAX_KEY_LEN \<and> unat (cf_value_len (fst m)) \<le> MAX_VALUE_LEN
     \<and> length (snd m) = unat (cf_key_len (fst m)) + unat (cf_value_len (fst m))"

definition payload_opt :: "bytes \<Rightarrow> bytes option" where
  "payload_opt p = (if p = [] then None else Some p)"

lemma send_parts_live:
  assumes "tx_live (length (concat ps) + k) (s_tx s)"
  shows "\<exists>evs eintr. send_parts ps s
     = Some (0, s\<lparr>s_tx := evs, s_errno_eintr := eintr, s_out := s_out s @ concat ps\<rparr>) \<and> tx_live k evs"
  using assms
proof (induction ps arbitrary: s)
  case Nil
  then show ?case by (intro exI [of _ "s_tx s"] exI [of _ "s_errno_eintr s"]) simp
next
  case (Cons p ps)
  have "tx_live (length p + (length (concat ps) + k)) (s_tx s)" using Cons.prems by (simp add: add.assoc)
  from send_full_live [OF this] obtain evs1 e1 where s1: "send_full p s
      = Some (int (length p), s\<lparr>s_tx := evs1, s_errno_eintr := e1, s_out := s_out s @ p\<rparr>)"
    and live: "tx_live (length (concat ps) + k) evs1" by blast
  let ?s1 = "s\<lparr>s_tx := evs1, s_errno_eintr := e1, s_out := s_out s @ p\<rparr>"
  from Cons.IH [of ?s1] live obtain evs2 e2 where "send_parts ps ?s1
      = Some (0, s\<lparr>s_tx := evs2, s_errno_eintr := e2, s_out := s_out s @ p @ concat ps\<rparr>)" "tx_live k evs2"
    by auto
  with s1 show ?case by (intro exI [of _ evs2] exI [of _ e2]) simp
qed

lemma send_parts_rx: "send_parts ps s = Some (rc, s') \<Longrightarrow> s_rx s' = s_rx s \<and> s_open s' = s_open s"
proof (induction ps arbitrary: s)
  case (Cons p ps)
  then show ?case by (fastforce dest: send_full_rx split: option.splits if_splits)
qed simp

text \<open>Whatever happens to the connection, what has been sent is a prefix of the parts, and the whole of them exactly
  when the call reports success.\<close>

lemma send_parts_prefix:
  assumes "send_parts ps s = Some (rc, s')"
  shows "\<exists>sent rest. concat ps = sent @ rest \<and> s_out s' = s_out s @ sent \<and> (rc = 0 \<longleftrightarrow> rest = [])
     \<and> (rc = 0 \<or> rc = - 1)"
  using assms
proof (induction ps arbitrary: s)
  case (Cons p ps)
  then obtain n s1 where s1: "send_full p s = Some (n, s1)" by (auto split: option.splits)
  show ?case
  proof (cases "n = int (length p)")
    case True
    with Cons.prems s1 have "send_parts ps s1 = Some (rc, s')" by simp
    from Cons.IH [OF this] send_full_ok [OF s1] True show ?thesis by fastforce
  next
    case False
    with Cons.prems s1 send_full_ok [OF s1] show ?thesis by fastforce
  qed
qed simp

lemma cluster_send_rx:
  "cluster_send_frame cfg op fl k kl v vl ts n ex s = Some (rc, s') \<Longrightarrow> s_rx s' = s_rx s \<and> s_open s' = s_open s"
  by (auto simp: cluster_send_frame_def simp del: send_parts.simps dest: send_parts_rx split: if_splits)

definition args_ok :: "bytes option \<Rightarrow> nat \<Rightarrow> bytes option \<Rightarrow> nat \<Rightarrow> bool" where
  "args_ok key key_len val value_len \<longleftrightarrow> key_len \<le> MAX_KEY_LEN \<and> value_len \<le> MAX_VALUE_LEN
     \<and> (key_len > 0 \<longrightarrow> key \<noteq> None) \<and> (value_len > 0 \<longrightarrow> val \<noteq> None)"

definition args_payload :: "bytes option \<Rightarrow> nat \<Rightarrow> bytes option \<Rightarrow> nat \<Rightarrow> bytes" where
  "args_payload key key_len val value_len =
     (case key of None \<Rightarrow> [] | Some k \<Rightarrow> take key_len k) @ (case val of None \<Rightarrow> [] | Some v \<Rightarrow> take value_len v)"

lemma cluster_send_parts:
  assumes "args_ok key key_len val value_len"
  shows "\<exists>ps. cluster_send_frame cfg op fl key key_len val value_len ts n ex s = send_parts ps s
     \<and> concat ps = cluster_wire (cluster_header cfg op fl key_len value_len ts n ex, args_payload key key_len val value_len)"
  using assms
  by (cases "key_len > 0"; cases "value_len > 0")
    (auto simp: cluster_send_frame_def args_ok_def args_payload_def cluster_wire_def simp del: send_parts.simps
       split: option.splits)

lemma cluster_send_live:
  assumes "args_ok key key_len val value_len"
    and "tx_live (length (cluster_wire (cluster_header cfg op fl key_len value_len ts n ex,
           args_payload key key_len val value_len)) + k) (s_tx s)"
  shows "\<exists>evs eintr. cluster_send_frame cfg op fl key key_len val value_len ts n ex s
     = Some (0, s\<lparr>s_tx := evs, s_errno_eintr := eintr,
         s_out := s_out s @ cluster_wire (cluster_header cfg op fl key_len value_len ts n ex,
           args_payload key key_len val value_len)\<rparr>) \<and> tx_live k evs"
  using cluster_send_parts [OF assms(1), of cfg op fl ts n ex s] send_parts_live assms(2) by metis

lemma cluster_wire_prefix:
  "sub 0 2 (take 4 (cluster_frame_mem (cluster_frame_hton f))) = be_bytes 2 (cf_magic f)"
  "sub 2 2 (take 4 (cluster_frame_mem (cluster_frame_hton f))) = be_bytes 2 (cf_version f)"
  by (simp_all add: cluster_frame_mem_def cluster_frame_hton_def sub_def codec_simps)

lemma cluster_recv_msg:
  assumes "cluster_msg_ok m" and "stream_of (s_rx s) = cluster_wire m @ rest"
  shows "\<exists>evs. cluster_recv_frame True s = Some (Some (fst m, payload_opt (snd m)), s\<lparr>s_rx := evs\<rparr>)
     \<and> stream_of evs = rest \<and> stream_end evs = stream_end (s_rx s)"
proof -
  let ?h = "cluster_frame_mem (cluster_frame_hton (fst m))" and ?p = "snd m"
  have lh: "length ?h = 48" by (simp add: cluster_frame_size_def)
  obtain evs1 where r1: "recv_full 4 s = Some ((4, take 4 ?h), s\<lparr>s_rx := evs1\<rparr>)"
    and st1: "stream_of evs1 = drop 4 ?h @ ?p @ rest" "stream_end evs1 = stream_end (s_rx s)"
    using recv_full_enough [of 4 s] assms(2) by (auto simp: cluster_wire_def cluster_frame_size_def)
  obtain evs2 where r2: "recv_full 44 (s\<lparr>s_rx := evs1\<rparr>) = Some ((44, drop 4 ?h), s\<lparr>s_rx := evs2\<rparr>)"
    and st2: "stream_of evs2 = ?p @ rest" "stream_end evs2 = stream_end (s_rx s)"
    using recv_full_enough [of 44 "s\<lparr>s_rx := evs1\<rparr>"] st1 by (auto simp: cluster_frame_size_def)
  obtain evs3 where r3: "recv_full (length ?p) (s\<lparr>s_rx := evs2\<rparr>) = Some ((int (length ?p), ?p), s\<lparr>s_rx := evs3\<rparr>)"
    and st3: "stream_of evs3 = rest" "stream_end evs3 = stream_end (s_rx s)"
    using recv_full_enough [of "length ?p" "s\<lparr>s_rx := evs2\<rparr>"] st2 by auto
  have head: "ntohs (of_le (sub 0 2 (take 4 ?h))) = DMMR_MAGIC" "ntohs (of_le (sub 2 2 (take 4 ?h))) = DMMR_CLUSTER_VERSION"
    using assms(1) by (simp_all add: cluster_wire_prefix codec_simps cluster_msg_ok_def)
  have f: "cluster_frame_ntoh (cluster_frame_of_mem (take 4 ?h @ drop 4 ?h)) = fst m" by (simp add: codec_simps)
  note len = assms(1) [unfolded cluster_msg_ok_def]
  show ?thesis
  proof (cases "?p = []")
    case True
    with len have "unat (cf_key_len (fst m)) + unat (cf_value_len (fst m)) = 0" by simp
    with True r1 r2 head f len st2 show ?thesis
      by (intro exI [of _ evs2])
        (simp add: cluster_recv_frame_def Let_def cluster_frame_size_def payload_opt_def)
  next
    case False
    with len have pos: "unat (cf_key_len (fst m)) + unat (cf_value_len (fst m)) \<noteq> 0" by (metis length_0_conv)
    with False r1 r2 r3 head f len st3 show ?thesis
      by (intro exI [of _ evs3])
        (simp add: cluster_recv_frame_def Let_def cluster_frame_size_def payload_opt_def del: add_is_0)
  qed
qed

lemma header_msg_ok:
  assumes "args_ok key key_len val value_len"
    and "length (case key of None \<Rightarrow> [] | Some k \<Rightarrow> take key_len k) = key_len"
    and "length (case val of None \<Rightarrow> [] | Some v \<Rightarrow> take value_len v) = value_len"
  shows "cluster_msg_ok (cluster_header cfg op fl key_len value_len ts n ex, args_payload key key_len val value_len)"
    and "unat (cf_key_len (cluster_header cfg op fl key_len value_len ts n ex)) = key_len"
    and "unat (cf_value_len (cluster_header cfg op fl key_len value_len ts n ex)) = value_len"
proof -
  have "key_len < 2 ^ 32" "value_len < 2 ^ 32" using assms(1) by (simp_all add: args_ok_def const_defs)
  then show kl: "unat (cf_key_len (cluster_header cfg op fl key_len value_len ts n ex)) = key_len"
    and vl: "unat (cf_value_len (cluster_header cfg op fl key_len value_len ts n ex)) = value_len"
    by (simp_all add: cluster_header_def unsigned_of_nat take_bit_eq_mod)
  show "cluster_msg_ok (cluster_header cfg op fl key_len value_len ts n ex, args_payload key key_len val value_len)"
    using assms kl vl
    by (auto simp: cluster_msg_ok_def args_ok_def args_payload_def simp: cluster_header_def)
qed

text \<open>What is read is well-formed, and reading a message takes it off the connection.\<close>

lemma cluster_recv_cases:
  assumes "cluster_recv_frame mem_ok s = Some (Some (frame, payload), s')"
  obtains prefix s1 rest s2 where
    "recv_full 4 s = Some ((4, prefix), s1)" "recv_full 44 s1 = Some ((44, rest), s2)"
    "frame = cluster_frame_ntoh (cluster_frame_of_mem (prefix @ rest))"
    "ntohs (of_le (sub 0 2 prefix)) = DMMR_MAGIC" "ntohs (of_le (sub 2 2 prefix)) = DMMR_CLUSTER_VERSION"
    "unat (cf_key_len frame) \<le> MAX_KEY_LEN" "unat (cf_value_len frame) \<le> MAX_VALUE_LEN"
    "unat (cf_key_len frame) + unat (cf_value_len frame) = 0 \<and> payload = None \<and> s' = s2
     \<or> (\<exists>p. unat (cf_key_len frame) + unat (cf_value_len frame) > 0 \<and> payload = Some p
          \<and> recv_full (unat (cf_key_len frame) + unat (cf_value_len frame)) s2
              = Some ((int (unat (cf_key_len frame) + unat (cf_value_len frame)), p), s'))"
  using assms
  by (auto simp: cluster_recv_frame_def cluster_frame_size_def Let_def
      split: option.splits prod.splits if_splits)

definition payload_bytes :: "bytes option \<Rightarrow> bytes" where
  "payload_bytes p = (case p of None \<Rightarrow> [] | Some bs \<Rightarrow> bs)"

lemma payload_bytes_simps [simp]:
  "payload_bytes None = []" "payload_bytes (Some bs) = bs" "payload_bytes (payload_opt bs) = bs"
  by (simp_all add: payload_bytes_def payload_opt_def)

lemma cluster_recv_wf:
  assumes "cluster_recv_frame mem_ok s = Some (Some (frame, payload), s')"
  shows "cluster_msg_ok (frame, payload_bytes payload)" and "payload = payload_opt (payload_bytes payload)"
proof -
  from cluster_recv_cases [OF assms] obtain prefix s1 rest s2 where c:
    "recv_full 4 s = Some ((4, prefix), s1)" "recv_full 44 s1 = Some ((44, rest), s2)"
    "frame = cluster_frame_ntoh (cluster_frame_of_mem (prefix @ rest))"
    "ntohs (of_le (sub 0 2 prefix)) = DMMR_MAGIC" "ntohs (of_le (sub 2 2 prefix)) = DMMR_CLUSTER_VERSION"
    "unat (cf_key_len frame) \<le> MAX_KEY_LEN" "unat (cf_value_len frame) \<le> MAX_VALUE_LEN"
    and pay: "unat (cf_key_len frame) + unat (cf_value_len frame) = 0 \<and> payload = None \<and> s' = s2
     \<or> (\<exists>p. unat (cf_key_len frame) + unat (cf_value_len frame) > 0 \<and> payload = Some p
          \<and> recv_full (unat (cf_key_len frame) + unat (cf_value_len frame)) s2
              = Some ((int (unat (cf_key_len frame) + unat (cf_value_len frame)), p), s'))" .
  have "length prefix = 4" using recv_full_measure(4) [OF c(1)] by simp
  then have "sub 0 2 (prefix @ rest) = sub 0 2 prefix" "sub 2 2 (prefix @ rest) = sub 2 2 prefix"
    by (simp_all add: sub_def)
  then have "cf_magic frame = DMMR_MAGIC" "cf_version frame = DMMR_CLUSTER_VERSION"
    using c(3-5) by (simp_all add: cluster_frame_ntoh_def cluster_frame_of_mem_def)
  moreover have "length (payload_bytes payload) = unat (cf_key_len frame) + unat (cf_value_len frame)"
    using pay recv_full_measure(4) by fastforce
  ultimately show "cluster_msg_ok (frame, payload_bytes payload)"
    using c(6,7) by (simp add: cluster_msg_ok_def)
  show "payload = payload_opt (payload_bytes payload)"
    using pay recv_full_measure(4) by (fastforce simp: payload_opt_def)
qed

lemma cluster_recv_measure:
  assumes "cluster_recv_frame mem_ok s = Some (Some (frame, payload), s')"
  shows "rx_measure (s_rx s') < rx_measure (s_rx s)"
    and "s_tx s' = s_tx s \<and> s_out s' = s_out s \<and> s_open s' = s_open s"
proof -
  from cluster_recv_cases [OF assms] obtain prefix s1 rest s2 where
    r: "recv_full 4 s = Some ((4, prefix), s1)" "recv_full 44 s1 = Some ((44, rest), s2)"
    and pay: "s' = s2 \<or> (\<exists>n m p. recv_full n s2 = Some ((m, p), s'))"
    by metis
  note m1 = recv_full_measure [OF r(1)] and m2 = recv_full_measure [OF r(2)]
  have "rx_measure (s_rx s') \<le> rx_measure (s_rx s2)"
    "s_tx s' = s_tx s2 \<and> s_out s' = s_out s2 \<and> s_open s' = s_open s2"
    using pay recv_full_measure(1,5) by force+
  with m1 m2 show "rx_measure (s_rx s') < rx_measure (s_rx s)"
    "s_tx s' = s_tx s \<and> s_out s' = s_out s \<and> s_open s' = s_open s" by auto
qed

section \<open>Properties\<close>

text \<open>C28: every message \<open>cluster_recv_frame\<close> hands to its callers, whatever bytes the peer sent and however
  they were cut, is well-formed: magic and version are those of the protocol, both lengths are within
  their limits, and the payload has exactly the announced length (and is absent exactly when that is
  zero), so the reads the handlers do inside the announced lengths are inside the payload.\<close>

theorem cluster_recv_frame_typed:
  assumes "cluster_recv_frame mem_ok s = Some (Some (frame, payload), s')"
  shows "cf_magic frame = DMMR_MAGIC \<and> cf_version frame = DMMR_CLUSTER_VERSION
     \<and> unat (cf_key_len frame) \<le> MAX_KEY_LEN \<and> unat (cf_value_len frame) \<le> MAX_VALUE_LEN
     \<and> (case payload of
          None \<Rightarrow> cf_key_len frame = 0 \<and> cf_value_len frame = 0
        | Some p \<Rightarrow> p \<noteq> [] \<and> length p = unat (cf_key_len frame) + unat (cf_value_len frame))"
  using cluster_recv_wf [OF assms]
  by (auto simp: cluster_msg_ok_def payload_opt_def payload_bytes_def unat_eq_zero split: option.splits if_splits)

definition demo_cfg :: cluster_cfg where
  "demo_cfg = \<lparr>cluster_name = cstr ''lab'', cluster_secret = cstr ''s3cret'',
     cluster_advertise_address = cstr ''10.0.0.1'', cluster_advertise_port = 9081, cluster_seeds = [],
     discovery_interval_seconds = 10, cfg_node_id = 7\<rparr>"

definition wire_sock :: "bytes \<Rightarrow> sock" where
  "wire_sock bs = \<lparr>s_rx = [RxData bs, RxEof], s_tx = replicate 4096 (TxTake 1), s_errno_eintr = False,
     s_out = [], s_open = True\<rparr>"

lemma wire_sock_simps [simp]:
  "bs \<noteq> [] \<Longrightarrow> stream_of (s_rx (wire_sock bs)) = bs" "bs \<noteq> [] \<Longrightarrow> stream_end (s_rx (wire_sock bs)) = EndEof"
  "s_out (wire_sock bs) = []" "s_open (wire_sock bs)" "n \<le> 4096 \<Longrightarrow> tx_live n (s_tx (wire_sock bs))"
  by (simp_all add: wire_sock_def tx_live_def)

lemma length_cluster_wire: "length (cluster_wire m) = 48 + length (snd m)"
  by (simp add: cluster_wire_def cluster_frame_size_def)

lemma cluster_wire_nonempty [simp]: "cluster_wire m \<noteq> []"
  using length_cluster_wire [of m] by (metis add_is_0 list.size(3) zero_neq_numeral)

text \<open>C29: a frame survives the connection.  \<open>cluster_send_frame\<close> with a key and a value within the limits, on
  a connection whose other end keeps reading, reports success, and \<open>cluster_recv_frame\<close> at the other end
  returns exactly that opcode, flags, stamps, key and value, stamped with the sender's cluster identity,
  for every segmentation of the byte stream; what follows on the stream is untouched.\<close>

theorem cluster_frame_roundtrip:
  assumes "0 < length key" and "length key \<le> MAX_KEY_LEN" and "length val \<le> MAX_VALUE_LEN"
    and "tx_live (48 + length key + length val) (s_tx s)"
  shows "\<exists>s' wire. cluster_send_frame cfg op fl (Some key) (length key) (Some val) (length val) ts node ex s = Some (0, s')
     \<and> s_out s' = s_out s @ wire
     \<and> (\<forall>r rest. stream_of (s_rx r) = wire @ rest \<longrightarrow>
          (\<exists>r' frame. cluster_recv_frame True r = Some (Some (frame, Some (key @ val)), r')
             \<and> unat (cf_key_len frame) = length key \<and> unat (cf_value_len frame) = length val
             \<and> cf_opcode frame = op \<and> cf_flags frame = fl \<and> cf_timestamp frame = ts \<and> cf_node_id frame = node
             \<and> cf_expire_at frame = ex \<and> cf_cluster_id frame = cluster_id_of (cluster_name cfg)
             \<and> stream_of (s_rx r') = rest))"
proof -
  let ?h = "cluster_header cfg op fl (length key) (length val) ts node ex"
  have a: "args_ok (Some key) (length key) (Some val) (length val)" using assms(2,3) by (simp add: args_ok_def)
  have p: "args_payload (Some key) (length key) (Some val) (length val) = key @ val" by (simp add: args_payload_def)
  have ok: "cluster_msg_ok (?h, key @ val)" "unat (cf_key_len ?h) = length key" "unat (cf_value_len ?h) = length val"
    using header_msg_ok [OF a, of cfg op fl ts node ex] p by simp_all
  from cluster_send_live [OF a, of cfg op fl ts node ex 0 s] assms(4)
  have "\<exists>s'. cluster_send_frame cfg op fl (Some key) (length key) (Some val) (length val) ts node ex s = Some (0, s')
      \<and> s_out s' = s_out s @ cluster_wire (?h, key @ val)"
    by (auto simp: p length_cluster_wire add.assoc)
  moreover have "\<exists>r'. cluster_recv_frame True r = Some (Some (?h, Some (key @ val)), r') \<and> stream_of (s_rx r') = rest"
    if "stream_of (s_rx r) = cluster_wire (?h, key @ val) @ rest" for r rest
    using cluster_recv_msg [OF ok(1) that] assms(1) by (auto simp: payload_opt_def)
  ultimately show ?thesis using ok(2,3) by (fastforce simp: cluster_header_def)
qed

theorem cluster_recv_frame_typed_witness:
  "\<exists>frame payload s'. cluster_recv_frame True (wire_sock (cluster_wire (cluster_header demo_cfg OP_SYNC FLAG_NONE 1 2 5 7 9, [1, 2, 3])))
       = Some (Some (frame, payload), s')
     \<and> cf_magic frame = DMMR_MAGIC \<and> length (the payload) = unat (cf_key_len frame) + unat (cf_value_len frame)"
proof -
  let ?m = "(cluster_header demo_cfg OP_SYNC FLAG_NONE 1 2 5 7 9, [1, 2, 3] :: bytes)"
  have "cluster_msg_ok ?m" by (simp add: cluster_msg_ok_def cluster_header_def const_defs)
  from cluster_recv_msg [OF this, of "wire_sock (cluster_wire ?m)" "[]"] obtain evs where
    r: "cluster_recv_frame True (wire_sock (cluster_wire ?m))
        = Some (Some (fst ?m, payload_opt (snd ?m)), (wire_sock (cluster_wire ?m))\<lparr>s_rx := evs\<rparr>)" by auto
  from cluster_recv_frame_typed [OF r]
  have "cf_magic (fst ?m) = DMMR_MAGIC
      \<and> length (the (payload_opt (snd ?m))) = unat (cf_key_len (fst ?m)) + unat (cf_value_len (fst ?m))"
    by (simp add: payload_opt_def)
  with r show ?thesis by (intro exI conjI) (assumption, simp_all)
qed

theorem cluster_frame_roundtrip_witness:
  "\<exists>s' wire. cluster_send_frame demo_cfg OP_SYNC FLAG_NONE (Some [1]) 1 (Some [2, 3]) 2 5 7 9 (wire_sock []) = Some (0, s')
     \<and> s_out s' = wire
     \<and> (\<exists>r' frame. cluster_recv_frame True (wire_sock wire) = Some (Some (frame, Some [1, 2, 3]), r')
          \<and> cf_opcode frame = OP_SYNC \<and> cf_timestamp frame = 5)"
proof -
  let ?send = "cluster_send_frame demo_cfg OP_SYNC FLAG_NONE (Some [1]) 1 (Some [2, 3]) 2 5 7 9 (wire_sock [])"
  have "length [1 :: u8] \<le> MAX_KEY_LEN" "length [2, 3 :: u8] \<le> MAX_VALUE_LEN"
    "tx_live (48 + length [1 :: u8] + length [2, 3 :: u8]) (s_tx (wire_sock []))" by (simp_all add: const_defs)
  from cluster_frame_roundtrip [OF _ this, of demo_cfg OP_SYNC FLAG_NONE 5 7 9]
  obtain s' wire where s: "?send = Some (0, s')" "s_out s' = wire"
    and r: "\<forall>r rest. stream_of (s_rx r) = wire @ rest \<longrightarrow>
      (\<exists>r' frame. cluster_recv_frame True r = Some (Some (frame, Some ([1] @ [2, 3])), r')
         \<and> unat (cf_key_len frame) = length [1 :: u8] \<and> unat (cf_value_len frame) = length [2, 3 :: u8]
         \<and> cf_opcode frame = OP_SYNC \<and> cf_flags frame = FLAG_NONE \<and> cf_timestamp frame = 5 \<and> cf_node_id frame = 7
         \<and> cf_expire_at frame = 9 \<and> cf_cluster_id frame = cluster_id_of (cluster_name demo_cfg)
         \<and> stream_of (s_rx r') = rest)"
    by (simp add: numeral_2_eq_2) blast
  have "wire \<noteq> []"
  proof
    assume "wire = []"
    with r [rule_format, of "wire_sock [] \<lparr>s_rx := []\<rparr>" "[]"] show False
      by (simp add: cluster_recv_frame_def recv_full_def recv_full_loop.simps)
  qed
  with r [rule_format, of "wire_sock wire" "[]"] obtain r' frame where
    "cluster_recv_frame True (wire_sock wire) = Some (Some (frame, Some [1, 2, 3]), r')"
    "cf_opcode frame = OP_SYNC" "cf_timestamp frame = 5" by auto
  with s show ?thesis by (intro exI conjI)
qed

end
