(* ===== verification/Dmmr_Sha256.thy ===== *)
theory Dmmr_Sha256
  imports Dmmr_Prelude
begin

unbundle bit_operations_syntax

text \<open>
  \<open>sha256.c\<close> and \<open>hmac_sha256\<close> of \<open>dmmr_cluster.c\<close>.  The context keeps its 64-byte buffer, its fill
  level and the bit counter as the C struct does; the reference definition pads the whole message
  (FIPS 180-4) and folds the compression function over its 64-byte blocks.
\<close>

section \<open>The compression function\<close>

definition ROTRIGHT :: "u32 \<Rightarrow> nat \<Rightarrow> u32" where
  "ROTRIGHT a b = drop_bit b a OR push_bit (32 - b) a"

definition CH :: "u32 \<Rightarrow> u32 \<Rightarrow> u32 \<Rightarrow> u32" where
  "CH x y z = (x AND y) XOR (NOT x AND z)"

definition MAJ :: "u32 \<Rightarrow> u32 \<Rightarrow> u32 \<Rightarrow> u32" where
  "MAJ x y z = (x AND y) XOR (x AND z) XOR (y AND z)"

definition EP0 :: "u32 \<Rightarrow> u32" where
  "EP0 x = ROTRIGHT x 2 XOR ROTRIGHT x 13 XOR ROTRIGHT x 22"

definition EP1 :: "u32 \<Rightarrow> u32" where
  "EP1 x = ROTRIGHT x 6 XOR ROTRIGHT x 11 XOR ROTRIGHT x 25"

definition SIG0 :: "u32 \<Rightarrow> u32" where
  "SIG0 x = ROTRIGHT x 7 XOR ROTRIGHT x 18 XOR drop_bit 3 x"

definition SIG1 :: "u32 \<Rightarrow> u32" where
  "SIG1 x = ROTRIGHT x 17 XOR ROTRIGHT x 19 XOR drop_bit 10 x"

definition sha_k :: "u32 list" where
  "sha_k = [
    0x428a2f98, 0x71374491, 0xb5c0fbcf, 0xe9b5dba5, 0x3956c25b, 0x59f111f1, 0x923f82a4, 0xab1c5ed5,
    0xd807aa98, 0x12835b01, 0x243185be, 0x550c7dc3, 0x72be5d74, 0x80deb1fe, 0x9bdc06a7, 0xc19bf174,
    0xe49b69c1, 0xefbe4786, 0x0fc19dc6, 0x240ca1cc, 0x2de92c6f, 0x4a7484aa, 0x5cb0a9dc, 0x76f988da,
    0x983e5152, 0xa831c66d, 0xb00327c8, 0xbf597fc7, 0xc6e00bf3, 0xd5a79147, 0x06ca6351, 0x14292967,
    0x27b70a85, 0x2e1b2138, 0x4d2c6dfc, 0x53380d13, 0x650a7354, 0x766a0abb, 0x81c2c92e, 0x92722c85,
    0xa2bfe8a1, 0xa81a664b, 0xc24b8b70, 0xc76c51a3, 0xd192e819, 0xd6990624, 0xf40e3585, 0x106aa070,
    0x19a4c116, 0x1e376c08, 0x2748774c, 0x34b0bcb5, 0x391c0cd3, 0x4ed8aa4a, 0x5b9cca4f, 0x682e6ff3,
    0x748f82ee, 0x78a5636f, 0x84c87814, 0x8cc70208, 0x90befffa, 0xa4506ceb, 0xbef9a3f7, 0xc67178f2]"

record sha256_ctx =
  sha_data :: bytes
  sha_datalen :: nat
  sha_bitlen :: u64
  sha_state :: "u32 list"

definition sha_words :: "bytes \<Rightarrow> u32 list" where
  "sha_words data = map (\<lambda>i. push_bit 24 (ucast (data ! (4 * i))) OR push_bit 16 (ucast (data ! (4 * i + 1)))
     OR push_bit 8 (ucast (data ! (4 * i + 2))) OR ucast (data ! (4 * i + 3))) [0 ..< 16]"

definition sha_schedule :: "bytes \<Rightarrow> u32 list" where
  "sha_schedule data = foldl (\<lambda>m i. m @ [SIG1 (m ! (i - 2)) + m ! (i - 7) + SIG0 (m ! (i - 15)) + m ! (i - 16)])
     (sha_words data) [16 ..< 64]"

fun sha_round :: "u32 list \<Rightarrow> u32 list \<Rightarrow> nat \<Rightarrow> u32 list" where
  "sha_round m [a, b, c, d, e, f, g, h] i =
     (let t1 = h + EP1 e + CH e f g + sha_k ! i + m ! i; t2 = EP0 a + MAJ a b c in
      [t1 + t2, a, b, c, d + t1, e, f, g])"
| "sha_round m st i = st"

definition sha_compress :: "u32 list \<Rightarrow> bytes \<Rightarrow> u32 list" where
  "sha_compress st data = map2 (+) st (foldl (sha_round (sha_schedule data)) st [0 ..< 64])"

definition sha256_transform :: "sha256_ctx \<Rightarrow> sha256_ctx" where
  "sha256_transform ctx = ctx\<lparr>sha_state := sha_compress (sha_state ctx) (sha_data ctx)\<rparr>"

section \<open>Init, update, final\<close>

definition sha_iv :: "u32 list" where
  "sha_iv = [0x6a09e667, 0xbb67ae85, 0x3c6ef372, 0xa54ff53a, 0x510e527f, 0x9b05688c, 0x1f83d9ab, 0x5be0cd19]"

text \<open>\<open>data\<close> is not initialised by \<open>sha256_init\<close>: the context keeps what it had.\<close>

definition sha256_init :: "sha256_ctx \<Rightarrow> sha256_ctx" where
  "sha256_init ctx = ctx\<lparr>sha_datalen := 0, sha_bitlen := 0, sha_state := sha_iv\<rparr>"

definition sha256_byte :: "sha256_ctx \<Rightarrow> u8 \<Rightarrow> sha256_ctx" where
  "sha256_byte ctx b =
     (let ctx1 = ctx\<lparr>sha_data := (sha_data ctx)[sha_datalen ctx := b], sha_datalen := sha_datalen ctx + 1\<rparr> in
      if sha_datalen ctx1 = 64
      then (sha256_transform ctx1)\<lparr>sha_bitlen := sha_bitlen ctx1 + 512, sha_datalen := 0\<rparr>
      else ctx1)"

definition sha256_update :: "sha256_ctx \<Rightarrow> bytes \<Rightarrow> sha256_ctx" where
  "sha256_update ctx data = foldl sha256_byte ctx data"

definition sha256_final :: "sha256_ctx \<Rightarrow> sha256_ctx \<times> bytes" where
  "sha256_final ctx =
     (let i = sha_datalen ctx;
          ctx1 = (if i < 56
                  then ctx\<lparr>sha_data := take i (sha_data ctx) @ [0x80] @ replicate (55 - i) 0 @ drop 56 (sha_data ctx)\<rparr>
                  else let t = sha256_transform (ctx\<lparr>sha_data := take i (sha_data ctx) @ [0x80] @ replicate (63 - i) 0\<rparr>)
                    in t\<lparr>sha_data := replicate 56 0 @ drop 56 (sha_data t)\<rparr>);
          bitlen = sha_bitlen ctx1 + of_nat (sha_datalen ctx1 * 8);
          ctx2 = sha256_transform (ctx1\<lparr>sha_bitlen := bitlen,
            sha_data := take 56 (sha_data ctx1) @ map (\<lambda>j. ucast (drop_bit (8 * (7 - j)) bitlen)) [0 ..< 8]\<rparr>) in
      (ctx2, concat (map (\<lambda>w. map (\<lambda>i. ucast (drop_bit (24 - i * 8) w AND 0xff)) [0 ..< 4]) (sha_state ctx2))))"

text \<open>A whole hash on a context, as the callers do it.\<close>

definition sha256_run :: "sha256_ctx \<Rightarrow> bytes list \<Rightarrow> sha256_ctx \<times> bytes" where
  "sha256_run ctx msgs = sha256_final (foldl sha256_update (sha256_init ctx) msgs)"

definition hmac_sha256 :: "sha256_ctx \<Rightarrow> bytes \<Rightarrow> bytes \<Rightarrow> bytes" where
  "hmac_sha256 ctx0 key data =
     (let (ctx1, key_block) =
            (if length key > 64
             then (case sha256_run ctx0 [key] of (c, d) \<Rightarrow> (c, d @ replicate 32 0))
             else (ctx0, key @ replicate (64 - length key) 0));
          o_key_pad = map (\<lambda>b. b XOR 0x5c) key_block;
          i_key_pad = map (\<lambda>b. b XOR 0x36) key_block;
          (ctx2, digest) = sha256_run ctx1 [i_key_pad, data] in
      snd (sha256_run ctx2 [o_key_pad, digest]))"

section \<open>The reference definition\<close>

fun blocks :: "bytes \<Rightarrow> bytes list" where
  "blocks bs = (if length bs < 64 then [] else take 64 bs # blocks (drop 64 bs))"

declare blocks.simps [simp del]

definition sha_pad :: "bytes \<Rightarrow> bytes" where
  "sha_pad msg = msg @ [0x80] @ replicate ((119 - length msg mod 64) mod 64) 0 @ be_bytes 8 (of_nat (8 * length msg) :: u64)"

definition sha256_spec :: "bytes \<Rightarrow> bytes" where
  "sha256_spec msg = concat (map (be_bytes 4) (foldl sha_compress sha_iv (blocks (sha_pad msg))))"

text \<open>RFC 2104, with SHA-256 and its block size of 64 bytes.\<close>

definition hmac_spec :: "bytes \<Rightarrow> bytes \<Rightarrow> bytes" where
  "hmac_spec key msg =
     (let k = (if length key > 64 then sha256_spec key else key);
          k0 = k @ replicate (64 - length k) 0 in
      sha256_spec (map (\<lambda>b. b XOR 0x5c) k0 @ sha256_spec (map (\<lambda>b. b XOR 0x36) k0 @ msg)))"

section \<open>The context after an update\<close>

definition ctx_of :: "bytes \<Rightarrow> sha256_ctx \<Rightarrow> bool" where
  "ctx_of msg ctx \<longleftrightarrow> length (sha_data ctx) = 64 \<and> sha_datalen ctx = length msg mod 64
     \<and> take (sha_datalen ctx) (sha_data ctx) = drop (64 * (length msg div 64)) msg
     \<and> sha_bitlen ctx = of_nat (512 * (length msg div 64))
     \<and> sha_state ctx = foldl sha_compress sha_iv (blocks msg)"

lemma blocks_append:
  assumes "length bs mod 64 = 0"
  shows "blocks (bs @ xs) = blocks bs @ blocks xs"
  using assms
proof (induction bs rule: blocks.induct)
  case (1 bs)
  show ?case
  proof (cases "length bs < 64")
    case True
    with 1 show ?thesis by (simp add: blocks.simps [of "[]"])
  next
    case False
    then have "length (drop 64 bs) mod 64 = 0" using 1 by (simp add: mod_if)
    with 1 False show ?thesis by (simp add: blocks.simps [of "bs @ xs"] blocks.simps [of bs])
  qed
qed

lemma blocks_one: "length xs = 64 \<Longrightarrow> blocks xs = [xs]"
  by (simp add: blocks.simps [of xs] blocks.simps [of "[]"])

lemma blocks_short: "length xs < 64 \<Longrightarrow> blocks xs = []"
  by (simp add: blocks.simps [of xs])

lemma blocks_split: "blocks xs = blocks (take (64 * (length xs div 64)) xs)"
proof -
  let ?h = "take (64 * (length xs div 64)) xs" and ?t = "drop (64 * (length xs div 64)) xs"
  have "64 * (length xs div 64) \<le> length xs" by (rule times_div_less_eq_dividend)
  then have "length ?h mod 64 = 0" by (simp add: min_absorb2)
  moreover have "length ?t < 64" by (simp add: minus_mult_div_eq_mod)
  ultimately show ?thesis using blocks_append [of ?h ?t] blocks_short [of ?t] by simp
qed

lemma ctx_of_init: "length (sha_data ctx) = 64 \<Longrightarrow> ctx_of [] (sha256_init ctx)"
  by (simp add: ctx_of_def sha256_init_def blocks_short)

lemma ctx_of_byte:
  assumes "ctx_of msg ctx"
  shows "ctx_of (msg @ [b]) (sha256_byte ctx b)"
proof -
  let ?n = "length msg" and ?i = "sha_datalen ctx" and ?q = "64 * (length msg div 64)"
  let ?h = "take ?q msg" and ?t = "drop ?q msg" and ?d = "(sha_data ctx)[sha_datalen ctx := b]"
  have i: "?i = ?n mod 64" "?i < 64" and tail: "take ?i (sha_data ctx) = ?t" and len: "length (sha_data ctx) = 64"
    and bl: "sha_bitlen ctx = of_nat (512 * (?n div 64))" and st: "sha_state ctx = foldl sha_compress sha_iv (blocks msg)"
    using assms by (auto simp: ctx_of_def)
  have q: "?q \<le> ?n" by (rule times_div_less_eq_dividend)
  have lh: "length ?h mod 64 = 0" using q by (simp add: min_absorb2)
  have d: "take (?i + 1) ?d = ?t @ [b]"
    using i(2) len by (simp add: take_Suc_conv_app_nth tail)
  have drop: "drop ?q (msg @ [b]) = ?t @ [b]" using q by simp
  show ?thesis
  proof (cases "?i + 1 = 64")
    case True
    then have m: "(?n + 1) mod 64 = 0" "(?n + 1) div 64 = ?n div 64 + 1" using i(1) by (simp_all add: mod_Suc div_Suc)
    have full: "?d = ?t @ [b]" using d True len by simp
    have "length (?t @ [b]) = 64" using full len by (metis length_list_update)
    then have "blocks (?h @ ?t @ [b]) = blocks ?h @ [?t @ [b]]"
      using blocks_append [OF lh, of "?t @ [b]"] blocks_one by simp
    then have "blocks (msg @ [b]) = blocks msg @ [?d]"
      using full blocks_split [of msg] by (metis append.assoc append_take_drop_id)
    then show ?thesis
      using True m len bl st
      by (simp add: ctx_of_def sha256_byte_def sha256_transform_def Let_def algebra_simps)
  next
    case False
    then have m: "(?n + 1) mod 64 = ?i + 1" "(?n + 1) div 64 = ?n div 64" using i by (simp_all add: mod_Suc div_Suc)
    have "blocks (msg @ [b]) = blocks msg"
      using blocks_split [of "msg @ [b]"] blocks_split [of msg] m(2) q by simp
    then show ?thesis
      using False m len bl st d drop by (simp add: ctx_of_def sha256_byte_def Let_def)
  qed
qed

lemma ctx_of_update: "ctx_of msg ctx \<Longrightarrow> ctx_of (msg @ data) (sha256_update ctx data)"
proof (induction data arbitrary: msg ctx)
  case (Cons b data)
  from Cons.IH [OF ctx_of_byte [OF Cons.prems]] show ?case by (simp add: sha256_update_def)
qed (simp add: sha256_update_def)

lemma ctx_of_updates: "ctx_of msg ctx \<Longrightarrow> ctx_of (msg @ concat msgs) (foldl sha256_update ctx msgs)"
proof (induction msgs arbitrary: msg ctx)
  case (Cons m msgs)
  from Cons.IH [OF ctx_of_update [OF Cons.prems]] show ?case by simp
qed simp

section \<open>Padding\<close>

lemma be_bytes_map: "be_bytes n w = map (\<lambda>j. ucast (drop_bit (8 * (n - 1 - j)) w)) [0 ..< n]"
  by (rule nth_equalityI) (simp_all add: be_bytes_def le_bytes_def rev_nth)

lemma digest_bytes: "map (\<lambda>i. ucast (drop_bit (24 - i * 8) w AND 0xff)) [0 ..< 4] = be_bytes 4 (w :: u32)"
proof -
  have eq: "(ucast (drop_bit k w AND 0xff) :: u8) = ucast (drop_bit k w)" for k
  proof (rule bit_word_eqI)
    have ff: "drop_bit k w AND 0xff = take_bit 8 (drop_bit k w)"
      by (simp add: take_bit_eq_mask mask_eq_exp_minus_1)
    show "bit (ucast (drop_bit k w AND 0xff) :: u8) n \<longleftrightarrow> bit (ucast (drop_bit k w) :: u8) n"
      if "n < LENGTH(8)" for n
      using that unfolding ff by (simp add: bit_ucast_iff bit_take_bit_iff)
  qed
  have ix: "24 - i * 8 = 8 * (4 - 1 - i)" for i :: nat by simp
  show ?thesis unfolding be_bytes_map by (simp only: eq ix)
qed

lemma sha256_final_spec:
  assumes "ctx_of msg ctx"
  shows "snd (sha256_final ctx) = sha256_spec msg"
    and "length (sha_data (fst (sha256_final ctx))) = 64"
proof -
  let ?i = "sha_datalen ctx" and ?q = "64 * (length msg div 64)" and ?len = "of_nat (8 * length msg) :: u64"
  let ?h = "take ?q msg" and ?t = "drop ?q msg" and ?lb = "be_bytes 8 (of_nat (8 * length msg) :: u64)"
  have i: "?i = length msg mod 64" "?i < 64" and tail: "take ?i (sha_data ctx) = ?t" and len: "length (sha_data ctx) = 64"
    and bl: "sha_bitlen ctx = of_nat (512 * (length msg div 64))"
    and st: "sha_state ctx = foldl sha_compress sha_iv (blocks msg)"
    using assms by (auto simp: ctx_of_def)
  have lt: "length ?t = ?i" using i by (simp add: minus_mult_div_eq_mod)
  have lh: "length ?h mod 64 = 0" by (simp add: min_absorb2 times_div_less_eq_dividend)
  have "512 * (length msg div 64) + ?i * 8 = 8 * length msg" using div_mult_mod_eq [of "length msg" 64] i(1) by linarith
  then have bits: "sha_bitlen ctx + of_nat (?i * 8) = ?len" unfolding bl by (metis of_nat_add)
  have lb: "map (\<lambda>j. ucast (drop_bit (8 * (7 - j)) ?len)) [0 ..< 8] = ?lb" by (simp add: be_bytes_map)
  define f where "f = (if ?i < 56 then [?t @ [0x80] @ replicate (55 - ?i) 0 @ ?lb]
    else [?t @ [0x80] @ replicate (63 - ?i) 0, replicate 56 0 @ ?lb])"
  have zeros: "(119 - ?i) mod 64 = (if ?i < 56 then 55 - ?i else (63 - ?i) + 56)"
  proof (cases "?i < 56")
    case True
    then have "119 - ?i = (55 - ?i) + 64" by simp
    with True show ?thesis by (simp only: mod_add_self2) simp
  qed (use i(2) in simp)
  have "sha_pad msg = ?h @ ?t @ [0x80] @ replicate ((119 - ?i) mod 64) 0 @ ?lb"
    by (simp add: sha_pad_def i(1))
  moreover have "replicate ((63 - ?i) + 56) (0 :: u8) = replicate (63 - ?i) 0 @ replicate 56 0"
    by (rule replicate_add)
  ultimately have "sha_pad msg = ?h @ concat f"
    unfolding zeros f_def by (cases "?i < 56") (simp_all only: if_True if_False concat.simps append.assoc append_Nil2)
  moreover have "blocks (concat f) = f"
    using lt i(2) blocks_append [of "?t @ [0x80] @ replicate (63 - ?i) 0"]
    by (auto simp: f_def blocks_one)
  ultimately have "blocks (sha_pad msg) = blocks ?h @ f" using blocks_append [OF lh] by simp
  then have bp: "foldl sha_compress sha_iv (blocks (sha_pad msg)) = foldl sha_compress (sha_state ctx) f"
    using blocks_split [of msg] st by simp
  have "sha_state (fst (sha256_final ctx)) = foldl sha_compress (sha_state ctx) f"
    using tail lt i(2) len bits lb
    by (simp add: sha256_final_def sha256_transform_def Let_def f_def take_Cons')
  then show "snd (sha256_final ctx) = sha256_spec msg"
    by (simp add: sha256_spec_def bp sha256_final_def Let_def digest_bytes)
  show "length (sha_data (fst (sha256_final ctx))) = 64"
    using len i(2) by (simp add: sha256_final_def sha256_transform_def Let_def)
qed

lemma sha256_run_spec:
  assumes "length (sha_data ctx) = 64"
  shows "snd (sha256_run ctx msgs) = sha256_spec (concat msgs)"
    and "length (sha_data (fst (sha256_run ctx msgs))) = 64"
  using sha256_final_spec [OF ctx_of_updates [OF ctx_of_init [OF assms]]] by (simp_all add: sha256_run_def)

lemma length_compress: "length st = 8 \<Longrightarrow> length (sha_compress st data) = 8"
proof -
  have round: "length (sha_round m st i) = length st" for m st i
    by (induction m st i rule: sha_round.induct) (simp_all add: Let_def)
  have "length (foldl (sha_round m) st is) = length st" for m st "is"
    by (induction "is" arbitrary: st) (simp_all add: round)
  then show "length st = 8 \<Longrightarrow> length (sha_compress st data) = 8" by (simp add: sha_compress_def)
qed

lemma length_sha256_spec [simp]: "length (sha256_spec msg) = 32"
proof -
  have "length st = 8 \<Longrightarrow> length (foldl sha_compress st bs) = 8" for st bs
    by (induction bs arbitrary: st) (simp_all add: length_compress)
  then have "length (foldl sha_compress sha_iv (blocks (sha_pad msg))) = 8" by (simp add: sha_iv_def)
  moreover have "length (concat (map (be_bytes 4) ws)) = 4 * length ws" for ws :: "u32 list"
    by (induction ws) simp_all
  ultimately show ?thesis by (simp add: sha256_spec_def)
qed

lemma hmac_sha256_spec:
  assumes "length (sha_data ctx) = 64"
  shows "hmac_sha256 ctx key data = hmac_spec key data"
proof -
  define c1 where "c1 = (if length key > 64 then fst (sha256_run ctx [key]) else ctx)"
  define k0 where "k0 = (let k = (if length key > 64 then sha256_spec key else key) in k @ replicate (64 - length k) 0)"
  have c1: "length (sha_data c1) = 64" using assms sha256_run_spec(2) by (simp add: c1_def)
  have "(if length key > 64 then (case sha256_run ctx [key] of (c, d) \<Rightarrow> (c, d @ replicate 32 0))
      else (ctx, key @ replicate (64 - length key) 0)) = (c1, k0)"
    using sha256_run_spec(1) [OF assms, of "[key]"] by (simp add: c1_def k0_def Let_def case_prod_beta)
  then show ?thesis
    using sha256_run_spec [OF c1] sha256_run_spec(1) [OF sha256_run_spec(2) [OF c1]]
    by (simp add: hmac_sha256_def hmac_spec_def Let_def case_prod_beta k0_def)
qed

section \<open>Properties\<close>

text \<open>
  C26: the incremental hash is SHA-256 of the concatenation.  Feeding a message in pieces of any
  sizes and finishing gives the digest of the reference definition (padding with the 64-bit length,
  then the compression function over the blocks) on the whole message, whatever the context
  held before.
\<close>

theorem sha256_incremental:
  assumes "length (sha_data ctx) = 64"
  shows "snd (sha256_final (foldl sha256_update (sha256_init ctx) msgs)) = sha256_spec (concat msgs)
    \<and> length (sha256_spec (concat msgs)) = 32"
  using sha256_run_spec(1) [OF assms] by (simp add: sha256_run_def)

text \<open>
  C27: \<open>hmac_sha256\<close> is HMAC: for keys shorter, equal to and longer than a block it computes the
  nested hash of RFC 2104.
\<close>

theorem hmac_sha256_rfc2104:
  assumes "length (sha_data ctx) = 64"
  shows "hmac_sha256 ctx key data = hmac_spec key data"
  using hmac_sha256_spec [OF assms] .

definition demo_ctx :: sha256_ctx where
  "demo_ctx = \<lparr>sha_data = replicate 64 0xAA, sha_datalen = 17, sha_bitlen = 3, sha_state = []\<rparr>"

theorem sha256_incremental_witness:
  "snd (sha256_final (foldl sha256_update (sha256_init demo_ctx) [cstr ''a'', [], cstr ''bc'']))
     = sha256_spec (cstr ''abc'')"
  using sha256_incremental [of demo_ctx "[cstr ''a'', [], cstr ''bc'']"] by (simp add: demo_ctx_def)

theorem hmac_sha256_rfc2104_witness:
  "hmac_sha256 demo_ctx (replicate 100 1) (cstr ''m'') = hmac_spec (replicate 100 1) (cstr ''m'')"
  using hmac_sha256_rfc2104 [of demo_ctx] by (simp add: demo_ctx_def)

end
