(* ===== verification/Dmmr_Cluster_Auth.thy ===== *)
theory Dmmr_Cluster_Auth
  imports Dmmr_Cluster_Frame Dmmr_Sha256
begin

unbundle bit_operations_syntax

text \<open>
  Authentication between nodes (\<open>dmmr_cluster.c\<close>): nonces, the authentication code of a session, the
  client's handshake and the server's answer.  The context of \<open>hmac_sha256\<close> is an uninitialised local
  variable of the code and a parameter \<open>ctx\<close> here.
\<close>

section \<open>Nonces\<close>

text \<open>\<open>en_urandom\<close> is what reading \<open>/dev/urandom\<close> gave, \<open>None\<close> if it could not be opened; the other fields
  are the results of \<open>time\<close> and of the two calls of \<open>rand\<close>.\<close>

record entropy =
  en_urandom :: "bytes option"
  en_time :: u64
  en_rand1 :: u64
  en_rand2 :: u64

definition generate_nonce :: "entropy \<Rightarrow> u64" where
  "generate_nonce e =
     (let fallback = (push_bit 32 (en_time e) XOR push_bit 16 (en_rand1 e)) XOR en_rand2 e in
      case en_urandom e of
        None \<Rightarrow> fallback
      | Some bs \<Rightarrow> if length bs \<noteq> 8 then fallback else of_le bs)"

section \<open>The handshake\<close>

definition AUTH_TTL_MICROS :: u64 where [const_defs]: "AUTH_TTL_MICROS = 10 * 60 * 1000000"

definition compute_auth_hmac :: "sha256_ctx \<Rightarrow> bytes \<Rightarrow> bytes \<Rightarrow> u64 \<Rightarrow> bytes \<Rightarrow> bytes" where
  "compute_auth_hmac ctx nonce_a nonce_b expire_at secret =
     hmac_sha256 ctx secret (nonce_a @ nonce_b @ le_bytes 8 (htonll expire_at))"

text \<open>The exchange the client runs: \<open>Some expire_at\<close> on success.\<close>

definition auth_exchange :: "cluster_cfg \<Rightarrow> sha256_ctx \<Rightarrow> u64 \<Rightarrow> bool \<Rightarrow> sock \<Rightarrow> (u64 option \<times> sock) option" where
  "auth_exchange cfg ctx nonce_a mem_ok s =
     (let net_nonce_a = le_bytes 8 (htonll nonce_a) in
      case cluster_send_frame cfg OP_AUTH_REQUEST FLAG_NONE None 0 (Some net_nonce_a) 8 0 (cfg_node_id cfg) 0 s of
        None \<Rightarrow> None
      | Some (rc, s1) \<Rightarrow>
          if rc \<noteq> 0 then Some (None, s1)
          else (case cluster_recv_frame mem_ok s1 of
            None \<Rightarrow> None
          | Some (None, s2) \<Rightarrow> Some (None, s2)
          | Some (Some (resp, payload), s2) \<Rightarrow>
              if cf_opcode resp \<noteq> OP_AUTH_RESPONSE \<or> unat (cf_value_len resp) < 48 then Some (None, s2)
              else let p = payload_bytes payload;
                       k = unat (cf_key_len resp);
                       nonce_b = ntohll (of_le (sub k 8 p));
                       expire_at = ntohll (of_le (sub (k + 8) 8 p));
                       recv_hmac = sub (k + 16) 32 p;
                       expected_hmac = compute_auth_hmac ctx net_nonce_a (le_bytes 8 nonce_b) expire_at (cluster_secret cfg)
                in if recv_hmac \<noteq> expected_hmac then Some (None, s2)
                   else (case cluster_send_frame cfg OP_AUTH_OK FLAG_NONE None 0 None 0 0 (cfg_node_id cfg) 0 s2 of
                           None \<Rightarrow> None
                         | Some (rc, s3) \<Rightarrow> if rc \<noteq> 0 then Some (None, s3) else Some (Some expire_at, s3))))"

text \<open>The result code, and the new contents of \<open>*out_expire_at\<close> if it is written.\<close>

definition cluster_handshake_client ::
  "cluster_cfg \<Rightarrow> sha256_ctx \<Rightarrow> u64 \<Rightarrow> bool \<Rightarrow> sock \<Rightarrow> (int \<times> u64 option \<times> sock) option" where
  "cluster_handshake_client cfg ctx nonce_a mem_ok s =
     (if cluster_secret cfg = [] then Some (0, None, s)
      else case auth_exchange cfg ctx nonce_a mem_ok s of
        None \<Rightarrow> None
      | Some (None, s') \<Rightarrow> Some (- 1, None, s')
      | Some (Some expire_at, s') \<Rightarrow> Some (0, Some expire_at, s'))"

text \<open>The server's answer to a request: the payload of \<open>AUTH_RESPONSE\<close>, and sending it.\<close>

definition auth_response :: "cluster_cfg \<Rightarrow> sha256_ctx \<Rightarrow> bytes \<Rightarrow> u64 \<Rightarrow> u64 \<Rightarrow> bytes" where
  "auth_response cfg ctx nonce_a nonce_b expire_at =
     le_bytes 8 (htonll nonce_b) @ le_bytes 8 (htonll expire_at) @
       compute_auth_hmac ctx nonce_a (le_bytes 8 nonce_b) expire_at (cluster_secret cfg)"

definition auth_answer :: "cluster_cfg \<Rightarrow> sha256_ctx \<Rightarrow> bytes \<Rightarrow> u64 \<Rightarrow> u64 \<Rightarrow> sock \<Rightarrow> (int \<times> sock) option" where
  "auth_answer cfg ctx nonce_a nonce_b expire_at s =
     cluster_send_frame cfg OP_AUTH_RESPONSE FLAG_NONE None 0 (Some (auth_response cfg ctx nonce_a nonce_b expire_at)) 48
       0 (cfg_node_id cfg) 0 s"

section \<open>The messages of a handshake\<close>

definition auth_request_msg :: "cluster_cfg \<Rightarrow> u64 \<Rightarrow> dmmr_cluster_frame \<times> bytes" where
  "auth_request_msg cfg nonce_a =
     (cluster_header cfg OP_AUTH_REQUEST FLAG_NONE 0 8 0 (cfg_node_id cfg) 0, be_bytes 8 nonce_a)"

definition auth_response_msg :: "cluster_cfg \<Rightarrow> bytes \<Rightarrow> u64 \<Rightarrow> u64 \<Rightarrow> dmmr_cluster_frame \<times> bytes" where
  "auth_response_msg cfg nonce_a nonce_b expire_at =
     (cluster_header cfg OP_AUTH_RESPONSE FLAG_NONE 0 48 0 (cfg_node_id cfg) 0,
      be_bytes 8 nonce_b @ be_bytes 8 expire_at @
        hmac_spec (cluster_secret cfg) (nonce_a @ le_bytes 8 nonce_b @ be_bytes 8 expire_at))"

definition auth_ok_msg :: "cluster_cfg \<Rightarrow> dmmr_cluster_frame \<times> bytes" where
  "auth_ok_msg cfg = (cluster_header cfg OP_AUTH_OK FLAG_NONE 0 0 0 (cfg_node_id cfg) 0, [])"

lemma sub_split: "sub off (m + n) bs = sub off m bs @ sub (off + m) n bs"
  by (simp add: sub_def take_add add.commute)

lemma length_hmac_spec [simp]: "length (hmac_spec k m) = 32"
  by (simp add: hmac_spec_def Let_def length_sha256_spec)

lemma auth_hmac_spec:
  "length (sha_data ctx) = 64 \<Longrightarrow>
   compute_auth_hmac ctx a b ex secret = hmac_spec secret (a @ b @ be_bytes 8 ex)"
  by (simp add: compute_auth_hmac_def hmac_sha256_spec codec_simps)

lemma auth_msgs_ok [simp]:
  "cluster_msg_ok (auth_request_msg cfg a)" "cluster_msg_ok (auth_response_msg cfg na nb ex)"
  "cluster_msg_ok (auth_ok_msg cfg)"
  by (simp_all add: cluster_msg_ok_def auth_request_msg_def auth_response_msg_def auth_ok_msg_def
      cluster_header_def const_defs)

lemma auth_msgs_fields [simp]:
  "cf_opcode (fst (auth_request_msg cfg a)) = OP_AUTH_REQUEST" "cf_key_len (fst (auth_request_msg cfg a)) = 0"
  "cf_value_len (fst (auth_request_msg cfg a)) = 8" "snd (auth_request_msg cfg a) = be_bytes 8 a"
  "cf_opcode (fst (auth_response_msg cfg na nb ex)) = OP_AUTH_RESPONSE"
  "cf_key_len (fst (auth_response_msg cfg na nb ex)) = 0" "cf_value_len (fst (auth_response_msg cfg na nb ex)) = 48"
  "cf_opcode (fst (auth_ok_msg cfg)) = OP_AUTH_OK" "snd (auth_ok_msg cfg) = []"
  by (simp_all add: auth_request_msg_def auth_response_msg_def auth_ok_msg_def cluster_header_def)

lemma send_auth_request:
  assumes "tx_live (56 + k) (s_tx s)"
  shows "\<exists>evs e. cluster_send_frame cfg OP_AUTH_REQUEST FLAG_NONE None 0 (Some (le_bytes 8 (htonll a))) 8 0 (cfg_node_id cfg) 0 s
     = Some (0, s\<lparr>s_tx := evs, s_errno_eintr := e, s_out := s_out s @ cluster_wire (auth_request_msg cfg a)\<rparr>) \<and> tx_live k evs"
  using cluster_send_live [of None 0 "Some (le_bytes 8 (htonll a))" 8 cfg OP_AUTH_REQUEST FLAG_NONE 0 "cfg_node_id cfg" 0 k s] assms
  by (simp add: args_ok_def args_payload_def auth_request_msg_def length_cluster_wire codec_simps const_defs)

lemma send_auth_ok:
  assumes "tx_live (48 + k) (s_tx s)"
  shows "\<exists>evs e. cluster_send_frame cfg OP_AUTH_OK FLAG_NONE None 0 None 0 0 (cfg_node_id cfg) 0 s
     = Some (0, s\<lparr>s_tx := evs, s_errno_eintr := e, s_out := s_out s @ cluster_wire (auth_ok_msg cfg)\<rparr>) \<and> tx_live k evs"
  using cluster_send_live [of None 0 None 0 cfg OP_AUTH_OK FLAG_NONE 0 "cfg_node_id cfg" 0 k s] assms
  by (simp add: args_ok_def args_payload_def auth_ok_msg_def length_cluster_wire)

lemma auth_answer_sends:
  assumes "tx_live (96 + k) (s_tx s)" and "length (sha_data ctx) = 64"
  shows "\<exists>evs e. auth_answer cfg ctx na nb ex s
     = Some (0, s\<lparr>s_tx := evs, s_errno_eintr := e, s_out := s_out s @ cluster_wire (auth_response_msg cfg na nb ex)\<rparr>)
     \<and> tx_live k evs"
proof -
  have r: "auth_response cfg ctx na nb ex = be_bytes 8 nb @ be_bytes 8 ex @
      hmac_spec (cluster_secret cfg) (na @ le_bytes 8 nb @ be_bytes 8 ex)"
    using assms(2) by (simp add: auth_response_def auth_hmac_spec codec_simps)
  show ?thesis
    using cluster_send_live [of None 0 "Some (auth_response cfg ctx na nb ex)" 48 cfg OP_AUTH_RESPONSE FLAG_NONE 0 "cfg_node_id cfg" 0 k s]
      assms(1)
    by (simp add: args_ok_def args_payload_def auth_answer_def auth_response_msg_def r length_cluster_wire const_defs)
qed

lemma auth_exchange_accepts:
  assumes ctx: "length (sha_data ctx) = 64" and live: "tx_live (104 + k) (s_tx s)"
    and secret: "cluster_secret srv = cluster_secret cfg"
    and stream: "stream_of (s_rx s) = cluster_wire (auth_response_msg srv (be_bytes 8 nonce_a) nonce_b expire_at) @ rest"
  shows "\<exists>s'. auth_exchange cfg ctx nonce_a True s = Some (Some expire_at, s')
     \<and> s_out s' = s_out s @ cluster_wire (auth_request_msg cfg nonce_a) @ cluster_wire (auth_ok_msg cfg)
     \<and> stream_of (s_rx s') = rest \<and> stream_end (s_rx s') = stream_end (s_rx s) \<and> tx_live k (s_tx s')
     \<and> s_open s' = s_open s"
proof -
  let ?m = "auth_response_msg srv (be_bytes 8 nonce_a) nonce_b expire_at"
  obtain t1 e1 where s1: "cluster_send_frame cfg OP_AUTH_REQUEST FLAG_NONE None 0 (Some (le_bytes 8 (htonll nonce_a))) 8 0 (cfg_node_id cfg) 0 s
      = Some (0, s\<lparr>s_tx := t1, s_errno_eintr := e1, s_out := s_out s @ cluster_wire (auth_request_msg cfg nonce_a)\<rparr>)"
    and l1: "tx_live (48 + k) t1" using send_auth_request [of "48 + k" s cfg nonce_a] live by (auto simp: add.assoc)
  let ?s1 = "s\<lparr>s_tx := t1, s_errno_eintr := e1, s_out := s_out s @ cluster_wire (auth_request_msg cfg nonce_a)\<rparr>"
  obtain evs where r: "cluster_recv_frame True ?s1 = Some (Some (fst ?m, payload_opt (snd ?m)), ?s1\<lparr>s_rx := evs\<rparr>)"
    and st: "stream_of evs = rest" "stream_end evs = stream_end (s_rx s)"
    using cluster_recv_msg [of ?m ?s1 rest] stream by auto
  obtain t2 e2 where s3: "cluster_send_frame cfg OP_AUTH_OK FLAG_NONE None 0 None 0 0 (cfg_node_id cfg) 0 (?s1\<lparr>s_rx := evs\<rparr>)
      = Some (0, (?s1\<lparr>s_rx := evs\<rparr>)\<lparr>s_tx := t2, s_errno_eintr := e2,
          s_out := s_out ?s1 @ cluster_wire (auth_ok_msg cfg)\<rparr>)" and l2: "tx_live k t2"
    using send_auth_ok [of k "?s1\<lparr>s_rx := evs\<rparr>" cfg] l1 by auto
  have p: "ntohll (of_le (sub 0 8 (snd ?m))) = nonce_b" "ntohll (of_le (sub 8 8 (snd ?m))) = expire_at"
    "sub 16 32 (snd ?m) = hmac_spec (cluster_secret cfg) (be_bytes 8 nonce_a @ le_bytes 8 nonce_b @ be_bytes 8 expire_at)"
    using secret by (simp_all add: auth_response_msg_def sub_def codec_simps)
  have "auth_exchange cfg ctx nonce_a True s = Some (Some expire_at, (?s1\<lparr>s_rx := evs\<rparr>)\<lparr>s_tx := t2, s_errno_eintr := e2,
          s_out := s_out ?s1 @ cluster_wire (auth_ok_msg cfg)\<rparr>)"
    using s1 r s3 p ctx by (simp add: auth_exchange_def Let_def auth_hmac_spec codec_simps)
  with l2 st show ?thesis by simp
qed

text \<open>What an accepted handshake has seen.\<close>

lemma auth_exchange_seen:
  assumes "auth_exchange cfg ctx nonce_a mem_ok s = Some (Some expire_at, s')" and "length (sha_data ctx) = 64"
  shows "\<exists>s1 s2 resp p (nonce_b :: u64). cluster_recv_frame mem_ok s1 = Some (Some (resp, Some p), s2)
     \<and> s_rx s1 = s_rx s \<and> cf_opcode resp = OP_AUTH_RESPONSE
     \<and> sub (unat (cf_key_len resp)) 48 p = be_bytes 8 nonce_b @ be_bytes 8 expire_at @
         hmac_spec (cluster_secret cfg) (be_bytes 8 nonce_a @ le_bytes 8 nonce_b @ be_bytes 8 expire_at)"
proof -
  let ?send = "cluster_send_frame cfg OP_AUTH_REQUEST FLAG_NONE None 0 (Some (le_bytes 8 (htonll nonce_a))) 8 0 (cfg_node_id cfg) 0 s"
  from assms(1) obtain s1 resp payload s2 where s1: "?send = Some (0, s1)"
    and r: "cluster_recv_frame mem_ok s1 = Some (Some (resp, payload), s2)"
    and op: "cf_opcode resp = OP_AUTH_RESPONSE" and len: "unat (cf_value_len resp) \<ge> 48"
    and ex: "expire_at = ntohll (of_le (sub (unat (cf_key_len resp) + 8) 8 (payload_bytes payload)))"
    and mac: "sub (unat (cf_key_len resp) + 16) 32 (payload_bytes payload) = compute_auth_hmac ctx (le_bytes 8 (htonll nonce_a))
        (le_bytes 8 (ntohll (of_le (sub (unat (cf_key_len resp)) 8 (payload_bytes payload))))) expire_at (cluster_secret cfg)"
    by (auto simp: auth_exchange_def Let_def split: option.splits prod.splits if_splits)
  define p where "p = payload_bytes payload"
  define k where "k = unat (cf_key_len resp)"
  define nonce_b :: u64 where "nonce_b = ntohll (of_le (sub k 8 p))"
  have lp: "length p = k + unat (cf_value_len resp)"
    using cluster_recv_wf(1) [OF r] by (simp add: cluster_msg_ok_def p_def k_def)
  have pay: "payload = Some p"
    using lp len by (cases payload) (simp_all add: p_def)
  have "be_bytes 8 nonce_b = sub k 8 p" "be_bytes 8 expire_at = sub (k + 8) 8 p"
    using lp len by (simp_all add: nonce_b_def ex codec_simps be_bytes_of_be flip: p_def k_def)
  moreover have "sub k 48 p = sub k 8 p @ sub (k + 8) 8 p @ sub (k + 16) 32 p"
    using sub_split [of k 8 40 p] sub_split [of "k + 8" 8 32 p] by (simp add: add.assoc)
  moreover have "sub (k + 16) 32 p
      = hmac_spec (cluster_secret cfg) (be_bytes 8 nonce_a @ le_bytes 8 nonce_b @ be_bytes 8 expire_at)"
    using mac assms(2) by (simp add: auth_hmac_spec nonce_b_def codec_simps flip: p_def k_def)
  ultimately have "sub (unat (cf_key_len resp)) 48 p = be_bytes 8 nonce_b @ be_bytes 8 expire_at @
         hmac_spec (cluster_secret cfg) (be_bytes 8 nonce_a @ le_bytes 8 nonce_b @ be_bytes 8 expire_at)"
    by (simp add: k_def)
  moreover have "s_rx s1 = s_rx s" using cluster_send_rx [OF s1] by simp
  ultimately show ?thesis using r op pay by blast
qed

section \<open>Properties\<close>

text \<open>C30: two nodes with the same secret complete the handshake.  If the server answers the request of the
  client with its own nonce and expiry, the client accepts the answer, learns the server's expiry, has sent
  its request and the final acknowledgement and nothing else, and the connection is ready for the session.\<close>

theorem handshake_completes:
  assumes "cluster_secret cfg \<noteq> []" and "cluster_secret srv = cluster_secret cfg"
    and "length (sha_data ctx) = 64" and "length (sha_data ctx') = 64"
    and "tx_live 96 (s_tx t)"
  shows "\<exists>t'. auth_answer srv ctx' (le_bytes 8 (htonll nonce_a)) nonce_b expire_at t = Some (0, t')
     \<and> (\<forall>s. tx_live 104 (s_tx s) \<and> s_out t' = s_out t @ stream_of (s_rx s) \<longrightarrow>
          (\<exists>s'. cluster_handshake_client cfg ctx nonce_a True s = Some (0, Some expire_at, s')
             \<and> s_out s' = s_out s @ cluster_wire (auth_request_msg cfg nonce_a) @ cluster_wire (auth_ok_msg cfg)
             \<and> stream_of (s_rx s') = []))"
proof -
  let ?wire = "cluster_wire (auth_response_msg srv (be_bytes 8 nonce_a) nonce_b expire_at)"
  obtain t' where t': "auth_answer srv ctx' (le_bytes 8 (htonll nonce_a)) nonce_b expire_at t = Some (0, t')"
    "s_out t' = s_out t @ ?wire"
    using auth_answer_sends [of 0 t ctx' srv "le_bytes 8 (htonll nonce_a)" nonce_b expire_at] assms(4,5)
    by (auto simp: codec_simps)
  have "\<exists>s'. cluster_handshake_client cfg ctx nonce_a True s = Some (0, Some expire_at, s')
             \<and> s_out s' = s_out s @ cluster_wire (auth_request_msg cfg nonce_a) @ cluster_wire (auth_ok_msg cfg)
             \<and> stream_of (s_rx s') = []"
    if "tx_live 104 (s_tx s)" "stream_of (s_rx s) = ?wire" for s
    using auth_exchange_accepts [OF assms(3) _ assms(2), of 0 s nonce_a nonce_b expire_at "[]"] that assms(1)
    by (auto simp: cluster_handshake_client_def)
  with t' show ?thesis by auto
qed

text \<open>C31: the client authenticates the server.  If the handshake of a node with a secret succeeds, then the
  peer sent an \<open>AUTH_RESPONSE\<close> that carries the HMAC, under the client's secret, of exactly the nonce of
  this client for this session, the server's nonce and the expiry the client then uses.\<close>

theorem handshake_authenticates_server:
  assumes "cluster_handshake_client cfg ctx nonce_a mem_ok s = Some (0, expire, s')" and "cluster_secret cfg \<noteq> []"
    and "length (sha_data ctx) = 64"
  shows "\<exists>s1 s2 resp p (nonce_b :: u64) expire_at. expire = Some expire_at
     \<and> cluster_recv_frame mem_ok s1 = Some (Some (resp, Some p), s2) \<and> s_rx s1 = s_rx s
     \<and> cf_opcode resp = OP_AUTH_RESPONSE
     \<and> sub (unat (cf_key_len resp)) 48 p = be_bytes 8 nonce_b @ be_bytes 8 expire_at @
         hmac_spec (cluster_secret cfg) (be_bytes 8 nonce_a @ le_bytes 8 nonce_b @ be_bytes 8 expire_at)"
proof -
  from assms(1,2) obtain expire_at where "expire = Some expire_at"
    and "auth_exchange cfg ctx nonce_a mem_ok s = Some (Some expire_at, s')"
    by (auto simp: cluster_handshake_client_def split: option.splits prod.splits)
  with auth_exchange_seen [OF this(2) assms(3)] show ?thesis by blast
qed

lemma demo_ctx_len [simp]: "length (sha_data demo_ctx) = 64"
  by (simp add: demo_ctx_def)

lemma demo_secret [simp]: "cluster_secret demo_cfg = cstr ''s3cret''" "cluster_secret demo_cfg \<noteq> []"
  by (simp_all add: demo_cfg_def)

definition demo_answer :: bytes where
  "demo_answer = cluster_wire (auth_response_msg demo_cfg (be_bytes 8 (11 :: u64)) 22 33)"

theorem handshake_completes_witness:
  "\<exists>s'. cluster_handshake_client demo_cfg demo_ctx 11 True (wire_sock demo_answer) = Some (0, Some 33, s')"
proof -
  obtain t' where "auth_answer demo_cfg demo_ctx (le_bytes 8 (htonll 11)) 22 33 (wire_sock []) = Some (0, t')"
    "s_out t' = stream_of (s_rx (wire_sock demo_answer))"
    using auth_answer_sends [of 0 "wire_sock []" demo_ctx demo_cfg "le_bytes 8 (htonll 11)" 22 33]
    by (auto simp: demo_answer_def codec_simps)
  moreover have "tx_live 104 (s_tx (wire_sock demo_answer))" by simp
  ultimately show ?thesis
    using handshake_completes [of demo_cfg demo_cfg demo_ctx demo_ctx "wire_sock []" 11 22 33] by fastforce
qed

theorem handshake_authenticates_server_witness:
  "\<exists>s1 s2 resp p nonce_b. cluster_recv_frame True s1 = Some (Some (resp, Some p), s2)
     \<and> s_rx s1 = s_rx (wire_sock demo_answer) \<and> cf_opcode resp = OP_AUTH_RESPONSE
     \<and> sub (unat (cf_key_len resp)) 48 p = be_bytes 8 nonce_b @ be_bytes 8 (33 :: u64) @
         hmac_spec (cstr ''s3cret'') (be_bytes 8 (11 :: u64) @ le_bytes 8 (nonce_b :: u64) @ be_bytes 8 (33 :: u64))"
proof -
  obtain s' where h: "cluster_handshake_client demo_cfg demo_ctx 11 True (wire_sock demo_answer) = Some (0, Some 33, s')"
    using auth_exchange_accepts [of demo_ctx 0 "wire_sock demo_answer" demo_cfg demo_cfg 11 22 33 "[]"]
    by (auto simp: cluster_handshake_client_def demo_answer_def)
  from handshake_authenticates_server [OF h] show ?thesis by fastforce
qed

end
