(* ===== verification/Dmmr_Db.thy ===== *)
theory Dmmr_Db
  imports Dmmr_Protocol "HOL-Library.Product_Lexorder"
begin

unbundle bit_operations_syntax

text \<open>
  \<open>dmmr_db.c\<close>: the record store over Berkeley DB with last-writer-wins (LWW) updates.

  Berkeley DB is not part of the repository: its \<open>get\<close> and \<open>put\<close> are the fields of a record
  \<open>bdb\<close> the operations take as an argument, and \<open>bdb_contract\<close> states what the code relies on.
  The handle \<open>dbp\<close> is \<open>None\<close> before \<open>init_db\<close> and after \<open>close_db\<close>.  \<open>mem_ok\<close> says whether the
  next \<open>calloc\<close> succeeds.  A pointer argument that may be \<open>NULL\<close> is an option.
\<close>

section \<open>Berkeley DB\<close>

datatype bdb_get_result = GetOk bytes | GetNotFound | GetError

record 's bdb =
  bdb_get :: "'s \<Rightarrow> bytes \<Rightarrow> bdb_get_result"
  bdb_put :: "'s \<Rightarrow> bytes \<Rightarrow> bytes \<Rightarrow> bool \<times> 's"

text \<open>Documented behaviour of \<open>DB->put\<close> and \<open>DB->get\<close> on a B-tree without duplicates: a successful
  put replaces the datum of its key and touches no other key.\<close>

definition bdb_contract :: "'s bdb \<Rightarrow> bool" where
  "bdb_contract B \<longleftrightarrow>
     (\<forall>s k d s'. bdb_put B s k d = (True, s') \<longrightarrow>
        bdb_get B s' k = GetOk d \<and> (\<forall>k'. k' \<noteq> k \<longrightarrow> bdb_get B s' k' = bdb_get B s k'))"

lemma bdb_put_get:
  assumes "bdb_contract B" and "bdb_put B s k d = (True, s')"
  shows "bdb_get B s' k' = (if k' = k then GetOk d else bdb_get B s k')"
  using assms by (auto simp: bdb_contract_def)

text \<open>A store none of whose operations fails.\<close>

definition bdb_reliable :: "'s bdb \<Rightarrow> bool" where
  "bdb_reliable B \<longleftrightarrow> (\<forall>s k d. fst (bdb_put B s k d)) \<and> (\<forall>s k. bdb_get B s k \<noteq> GetError)"

section \<open>Records\<close>

datatype db_result = DMMR_DB_APPLIED | DMMR_DB_IGNORED | DMMR_DB_NOT_FOUND | DMMR_DB_ERROR

definition entry_is_valid :: "bytes \<Rightarrow> bool" where
  "entry_is_valid data =
     (if length data < entry_size then False
      else let entry = entry_of_mem data; value_len = unat (dmmr_record_value_len entry) in
        if value_len > MAX_VALUE_LEN \<or> length data < entry_size + value_len then False
        else if dmmr_record_is_tombstone entry \<and> value_len \<noteq> 0 then False
        else True)"

definition incoming_wins :: "cache_entry \<Rightarrow> u64 \<Rightarrow> u64 \<Rightarrow> bool" where
  "incoming_wins existing timestamp node_id \<longleftrightarrow>
     ce_timestamp existing < timestamp \<or>
     (ce_timestamp existing = timestamp \<and> ce_node_id existing < node_id)"

definition record_image :: "u64 \<Rightarrow> u64 \<Rightarrow> u64 \<Rightarrow> bool \<Rightarrow> bytes \<Rightarrow> bytes" where
  "record_image timestamp node_id expire_at tombstone value =
     entry_mem \<lparr>ce_timestamp = timestamp, ce_node_id = node_id,
       ce_value_len = (if tombstone then DMMR_RECORD_TOMBSTONE else of_nat (length value)),
       ce_expire_at = expire_at\<rparr> @ (if tombstone then [] else value)"

definition put_record_locked ::
  "'s bdb \<Rightarrow> bool \<Rightarrow> bytes \<Rightarrow> u64 \<Rightarrow> u64 \<Rightarrow> u64 \<Rightarrow> bool \<Rightarrow> bytes \<Rightarrow> 's \<Rightarrow> db_result \<times> 's" where
  "put_record_locked B mem_ok key timestamp node_id expire_at tombstone value s =
     (if \<not> mem_ok then (DMMR_DB_ERROR, s)
      else case bdb_put B s key (record_image timestamp node_id expire_at tombstone value) of
        (ok, s') \<Rightarrow> (if ok then DMMR_DB_APPLIED else DMMR_DB_ERROR, s'))"

section \<open>Operations\<close>

text \<open>\<open>db_create\<close> sets the handle before \<open>open\<close> is tried on it.\<close>

definition init_db :: "bool \<Rightarrow> bool \<Rightarrow> 's \<Rightarrow> 's option \<Rightarrow> int \<times> 's option" where
  "init_db create_ok open_ok s dbp =
     (if \<not> create_ok then (- 1, dbp) else if \<not> open_ok then (- 1, Some s) else (0, Some s))"

definition close_db :: "'s option \<Rightarrow> 's option" where
  "close_db dbp = None"

record db_got =
  got_ts :: u64
  got_node :: u64
  got_value :: "bytes option"
  got_value_len :: nat
  got_expire :: u64

definition db_get_with_meta ::
  "'s bdb \<Rightarrow> bool \<Rightarrow> bytes option \<Rightarrow> bool \<Rightarrow> 's option \<Rightarrow> db_result \<times> db_got option" where
  "db_get_with_meta B mem_ok key want_value dbp =
     (case key of
        None \<Rightarrow> (DMMR_DB_ERROR, None)
      | Some k \<Rightarrow>
          if length k = 0 \<or> length k > MAX_KEY_LEN then (DMMR_DB_ERROR, None)
          else case dbp of
            None \<Rightarrow> (DMMR_DB_ERROR, None)
          | Some s \<Rightarrow>
              (case bdb_get B s k of
                 GetNotFound \<Rightarrow> (DMMR_DB_NOT_FOUND, None)
               | GetError \<Rightarrow> (DMMR_DB_ERROR, None)
               | GetOk data \<Rightarrow>
                   if \<not> entry_is_valid data then (DMMR_DB_ERROR, None)
                   else let entry = entry_of_mem data in
                     if dmmr_record_is_tombstone entry then (DMMR_DB_NOT_FOUND, None)
                     else let value_len = unat (dmmr_record_value_len entry);
                              got = \<lparr>got_ts = ce_timestamp entry, got_node = ce_node_id entry,
                                got_value = None, got_value_len = value_len,
                                got_expire = ce_expire_at entry\<rparr>
                       in if want_value \<and> value_len > 0 then
                            (if \<not> mem_ok then (DMMR_DB_ERROR, Some got)
                             else (DMMR_DB_APPLIED,
                                Some (got\<lparr>got_value := Some (sub entry_size value_len data)\<rparr>)))
                          else (DMMR_DB_APPLIED, Some got)))"

definition db_apply_record ::
  "'s bdb \<Rightarrow> bool \<Rightarrow> bytes option \<Rightarrow> u64 \<Rightarrow> u64 \<Rightarrow> u64 \<Rightarrow> bool \<Rightarrow> bytes option \<Rightarrow> nat \<Rightarrow>
     's option \<Rightarrow> db_result \<times> 's option" where
  "db_apply_record B mem_ok key timestamp node_id expire_at tombstone value value_len dbp =
     (case key of
        None \<Rightarrow> (DMMR_DB_ERROR, dbp)
      | Some k \<Rightarrow>
          if length k = 0 \<or> length k > MAX_KEY_LEN \<or> value_len > MAX_VALUE_LEN \<or>
             (tombstone \<and> value_len \<noteq> 0) \<or> (\<not> tombstone \<and> value_len > 0 \<and> value = None)
          then (DMMR_DB_ERROR, dbp)
          else case dbp of
            None \<Rightarrow> (DMMR_DB_ERROR, dbp)
          | Some s \<Rightarrow>
              let put = (case put_record_locked B mem_ok k timestamp node_id expire_at tombstone
                           (case value of None \<Rightarrow> [] | Some v \<Rightarrow> take value_len v) s of
                           (rc, s') \<Rightarrow> (rc, Some s')) in
              (case bdb_get B s k of
                 GetOk old \<Rightarrow>
                   if \<not> entry_is_valid old then (DMMR_DB_ERROR, dbp)
                   else if \<not> incoming_wins (entry_of_mem old) timestamp node_id
                   then (DMMR_DB_IGNORED, dbp)
                   else put
               | GetNotFound \<Rightarrow> put
               | GetError \<Rightarrow> (DMMR_DB_ERROR, dbp)))"

definition db_set_with_meta ::
  "'s bdb \<Rightarrow> bool \<Rightarrow> bytes option \<Rightarrow> u64 \<Rightarrow> u64 \<Rightarrow> bytes option \<Rightarrow> nat \<Rightarrow> u64 \<Rightarrow>
     's option \<Rightarrow> db_result \<times> 's option" where
  "db_set_with_meta B mem_ok key timestamp node_id value value_len expire_at dbp =
     db_apply_record B mem_ok key timestamp node_id expire_at False value value_len dbp"

definition db_tombstone_if_match ::
  "'s bdb \<Rightarrow> bool \<Rightarrow> bytes option \<Rightarrow> u64 \<Rightarrow> u64 \<Rightarrow> u64 \<Rightarrow> u64 \<Rightarrow> u64 \<Rightarrow>
     's option \<Rightarrow> db_result \<times> 's option" where
  "db_tombstone_if_match B mem_ok key observed_ts observed_node_id observed_expire_at
       tombstone_ts tombstone_node_id dbp =
     (case key of
        None \<Rightarrow> (DMMR_DB_ERROR, dbp)
      | Some k \<Rightarrow>
          if length k = 0 \<or> length k > MAX_KEY_LEN then (DMMR_DB_ERROR, dbp)
          else case dbp of
            None \<Rightarrow> (DMMR_DB_ERROR, dbp)
          | Some s \<Rightarrow>
              (case bdb_get B s k of
                 GetNotFound \<Rightarrow> (DMMR_DB_NOT_FOUND, dbp)
               | GetError \<Rightarrow> (DMMR_DB_ERROR, dbp)
               | GetOk old \<Rightarrow>
                   let existing = entry_of_mem old in
                   if \<not> entry_is_valid old \<or> dmmr_record_is_tombstone existing \<or>
                      ce_timestamp existing \<noteq> observed_ts \<or>
                      ce_node_id existing \<noteq> observed_node_id \<or>
                      ce_expire_at existing \<noteq> observed_expire_at
                   then (DMMR_DB_IGNORED, dbp)
                   else (case put_record_locked B mem_ok k tombstone_ts tombstone_node_id 0 True [] s of
                           (rc, s') \<Rightarrow> (rc, Some s'))))"

definition db_del_key ::
  "'s bdb \<Rightarrow> bool \<Rightarrow> u64 \<Rightarrow> u64 \<Rightarrow> bytes option \<Rightarrow> 's option \<Rightarrow> db_result \<times> 's option" where
  "db_del_key B mem_ok now my_node_id key dbp =
     db_apply_record B mem_ok key now my_node_id 0 True None 0 dbp"

section \<open>Snapshots\<close>

text \<open>
  \<open>db_snapshot_foreach\<close> walks a cursor with the lock released between two steps.  What the
  successive \<open>cursor->get\<close> calls return is a list of events; \<open>None\<close> is a walk that never reaches
  the end.  A row carries the key, the datum and whether the two \<open>calloc\<close> calls for its copy
  succeed.  The callback threads a state and stops the walk by returning a non-zero code.
\<close>

datatype cur_event = CurRow bytes bytes bool | CurEnd | CurError

record db_record =
  r_key :: bytes
  r_value :: "bytes option"
  r_value_len :: nat
  r_timestamp :: u64
  r_node_id :: u64
  r_expire_at :: u64
  r_tombstone :: bool

definition snapshot_record :: "bytes \<Rightarrow> bytes \<Rightarrow> db_record" where
  "snapshot_record key data =
     (let entry = entry_of_mem data; value_len = unat (dmmr_record_value_len entry) in
      \<lparr>r_key = key,
       r_value = (if value_len > 0 then Some (sub entry_size value_len data) else None),
       r_value_len = value_len,
       r_timestamp = ce_timestamp entry, r_node_id = ce_node_id entry,
       r_expire_at = ce_expire_at entry,
       r_tombstone = dmmr_record_is_tombstone entry\<rparr>)"

fun snapshot_walk ::
  "(db_record \<Rightarrow> 'a \<Rightarrow> (bool \<times> 'a) option) \<Rightarrow> cur_event list \<Rightarrow> 'a \<Rightarrow> (db_result \<times> 'a) option" where
  "snapshot_walk callback [] arg = None"
| "snapshot_walk callback (CurEnd # evs) arg = Some (DMMR_DB_APPLIED, arg)"
| "snapshot_walk callback (CurError # evs) arg = Some (DMMR_DB_ERROR, arg)"
| "snapshot_walk callback (CurRow key data mem_ok # evs) arg =
     (if \<not> entry_is_valid data \<or> length key = 0 \<or> length key > MAX_KEY_LEN
      then Some (DMMR_DB_ERROR, arg)
      else if \<not> mem_ok then Some (DMMR_DB_ERROR, arg)
      else case callback (snapshot_record key data) arg of
        None \<Rightarrow> None
      | Some (ok, arg') \<Rightarrow> if \<not> ok then Some (DMMR_DB_ERROR, arg') else snapshot_walk callback evs arg')"

definition db_snapshot_foreach ::
  "(db_record \<Rightarrow> 'a \<Rightarrow> (bool \<times> 'a) option) \<Rightarrow> bool \<Rightarrow> cur_event list \<Rightarrow> 's option \<Rightarrow> 'a \<Rightarrow>
     (db_result \<times> 'a) option" where
  "db_snapshot_foreach callback cursor_ok evs dbp arg =
     (if dbp = None \<or> \<not> cursor_ok then Some (DMMR_DB_ERROR, arg)
      else snapshot_walk callback evs arg)"

section \<open>Last writer wins\<close>

text \<open>
  The interface the replication code relies on: \<open>wins old new\<close> decides whether an incoming record
  replaces the stored one, and it does so exactly when the stamp of the incoming one is greater.  Then the
  outcome of a set of updates is a record with the greatest stamp, whatever the order in which they
  arrive and however often.
\<close>

definition lww_merge :: "('r \<Rightarrow> 'r \<Rightarrow> bool) \<Rightarrow> 'r option \<Rightarrow> 'r \<Rightarrow> 'r option" where
  "lww_merge wins old new =
     (case old of None \<Rightarrow> Some new | Some r \<Rightarrow> if wins r new then Some new else Some r)"

locale lww_order =
  fixes wins :: "'r \<Rightarrow> 'r \<Rightarrow> bool" and stamp :: "'r \<Rightarrow> 'st::linorder"
  assumes wins_later: "wins a b \<longleftrightarrow> stamp a < stamp b"
begin

lemma wins_same: "stamp a = stamp b \<Longrightarrow> \<not> wins a b"
  by (simp add: wins_later)

lemma wins_total: "\<not> wins a b \<Longrightarrow> \<not> wins b a \<Longrightarrow> stamp a = stamp b"
  by (simp add: wins_later)

lemma wins_asym: "wins a b \<Longrightarrow> \<not> wins b a"
  by (simp add: wins_later)

lemma not_wins_trans: "\<not> wins b a \<Longrightarrow> \<not> wins c b \<Longrightarrow> \<not> wins c a"
  by (simp add: wins_later)

definition top_of :: "'r set \<Rightarrow> 'r option \<Rightarrow> bool" where
  "top_of S res \<longleftrightarrow>
     (case res of None \<Rightarrow> S = {} | Some r \<Rightarrow> r \<in> S \<and> (\<forall>x \<in> S. \<not> wins r x))"

lemma merge_top:
  assumes "top_of S old"
  shows "top_of (insert new S) (lww_merge wins old new)"
proof (cases old)
  case None
  with assms show ?thesis by (simp add: top_of_def lww_merge_def wins_same)
next
  case (Some r)
  show ?thesis
  proof (cases "wins r new")
    case True
    then have "\<not> wins new x" if "x \<in> S" for x
      using assms Some that wins_asym [OF True] not_wins_trans [of r x new] by (simp add: top_of_def)
    with True Some show ?thesis by (auto simp: top_of_def lww_merge_def wins_same)
  next
    case False
    with assms Some show ?thesis by (auto simp: top_of_def lww_merge_def)
  qed
qed

lemma foldl_merge_top:
  "top_of S old \<Longrightarrow> top_of (S \<union> set xs) (foldl (lww_merge wins) old xs)"
proof (induction xs arbitrary: old S)
  case (Cons x xs)
  from Cons.IH [OF merge_top [OF Cons.prems]] show ?case by simp
qed simp

lemma top_unique:
  assumes "top_of S a" and "top_of S b"
    and "\<And>x y. x \<in> S \<Longrightarrow> y \<in> S \<Longrightarrow> stamp x = stamp y \<Longrightarrow> x = y"
  shows "a = b"
  using assms(1,2) by (cases a; cases b) (auto simp: top_of_def intro!: assms(3) wins_total)

lemma merge_converges:
  assumes "set xs = set ys"
    and "\<And>x y. x \<in> set_option old \<union> set xs \<Longrightarrow> y \<in> set_option old \<union> set xs \<Longrightarrow>
        stamp x = stamp y \<Longrightarrow> x = y"
  shows "foldl (lww_merge wins) old xs = foldl (lww_merge wins) old ys"
proof -
  have "top_of (set_option old) old"
    by (cases old) (simp_all add: top_of_def wins_same)
  then have "top_of (set_option old \<union> set zs) (foldl (lww_merge wins) old zs)" for zs
    by (rule foldl_merge_top)
  from this [of xs] this [of ys] show ?thesis
    unfolding assms(1) [symmetric] using assms(2) by (rule top_unique)
qed

end

text \<open>The stored records as the replication sees them.\<close>

record lww_rec =
  l_ts :: u64
  l_node :: u64
  l_expire :: u64
  l_tomb :: bool
  l_value :: bytes

text \<open>The stamp of a record is its timestamp and then its node id, in lexicographic order; the record with the
  later stamp is the one to keep.\<close>

definition rec_stamp :: "lww_rec \<Rightarrow> u64 \<times> u64" where
  "rec_stamp r = (l_ts r, l_node r)"

definition rec_wins :: "lww_rec \<Rightarrow> lww_rec \<Rightarrow> bool" where
  "rec_wins old new \<longleftrightarrow> rec_stamp old < rec_stamp new"

interpretation lww: lww_order rec_wins rec_stamp
  by unfold_locales (simp add: rec_wins_def)

definition rec_of_data :: "bytes \<Rightarrow> lww_rec" where
  "rec_of_data data =
     (let entry = entry_of_mem data in
      \<lparr>l_ts = ce_timestamp entry, l_node = ce_node_id entry, l_expire = ce_expire_at entry,
       l_tomb = dmmr_record_is_tombstone entry,
       l_value = sub entry_size (unat (dmmr_record_value_len entry)) data\<rparr>)"

definition db_view :: "'s bdb \<Rightarrow> 's \<Rightarrow> bytes \<rightharpoonup> lww_rec" where
  "db_view B s k = (case bdb_get B s k of GetOk data \<Rightarrow> Some (rec_of_data data) | _ \<Rightarrow> None)"

definition lww_update :: "(bytes \<rightharpoonup> lww_rec) \<Rightarrow> bytes \<Rightarrow> lww_rec \<Rightarrow> (bytes \<rightharpoonup> lww_rec)" where
  "lww_update m k r = m(k := lww_merge rec_wins (m k) r)"

definition mk_rec :: "u64 \<Rightarrow> u64 \<Rightarrow> u64 \<Rightarrow> bool \<Rightarrow> bytes \<Rightarrow> lww_rec" where
  "mk_rec ts node expire tomb value =
     \<lparr>l_ts = ts, l_node = node, l_expire = expire, l_tomb = tomb,
      l_value = (if tomb then [] else value)\<rparr>"

section \<open>Record images\<close>

lemma image_entry:
  "entry_of_mem (record_image ts node expire tomb value)
     = \<lparr>ce_timestamp = ts, ce_node_id = node,
        ce_value_len = (if tomb then DMMR_RECORD_TOMBSTONE else of_nat (length value)),
        ce_expire_at = expire\<rparr>"
  by (simp add: record_image_def codec_simps)

lemma image_fields:
  "ce_timestamp (entry_of_mem (record_image ts node expire tomb value)) = ts"
  "ce_node_id (entry_of_mem (record_image ts node expire tomb value)) = node"
  "ce_expire_at (entry_of_mem (record_image ts node expire tomb value)) = expire"
  by (simp_all add: image_entry)

lemma image_length:
  "length (record_image ts node expire tomb value) = entry_size + (if tomb then 0 else length value)"
  by (simp add: record_image_def)

lemma image_value:
  "sub entry_size (if tomb then 0 else length value) (record_image ts node expire tomb value)
     = (if tomb then [] else value)"
  by (simp add: record_image_def sub_def)

lemma image_flags:
  assumes "length value \<le> MAX_VALUE_LEN"
  shows "dmmr_record_is_tombstone (entry_of_mem (record_image ts node expire tomb value)) = tomb"
    and "unat (dmmr_record_value_len (entry_of_mem (record_image ts node expire tomb value)))
      = (if tomb then 0 else length value)"
proof -
  let ?e = "entry_of_mem (record_image ts node expire tomb value)"
  have small: "length value < 2 ^ 31" using assms by (simp add: MAX_VALUE_LEN_def)
  have t: "tomb \<Longrightarrow> ce_value_len ?e = DMMR_RECORD_TOMBSTONE"
    and v: "\<not> tomb \<Longrightarrow> ce_value_len ?e = of_nat (length value)"
    by (simp_all add: image_entry)
  show "dmmr_record_is_tombstone ?e = tomb"
    using tombstone_header [OF t] live_header(1) [OF v small] by (cases tomb) simp_all
  show "unat (dmmr_record_value_len ?e) = (if tomb then 0 else length value)"
    using tombstone_header [OF t] live_header(2) [OF v small] by (cases tomb) simp_all
qed

lemma record_image_valid:
  assumes "length value \<le> MAX_VALUE_LEN"
  shows "entry_is_valid (record_image ts node expire tomb value)"
    and "rec_of_data (record_image ts node expire tomb value) = mk_rec ts node expire tomb value"
  using assms
  by (simp_all add: entry_is_valid_def rec_of_data_def mk_rec_def Let_def image_flags image_length
      image_fields image_value)

section \<open>What the operations do to the store\<close>

definition key_ok :: "bytes \<Rightarrow> bool" where
  "key_ok k \<longleftrightarrow> k \<noteq> [] \<and> length k \<le> MAX_KEY_LEN"

text \<open>Every stored datum is a record the code accepts.\<close>

definition db_wf :: "'s bdb \<Rightarrow> 's \<Rightarrow> bool" where
  "db_wf B s \<longleftrightarrow> (\<forall>k data. bdb_get B s k = GetOk data \<longrightarrow> entry_is_valid data)"

lemma put_record_view:
  assumes "bdb_contract B" and "length value \<le> MAX_VALUE_LEN"
    and "put_record_locked B mem_ok k ts node expire tomb value s = (DMMR_DB_APPLIED, s')"
  shows "db_view B s' = (db_view B s)(k \<mapsto> mk_rec ts node expire tomb value)"
    and "db_wf B s \<Longrightarrow> db_wf B s'"
proof -
  from assms(3) have "bdb_put B s k (record_image ts node expire tomb value) = (True, s')"
    by (auto simp: put_record_locked_def split: if_splits prod.splits)
  from bdb_put_get [OF assms(1) this] show
    "db_view B s' = (db_view B s)(k \<mapsto> mk_rec ts node expire tomb value)"
    and "db_wf B s \<Longrightarrow> db_wf B s'"
    using record_image_valid [OF assms(2), of ts node expire tomb]
    by (auto simp: db_view_def db_wf_def fun_eq_iff split: if_splits)
qed

lemma put_record_result:
  "put_record_locked B mem_ok k ts node expire tomb value s = (r, s') \<Longrightarrow>
     r = DMMR_DB_APPLIED \<or> r = DMMR_DB_ERROR"
  by (auto simp: put_record_locked_def split: if_splits prod.splits)

lemma wins_data:
  "incoming_wins (entry_of_mem old) ts node \<longleftrightarrow>
     rec_wins (rec_of_data old) (mk_rec ts node expire tomb value)"
  by (auto simp: incoming_wins_def rec_wins_def rec_stamp_def rec_of_data_def mk_rec_def Let_def)

definition value_arg :: "bytes option \<Rightarrow> nat \<Rightarrow> bytes" where
  "value_arg value value_len = (case value of None \<Rightarrow> [] | Some v \<Rightarrow> take value_len v)"

lemma db_apply_cases:
  assumes "db_apply_record B mem_ok (Some k) ts node expire tomb value value_len (Some s) = (r, dbp')"
    and "r \<noteq> DMMR_DB_ERROR"
  obtains (ignored) old where "key_ok k" "bdb_get B s k = GetOk old" "entry_is_valid old"
      "\<not> incoming_wins (entry_of_mem old) ts node" "r = DMMR_DB_IGNORED" "dbp' = Some s"
  | (applied) s' where "key_ok k" "value_len \<le> MAX_VALUE_LEN" "r = DMMR_DB_APPLIED" "dbp' = Some s'"
      "put_record_locked B mem_ok k ts node expire tomb (value_arg value value_len) s
         = (DMMR_DB_APPLIED, s')"
      "\<And>old. bdb_get B s k = GetOk old \<Longrightarrow>
         entry_is_valid old \<and> incoming_wins (entry_of_mem old) ts node"
      "bdb_get B s k \<noteq> GetError"
proof -
  obtain r1 s1 where put: "put_record_locked B mem_ok k ts node expire tomb
      (value_arg value value_len) s = (r1, s1)" by fastforce
  have guard: "\<not> (length k = 0 \<or> length k > MAX_KEY_LEN \<or> value_len > MAX_VALUE_LEN \<or>
      (tomb \<and> value_len \<noteq> 0) \<or> (\<not> tomb \<and> value_len > 0 \<and> value = None))"
    using assms by (auto simp: db_apply_record_def split: if_splits)
  then have "key_ok k" "value_len \<le> MAX_VALUE_LEN" by (auto simp: key_ok_def)
  with guard assms put put_record_result [OF put] that show ?thesis
    unfolding db_apply_record_def value_arg_def [symmetric]
    by (cases "bdb_get B s k") (auto simp: Let_def split: if_splits)
qed

lemma value_arg_bound: "value_len \<le> MAX_VALUE_LEN \<Longrightarrow> length (value_arg v value_len) \<le> MAX_VALUE_LEN"
  by (cases v) (simp_all add: value_arg_def)

lemma db_apply_view:
  assumes "bdb_contract B"
    and "db_apply_record B mem_ok (Some k) ts node expire tomb v value_len (Some s) = (r, dbp')"
    and "r \<noteq> DMMR_DB_ERROR"
  shows "\<exists>s'. dbp' = Some s' \<and>
    db_view B s' = lww_update (db_view B s) k (mk_rec ts node expire tomb (value_arg v value_len)) \<and>
    (db_wf B s \<longrightarrow> db_wf B s')"
  using assms(2,3)
proof (cases rule: db_apply_cases)
  case (ignored old)
  then show ?thesis
    using wins_data [of old ts node expire tomb "value_arg v value_len"]
    by (auto simp: lww_update_def lww_merge_def db_view_def fun_upd_idem)
next
  case (applied s')
  note put = put_record_view [OF assms(1) value_arg_bound [OF applied(2)] applied(5)]
  have "lww_merge rec_wins (db_view B s k) (mk_rec ts node expire tomb (value_arg v value_len))
      = Some (mk_rec ts node expire tomb (value_arg v value_len))"
    using applied(6) wins_data [of _ ts node expire tomb "value_arg v value_len"]
    by (auto simp: lww_merge_def db_view_def split: bdb_get_result.splits)
  then show ?thesis
    using applied(4) put by (simp add: lww_update_def)
qed

lemma db_apply_applied:
  assumes "db_apply_record B mem_ok (Some k) ts node expire tomb v value_len (Some s) = (r, dbp')"
    and "r \<noteq> DMMR_DB_ERROR"
  shows "r = DMMR_DB_APPLIED \<longleftrightarrow>
    (case db_view B s k of None \<Rightarrow> True | Some old \<Rightarrow> l_ts old < ts \<or> l_ts old = ts \<and> l_node old < node)"
  using assms
  by (cases rule: db_apply_cases)
    (auto simp: db_view_def rec_of_data_def incoming_wins_def Let_def split: bdb_get_result.splits)

lemma db_get_after_apply:
  assumes "bdb_contract B"
    and "db_apply_record B mem_ok (Some k) ts node expire tomb vo value_len (Some s) = (DMMR_DB_APPLIED, dbp')"
  shows "db_get_with_meta B True (Some k) True dbp' =
     (let v = value_arg vo value_len in
      if tomb then (DMMR_DB_NOT_FOUND, None)
      else (DMMR_DB_APPLIED, Some \<lparr>got_ts = ts, got_node = node,
         got_value = (if v = [] then None else Some v), got_value_len = length v,
         got_expire = expire\<rparr>))"
proof -
  let ?v = "value_arg vo value_len"
  from assms(2) obtain s' where k: "key_ok k" and vl: "value_len \<le> MAX_VALUE_LEN" and d: "dbp' = Some s'"
    and put: "put_record_locked B mem_ok k ts node expire tomb ?v s = (DMMR_DB_APPLIED, s')"
    by (cases rule: db_apply_cases) auto
  have lv: "length ?v \<le> MAX_VALUE_LEN" using value_arg_bound [OF vl] .
  from put have "bdb_put B s k (record_image ts node expire tomb ?v) = (True, s')"
    by (auto simp: put_record_locked_def split: if_splits prod.splits)
  from bdb_put_get [OF assms(1) this, of k]
  have "bdb_get B s' k = GetOk (record_image ts node expire tomb ?v)" by simp
  with k d lv image_value [of False ?v] show ?thesis
    by (auto simp: db_get_with_meta_def key_ok_def record_image_valid image_flags image_fields Let_def)
qed

lemma db_get_view:
  assumes "key_ok k" and "db_wf B s"
  shows "db_get_with_meta B True (Some k) True (Some s) =
     (case db_view B s k of
        None \<Rightarrow> (if bdb_get B s k = GetError then DMMR_DB_ERROR else DMMR_DB_NOT_FOUND, None)
      | Some r \<Rightarrow>
          if l_tomb r then (DMMR_DB_NOT_FOUND, None)
          else (DMMR_DB_APPLIED, Some \<lparr>got_ts = l_ts r, got_node = l_node r,
             got_value = (if l_value r = [] then None else Some (l_value r)), got_value_len = length (l_value r),
             got_expire = l_expire r\<rparr>))"
proof (cases "bdb_get B s k")
  case (GetOk data)
  then have "entry_is_valid data" using assms(2) by (simp add: db_wf_def)
  then have len: "length (sub entry_size (unat (dmmr_record_value_len (entry_of_mem data))) data)
      = unat (dmmr_record_value_len (entry_of_mem data))"
    by (auto simp: entry_is_valid_def Let_def sub_def split: if_splits)
  then have "sub entry_size (unat (dmmr_record_value_len (entry_of_mem data))) data = []
      \<longleftrightarrow> unat (dmmr_record_value_len (entry_of_mem data)) = 0"
    by (metis length_0_conv)
  then show ?thesis
    using GetOk assms(1) \<open>entry_is_valid data\<close>
    unfolding db_view_def rec_of_data_def
    by (simp add: db_get_with_meta_def key_ok_def Let_def len del: length_sub)
qed (use assms(1) in \<open>auto simp: db_get_with_meta_def db_view_def key_ok_def\<close>)

section \<open>Delivering a sequence of updates\<close>

text \<open>The record a compare-and-delete expects: live, and with the metadata it was observed with.\<close>

definition observed :: "lww_rec option \<Rightarrow> u64 \<Rightarrow> u64 \<Rightarrow> u64 \<Rightarrow> bool" where
  "observed v ts node expire \<longleftrightarrow>
     (case v of None \<Rightarrow> False | Some r \<Rightarrow> \<not> l_tomb r \<and> l_ts r = ts \<and> l_node r = node \<and> l_expire r = expire)"

text \<open>\<open>db_deliver\<close> applies replicated records one after the other, as the cluster code does for the
  \<open>OP_SYNC\<close> frames it receives; \<open>None\<close> if one of them is refused with an error.\<close>

fun db_deliver :: "'s bdb \<Rightarrow> (bytes \<times> lww_rec) list \<Rightarrow> 's option \<Rightarrow> 's option option" where
  "db_deliver B [] dbp = Some dbp"
| "db_deliver B ((k, r) # us) dbp =
     (case db_apply_record B True (Some k) (l_ts r) (l_node r) (l_expire r) (l_tomb r)
             (Some (l_value r)) (length (l_value r)) dbp of
        (rc, dbp') \<Rightarrow> if rc = DMMR_DB_ERROR then None else db_deliver B us dbp')"

definition lww_run :: "(bytes \<rightharpoonup> lww_rec) \<Rightarrow> (bytes \<times> lww_rec) list \<Rightarrow> (bytes \<rightharpoonup> lww_rec)" where
  "lww_run = foldl (\<lambda>m (k, r). lww_update m k r)"

lemma lww_run_key:
  "lww_run m us k = foldl (lww_merge rec_wins) (m k) (map snd (filter (\<lambda>u. fst u = k) us))"
  unfolding lww_run_def
  by (induction us arbitrary: m) (auto simp: lww_update_def)

lemma mk_rec_id: "(l_tomb r \<Longrightarrow> l_value r = []) \<Longrightarrow>
    mk_rec (l_ts r) (l_node r) (l_expire r) (l_tomb r) (l_value r) = r"
  by (simp add: mk_rec_def)

lemma db_apply_guard:
  assumes "db_apply_record B mem_ok (Some k) ts node expire tomb v value_len dbp = (r, dbp')"
    and "r \<noteq> DMMR_DB_ERROR"
  shows "key_ok k" and "tomb \<Longrightarrow> value_len = 0" and "\<exists>s. dbp = Some s"
  using assms by (auto simp: db_apply_record_def key_ok_def split: if_splits option.splits)

lemma db_deliver_view:
  assumes "bdb_contract B" and "db_deliver B us (Some s) = Some dbp'"
  shows "\<exists>s'. dbp' = Some s' \<and> db_view B s' = lww_run (db_view B s) us \<and> (db_wf B s \<longrightarrow> db_wf B s')"
  using assms(2)
proof (induction us arbitrary: s)
  case Nil
  then show ?case by (auto simp: lww_run_def)
next
  case (Cons u us)
  obtain k r where u: "u = (k, r)" by fastforce
  obtain rc dbp1 where ap: "db_apply_record B True (Some k) (l_ts r) (l_node r) (l_expire r) (l_tomb r)
      (Some (l_value r)) (length (l_value r)) (Some s) = (rc, dbp1)" by fastforce
  with Cons.prems u have rc: "rc \<noteq> DMMR_DB_ERROR" and rest: "db_deliver B us dbp1 = Some dbp'"
    by (auto split: if_splits)
  have "l_tomb r \<Longrightarrow> l_value r = []" using db_apply_guard(2) [OF ap rc] by simp
  then have "mk_rec (l_ts r) (l_node r) (l_expire r) (l_tomb r)
      (value_arg (Some (l_value r)) (length (l_value r))) = r"
    using mk_rec_id by (simp add: value_arg_def)
  then obtain s1 where s1: "dbp1 = Some s1" "db_view B s1 = lww_update (db_view B s) k r"
    "db_wf B s \<longrightarrow> db_wf B s1"
    using db_apply_view [OF assms(1) ap rc] by auto
  with Cons.IH [of s1] rest u show ?case by (auto simp: lww_run_def)
qed

lemma lww_run_converges:
  assumes "set us = set us'"
    and "\<And>k a b. a \<in> set_option (m k) \<union> {r. (k, r) \<in> set us} \<Longrightarrow>
        b \<in> set_option (m k) \<union> {r. (k, r) \<in> set us} \<Longrightarrow> rec_stamp a = rec_stamp b \<Longrightarrow> a = b"
  shows "lww_run m us = lww_run m us'"
proof
  fix k :: bytes
  let ?f = "\<lambda>xs. map snd (filter (\<lambda>u. fst u = k) xs)"
  have "set (?f xs) = {r. (k, r) \<in> set xs}" for xs :: "(bytes \<times> lww_rec) list"
    by force
  then have "set (?f us) = set (?f us')" and "set (?f us) = {r. (k, r) \<in> set us}"
    using assms(1) by simp_all
  with assms(2) [of _ k] show "lww_run m us k = lww_run m us' k"
    unfolding lww_run_key by (intro lww.merge_converges) auto
qed

section \<open>Walking a snapshot\<close>

lemma snapshot_walk_all:
  assumes "\<forall>(key, data) \<in> set rows. entry_is_valid data \<and> key_ok key"
    and "\<And>r a. callback r a = Some (True, f r a)"
  shows "snapshot_walk callback (map (\<lambda>(key, data). CurRow key data True) rows @ CurEnd # evs) a
     = Some (DMMR_DB_APPLIED, foldl (\<lambda>a (key, data). f (snapshot_record key data) a) a rows)"
  using assms(1)
  by (induction rows arbitrary: a) (auto simp: assms(2) key_ok_def)

lemma snapshot_record_rec:
  "mk_rec (r_timestamp (snapshot_record key data)) (r_node_id (snapshot_record key data))
     (r_expire_at (snapshot_record key data)) (r_tombstone (snapshot_record key data))
     (case r_value (snapshot_record key data) of None \<Rightarrow> [] | Some v \<Rightarrow> v) = rec_of_data data"
  if "entry_is_valid data"
  using that
  by (auto simp: snapshot_record_def mk_rec_def rec_of_data_def Let_def entry_is_valid_def sub_def
      split: if_splits)

section \<open>A store for the witnesses\<close>

text \<open>A B-tree that never fails, as a finite map: the contract can be met.\<close>

definition map_bdb :: "(bytes \<rightharpoonup> bytes) bdb" where
  "map_bdb = \<lparr>bdb_get = (\<lambda>m k. case m k of None \<Rightarrow> GetNotFound | Some d \<Rightarrow> GetOk d),
     bdb_put = (\<lambda>m k d. (True, m(k \<mapsto> d)))\<rparr>"

lemma map_bdb_contract [simp]: "bdb_contract map_bdb"
  by (auto simp: bdb_contract_def map_bdb_def)

lemma map_bdb_reliable [simp]: "bdb_reliable map_bdb"
  by (auto simp: bdb_reliable_def map_bdb_def split: option.splits)

lemma map_bdb_simps [simp]:
  "bdb_get map_bdb m k = (case m k of None \<Rightarrow> GetNotFound | Some d \<Rightarrow> GetOk d)"
  "bdb_put map_bdb m k d = (True, m(k \<mapsto> d))"
  by (simp_all add: map_bdb_def)

lemma map_bdb_apply_fresh:
  assumes "key_ok k" and "length v \<le> MAX_VALUE_LEN" and "m k = None" and "tomb \<Longrightarrow> v = []"
  shows "db_apply_record map_bdb True (Some k) ts node expire tomb (Some v) (length v) (Some m)
     = (DMMR_DB_APPLIED, Some (m(k \<mapsto> record_image ts node expire tomb v)))"
  using assms by (auto simp: db_apply_record_def put_record_locked_def key_ok_def)

lemma map_bdb_apply_over:
  assumes "key_ok k" and "length v \<le> MAX_VALUE_LEN" and "tomb \<Longrightarrow> v = []"
    and "m k = Some (record_image ts0 node0 expire0 tomb0 v0)" and "length v0 \<le> MAX_VALUE_LEN"
  shows "db_apply_record map_bdb True (Some k) ts node expire tomb (Some v) (length v) (Some m)
     = (if ts0 < ts \<or> ts0 = ts \<and> node0 < node
        then (DMMR_DB_APPLIED, Some (m(k \<mapsto> record_image ts node expire tomb v)))
        else (DMMR_DB_IGNORED, Some m))"
  using assms
  by (auto simp: db_apply_record_def put_record_locked_def key_ok_def record_image_valid
      incoming_wins_def image_fields)

section \<open>Properties\<close>

text \<open>
  C5: \<open>db_apply_record\<close> implements the last-writer-wins map.  Whenever it does not report an
  error, the store it leaves shows, under the key, the record with the greater (timestamp, node id)
  stamp of the stored and the incoming one, in lexicographic order, every other key is untouched, and every
  stored datum stays well-formed.  It reports \<open>DMMR_DB_APPLIED\<close> exactly when there was no record or the
  incoming stamp is the greater one.
\<close>

theorem db_apply_record_refines_lww:
  assumes "bdb_contract B"
    and "db_apply_record B mem_ok (Some k) ts node expire tomb v value_len (Some s) = (r, dbp')"
    and "r \<noteq> DMMR_DB_ERROR" and "db_wf B s"
  shows "\<exists>s'. dbp' = Some s' \<and> db_wf B s' \<and>
     db_view B s' = lww_update (db_view B s) k (mk_rec ts node expire tomb (value_arg v value_len)) \<and>
     (r = DMMR_DB_APPLIED \<longleftrightarrow>
        (case db_view B s k of
           None \<Rightarrow> True
         | Some old \<Rightarrow> l_ts old < ts \<or> l_ts old = ts \<and> l_node old < node))"
  using db_apply_view [OF assms(1-3)] db_apply_applied [OF assms(2,3)] assms(4) by blast

theorem db_apply_record_refines_lww_witness:
  "\<exists>s1 s2. db_apply_record map_bdb True (Some (cstr ''k'')) 5 2 0 False (Some (cstr ''w'')) 1
       (Some (Map.empty(cstr ''k'' \<mapsto> record_image 5 1 0 False (cstr ''v'')))) = (DMMR_DB_APPLIED, Some s1)
    \<and> db_view map_bdb s1 (cstr ''k'') = Some (mk_rec 5 2 0 False (cstr ''w''))
    \<and> db_apply_record map_bdb True (Some (cstr ''k'')) 4 3 0 False (Some (cstr ''w'')) 1
       (Some (Map.empty(cstr ''k'' \<mapsto> record_image 5 1 0 False (cstr ''v'')))) = (DMMR_DB_IGNORED, Some s2)
    \<and> db_view map_bdb s2 (cstr ''k'') = Some (mk_rec 5 1 0 False (cstr ''v''))"
proof -
  let ?k = "cstr ''k''" and ?s = "Map.empty(cstr ''k'' \<mapsto> record_image 5 1 0 False (cstr ''v''))"
  have kk: "key_ok ?k" and lv: "length (cstr ''w'') \<le> MAX_VALUE_LEN" "length (cstr ''v'') \<le> MAX_VALUE_LEN"
    by (simp_all add: key_ok_def const_defs)
  note over = map_bdb_apply_over [OF kk lv(1), of False ?s 5 1 0 False "cstr ''v''"]
  have a: "db_apply_record map_bdb True (Some ?k) 5 2 0 False (Some (cstr ''w'')) 1 (Some ?s)
      = (DMMR_DB_APPLIED, Some (?s(?k \<mapsto> record_image 5 2 0 False (cstr ''w''))))"
    and b: "db_apply_record map_bdb True (Some ?k) 4 3 0 False (Some (cstr ''w'')) 1 (Some ?s) = (DMMR_DB_IGNORED, Some ?s)"
    using over [of 5 2 0] over [of 4 3 0] lv by simp_all
  have wf: "db_wf map_bdb ?s" and vw: "db_view map_bdb ?s ?k = Some (mk_rec 5 1 0 False (cstr ''v''))"
    using record_image_valid [OF lv(2), of 5 1 0 False] by (auto simp: db_wf_def db_view_def split: if_splits)
  have m: "lww_update (db_view map_bdb ?s) ?k (mk_rec 5 2 0 False (cstr ''w'')) ?k = Some (mk_rec 5 2 0 False (cstr ''w''))"
    "lww_update (db_view map_bdb ?s) ?k (mk_rec 4 3 0 False (cstr ''w'')) ?k = Some (mk_rec 5 1 0 False (cstr ''v''))"
    by (simp_all add: lww_update_def lww_merge_def vw rec_wins_def rec_stamp_def mk_rec_def del: cstr_Cons)
  have w: "value_arg (Some (cstr ''w'')) 1 = cstr ''w''" by (simp add: value_arg_def)
  from db_apply_record_refines_lww [OF map_bdb_contract a _ wf] m(1)
  have "db_view map_bdb (?s(?k \<mapsto> record_image 5 2 0 False (cstr ''w''))) ?k = Some (mk_rec 5 2 0 False (cstr ''w''))"
    unfolding w by simp
  moreover from db_apply_record_refines_lww [OF map_bdb_contract b _ wf] m(2)
  have "db_view map_bdb ?s ?k = Some (mk_rec 5 1 0 False (cstr ''v''))"
    unfolding w by simp
  ultimately show ?thesis using a b by blast
qed

text \<open>
  C4: replicas converge.  Two stores that show the same records and receive the same set of
  updates, in any order and with any repetitions, show the same records afterwards, provided
  a stamp identifies one record per key.
\<close>

theorem db_replicas_converge:
  assumes "bdb_contract B" and "db_view B s1 = db_view B s2" and "set us1 = set us2"
    and "db_deliver B us1 (Some s1) = Some dbp1" and "db_deliver B us2 (Some s2) = Some dbp2"
    and "\<And>k a b. a \<in> set_option (db_view B s1 k) \<union> {r. (k, r) \<in> set us1} \<Longrightarrow>
        b \<in> set_option (db_view B s1 k) \<union> {r. (k, r) \<in> set us1} \<Longrightarrow> rec_stamp a = rec_stamp b \<Longrightarrow> a = b"
  shows "\<exists>t1 t2. dbp1 = Some t1 \<and> dbp2 = Some t2 \<and> db_view B t1 = db_view B t2"
  using db_deliver_view [OF assms(1,4)] db_deliver_view [OF assms(1,5)]
    lww_run_converges [OF assms(3,6)] assms(2) by auto

theorem db_replicas_converge_witness:
  "\<exists>d1 d2 t1 t2. db_deliver map_bdb [(cstr ''k'', mk_rec 5 1 0 False (cstr ''a'')), (cstr ''k'', mk_rec 7 2 0 True [])] (Some Map.empty) = Some d1
    \<and> db_deliver map_bdb [(cstr ''k'', mk_rec 7 2 0 True []), (cstr ''k'', mk_rec 5 1 0 False (cstr ''a''))] (Some Map.empty) = Some d2
    \<and> d1 = Some t1 \<and> d2 = Some t2 \<and> db_view map_bdb t1 = db_view map_bdb t2"
proof -
  let ?a = "mk_rec 5 1 0 False (cstr ''a'')" and ?b = "mk_rec 7 2 0 True []" and ?k = "cstr ''k''"
  have kk: "key_ok ?k" and la: "length (cstr ''a'') \<le> MAX_VALUE_LEN"
    by (simp_all add: key_ok_def const_defs)
  note fresh = map_bdb_apply_fresh [OF kk la, of Map.empty False 5 1 0]
    map_bdb_apply_fresh [OF kk, of "[]" Map.empty True 7 2 0]
    map_bdb_apply_over [OF kk la, of False "Map.empty(?k \<mapsto> record_image 7 2 0 True [])" 7 2 0 True "[]" 5 1 0]
    map_bdb_apply_over [OF kk, of "[]" True "Map.empty(?k \<mapsto> record_image 5 1 0 False (cstr ''a''))" 5 1 0 False "cstr ''a''" 7 2 0]
  have d1: "db_deliver map_bdb [(?k, ?a), (?k, ?b)] (Some Map.empty)
      = Some (Some (Map.empty(?k \<mapsto> record_image 7 2 0 True [])))"
    using fresh la by (simp add: mk_rec_def)
  have d2: "db_deliver map_bdb [(?k, ?b), (?k, ?a)] (Some Map.empty)
      = Some (Some (Map.empty(?k \<mapsto> record_image 7 2 0 True [])))"
    using fresh la by (simp add: mk_rec_def)
  have "\<exists>t1 t2. Some (Map.empty(?k \<mapsto> record_image 7 2 0 True [])) = Some t1
      \<and> Some (Map.empty(?k \<mapsto> record_image 7 2 0 True [])) = Some t2
      \<and> db_view map_bdb t1 = db_view map_bdb t2"
    by (rule db_replicas_converge [OF map_bdb_contract refl _ d1 d2])
      (auto simp: db_view_def mk_rec_def rec_stamp_def)
  with d1 d2 show ?thesis by blast
qed

text \<open>
  C16: set/get round trip.  After \<open>db_apply_record\<close> reports \<open>DMMR_DB_APPLIED\<close>, a read of the key
  returns the value and metadata just written, and reports \<open>DMMR_DB_NOT_FOUND\<close> after a tombstone.
\<close>

theorem db_apply_then_get:
  assumes "bdb_contract B"
    and "db_apply_record B mem_ok (Some k) ts node expire tomb (Some v) (length v) (Some s)
       = (DMMR_DB_APPLIED, dbp')"
  shows "db_get_with_meta B True (Some k) True dbp' =
     (if tomb then (DMMR_DB_NOT_FOUND, None)
      else (DMMR_DB_APPLIED, Some \<lparr>got_ts = ts, got_node = node,
         got_value = (if v = [] then None else Some v), got_value_len = length v,
         got_expire = expire\<rparr>))"
  using db_get_after_apply [OF assms] by (simp add: value_arg_def)

theorem db_apply_then_get_witness:
  "db_get_with_meta map_bdb True (Some (cstr ''k'')) True
     (Some (Map.empty(cstr ''k'' \<mapsto> record_image 5 1 9 False (cstr ''v''))))
   = (DMMR_DB_APPLIED, Some \<lparr>got_ts = 5, got_node = 1, got_value = Some (cstr ''v''),
       got_value_len = 1, got_expire = 9\<rparr>)"
  using db_apply_then_get [OF map_bdb_contract map_bdb_apply_fresh
      [of "cstr ''k''" "cstr ''v''" Map.empty False 5 1 9]]
  by (simp add: key_ok_def const_defs)

text \<open>
  C17: \<open>db_tombstone_if_match\<close> is a compare-and-delete.  If the store holds, under the key, a live record
  with exactly the observed timestamp, node and expiry, the record is replaced by the given tombstone, no other
  key changes, and the call reports \<open>DMMR_DB_APPLIED\<close>; it reports an error only if memory or the write
  fails.  In every other case the store is left as it was, and the call reports \<open>DMMR_DB_NOT_FOUND\<close> when there
  is no record and \<open>DMMR_DB_IGNORED\<close> when there is another one.
\<close>

theorem db_tombstone_if_match_cas:
  assumes "bdb_contract B" and "db_wf B s" and "key_ok k" and "bdb_get B s k \<noteq> GetError"
    and "db_tombstone_if_match B mem_ok (Some k) ots onode oexp tts tnode (Some s) = (r, dbp')"
  shows "if observed (db_view B s k) ots onode oexp
     then (if mem_ok \<and> fst (bdb_put B s k (record_image tts tnode 0 True []))
           then r = DMMR_DB_APPLIED \<and>
             (\<exists>s'. dbp' = Some s' \<and> db_view B s' = (db_view B s)(k \<mapsto> mk_rec tts tnode 0 True []))
           else r = DMMR_DB_ERROR)
     else dbp' = Some s \<and> r = (if db_view B s k = None then DMMR_DB_NOT_FOUND else DMMR_DB_IGNORED)"
proof (cases "observed (db_view B s k) ots onode oexp")
  case True
  then obtain data where data: "bdb_get B s k = GetOk data" and obs: "observed (Some (rec_of_data data)) ots onode oexp"
    by (auto simp: db_view_def observed_def split: bdb_get_result.splits)
  from data assms(2) have "entry_is_valid data" by (simp add: db_wf_def)
  with data obs assms(3,5) have put: "(case put_record_locked B mem_ok k tts tnode 0 True [] s of (rc, s') \<Rightarrow> (rc, Some s')) = (r, dbp')"
    by (simp add: db_tombstone_if_match_def observed_def rec_of_data_def Let_def key_ok_def)
  show ?thesis
  proof (cases "mem_ok \<and> fst (bdb_put B s k (record_image tts tnode 0 True []))")
    case ok: True
    with put obtain s' where p: "put_record_locked B mem_ok k tts tnode 0 True [] s = (DMMR_DB_APPLIED, s')"
      "r = DMMR_DB_APPLIED" "dbp' = Some s'"
      by (auto simp: put_record_locked_def split: prod.splits)
    from put_record_view(1) [OF assms(1) _ p(1)] p(2,3) True ok show ?thesis by simp
  qed (use True put in \<open>auto simp: put_record_locked_def split: if_splits prod.splits\<close>)
next
  case False
  with assms(2-5) show ?thesis
    by (cases "bdb_get B s k")
      (auto simp: db_tombstone_if_match_def db_view_def observed_def rec_of_data_def db_wf_def key_ok_def Let_def)
qed

theorem db_tombstone_if_match_cas_witness:
  "\<exists>s1. db_tombstone_if_match map_bdb True (Some (cstr ''k'')) 5 1 9 8 2
       (Some (Map.empty(cstr ''k'' \<mapsto> record_image 5 1 9 False (cstr ''v'')))) = (DMMR_DB_APPLIED, Some s1)
    \<and> db_view map_bdb s1 (cstr ''k'') = Some (mk_rec 8 2 0 True [])
    \<and> db_tombstone_if_match map_bdb True (Some (cstr ''k'')) 4 1 9 8 2
       (Some (Map.empty(cstr ''k'' \<mapsto> record_image 5 1 9 False (cstr ''v''))))
      = (DMMR_DB_IGNORED, Some (Map.empty(cstr ''k'' \<mapsto> record_image 5 1 9 False (cstr ''v''))))"
proof -
  let ?k = "cstr ''k''" and ?s = "Map.empty(cstr ''k'' \<mapsto> record_image 5 1 9 False (cstr ''v''))"
  have kk: "key_ok ?k" and lv: "length (cstr ''v'') \<le> MAX_VALUE_LEN" by (simp_all add: key_ok_def const_defs)
  have wf: "db_wf map_bdb ?s" and vw: "db_view map_bdb ?s ?k = Some (mk_rec 5 1 9 False (cstr ''v''))"
    using record_image_valid [OF lv, of 5 1 9 False] by (auto simp: db_wf_def db_view_def split: if_splits)
  have g: "bdb_get map_bdb ?s ?k \<noteq> GetError" by simp
  have o: "observed (db_view map_bdb ?s ?k) 5 1 9" "\<not> observed (db_view map_bdb ?s ?k) 4 1 9"
    by (simp_all add: vw observed_def mk_rec_def del: cstr_Cons)
  obtain r1 d1 where r1: "db_tombstone_if_match map_bdb True (Some ?k) 5 1 9 8 2 (Some ?s) = (r1, d1)" by fastforce
  obtain r2 d2 where r2: "db_tombstone_if_match map_bdb True (Some ?k) 4 1 9 8 2 (Some ?s) = (r2, d2)" by fastforce
  have "\<exists>s1. r1 = DMMR_DB_APPLIED \<and> d1 = Some s1 \<and> db_view map_bdb s1 ?k = Some (mk_rec 8 2 0 True [])"
    using db_tombstone_if_match_cas [OF map_bdb_contract wf kk g r1] o(1) by auto
  moreover have "r2 = DMMR_DB_IGNORED \<and> d2 = Some ?s"
    using db_tombstone_if_match_cas [OF map_bdb_contract wf kk g r2] o(2) vw by simp
  ultimately show ?thesis using r1 r2 by blast
qed

end
