(* ===== verification/Dmmr_Pool.thy ===== *)
theory Dmmr_Pool
  imports Dmmr_Protocol
begin

text \<open>
  \<open>dmmr_pool.c\<close>: the pool of payload buffers.  A buffer is named by its number, chunk number times
  \<open>POOL_INITIAL_SIZE\<close> plus its index in the chunk.  A call that allocates takes the outcome of its
  \<open>calloc\<close> and \<open>realloc\<close>: for \<open>realloc\<close>, \<open>None\<close> is failure and \<open>Some junk\<close> the contents of the new
  part of the block, which the C library leaves undefined.
\<close>

section \<open>State and operations\<close>

definition PAYLOAD_RETAIN_LIMIT :: nat where [const_defs]: "PAYLOAD_RETAIN_LIMIT = 64 * 1024"

record payload_buf =
  pb_in_use :: bool
  pb_data :: "bytes option"
  pb_len :: nat
  pb_capacity :: nat

record payload_pool =
  pp_chunks :: "nat list"
  pp_bufs :: "nat \<Rightarrow> payload_buf"
  pp_free :: "nat list"

definition calloc_buf :: payload_buf where
  "calloc_buf = \<lparr>pb_in_use = False, pb_data = None, pb_len = 0, pb_capacity = 0\<rparr>"

definition chunk_ids :: "nat \<Rightarrow> nat list" where
  "chunk_ids c = [c * POOL_INITIAL_SIZE ..< Suc c * POOL_INITIAL_SIZE]"

definition add_payload_chunk :: "bool \<Rightarrow> payload_pool \<Rightarrow> int \<times> payload_pool" where
  "add_payload_chunk mem_ok p =
     (if \<not> mem_ok then (- 1, p)
      else let c = length (pp_chunks p) in
        (0, p\<lparr>pp_chunks := c # pp_chunks p,
              pp_bufs := (\<lambda>i. if i \<in> set (chunk_ids c) then calloc_buf else pp_bufs p i),
              pp_free := pp_free p @ chunk_ids c\<rparr>))"

definition realloc_data :: "(nat \<Rightarrow> u8) \<Rightarrow> nat \<Rightarrow> bytes option \<Rightarrow> bytes" where
  "realloc_data junk n old =
     (let d = (case old of None \<Rightarrow> [] | Some d \<Rightarrow> d) in take n d @ map junk [length d ..< n])"

definition get_payload_buf ::
  "bool \<Rightarrow> (nat \<Rightarrow> u8) option \<Rightarrow> nat \<Rightarrow> payload_pool \<Rightarrow> nat option \<times> payload_pool" where
  "get_payload_buf mem_ok realloc required p =
     (if required = 0 \<or> required > MAX_KEY_LEN + MAX_VALUE_LEN then (None, p)
      else case (if pp_free p = [] then add_payload_chunk mem_ok p else (0, p)) of (rc, p1) \<Rightarrow>
        if rc \<noteq> 0 then (None, p1)
        else case pp_free p1 of
          [] \<Rightarrow> (None, p1)
        | ret # rest \<Rightarrow>
            let b = pp_bufs p1 ret; p2 = p1\<lparr>pp_free := rest\<rparr>;
                use = (\<lambda>b. (Some ret, p2\<lparr>pp_bufs := (pp_bufs p2)
                        (ret := b\<lparr>pb_in_use := True, pb_len := required\<rparr>)\<rparr>)) in
            if pb_capacity b < required then
              (case realloc of
                 None \<Rightarrow> (None, p2\<lparr>pp_free := rest @ [ret]\<rparr>)
               | Some junk \<Rightarrow>
                   use (b\<lparr>pb_data := Some (realloc_data junk required (pb_data b)),
                          pb_capacity := required\<rparr>))
            else use b)"

text \<open>\<open>memset (p->data, 0, p->len)\<close>.\<close>

definition wipe :: "nat \<Rightarrow> bytes \<Rightarrow> bytes" where
  "wipe n d = replicate n 0 @ drop n d"

definition release_payload_buf :: "nat option \<Rightarrow> payload_pool \<Rightarrow> payload_pool" where
  "release_payload_buf ptr p =
     (case ptr of
        None \<Rightarrow> p
      | Some i \<Rightarrow>
          let b = pp_bufs p i;
              b1 = (case pb_data b of
                      None \<Rightarrow> b
                    | Some d \<Rightarrow> if pb_len b > 0 then b\<lparr>pb_data := Some (wipe (pb_len b) d)\<rparr> else b);
              b2 = (if pb_capacity b1 > PAYLOAD_RETAIN_LIMIT
                    then b1\<lparr>pb_data := None, pb_capacity := 0\<rparr> else b1) in
          p\<lparr>pp_bufs := (pp_bufs p)(i := b2\<lparr>pb_len := 0, pb_in_use := False\<rparr>),
            pp_free := pp_free p @ [i]\<rparr>)"

text \<open>The chunks are freed; \<open>payload_free\<close> keeps its stale links.\<close>

fun free_chunk_list :: "nat list \<Rightarrow> payload_pool \<Rightarrow> payload_pool" where
  "free_chunk_list [] p = p\<lparr>pp_chunks := []\<rparr>"
| "free_chunk_list (c # cs) p =
     free_chunk_list cs (p\<lparr>pp_chunks := cs,
       pp_bufs := (\<lambda>i. if i \<in> set (chunk_ids c) then (pp_bufs p i)\<lparr>pb_data := None\<rparr> else pp_bufs p i)\<rparr>)"

definition free_payload_chunks :: "payload_pool \<Rightarrow> payload_pool" where
  "free_payload_chunks p = free_chunk_list (pp_chunks p) p"

definition init_pools :: "bool \<Rightarrow> payload_pool \<Rightarrow> int \<times> payload_pool" where
  "init_pools mem_ok p =
     (case add_payload_chunk mem_ok p of (rc, p') \<Rightarrow> if rc \<noteq> 0 then (- 1, p') else (0, p'))"

definition destroy_pools :: "payload_pool \<Rightarrow> payload_pool" where
  "destroy_pools p = free_payload_chunks p"

definition static_pool :: payload_pool where
  "static_pool = \<lparr>pp_chunks = [], pp_bufs = (\<lambda>_. calloc_buf), pp_free = []\<rparr>"

text \<open>What a holder of a buffer does with it: store received bytes at its start, read them.\<close>

definition payload_write :: "nat \<Rightarrow> bytes \<Rightarrow> payload_pool \<Rightarrow> payload_pool" where
  "payload_write i bs p =
     (let b = pp_bufs p i; d = (case pb_data b of None \<Rightarrow> [] | Some d \<Rightarrow> d) in
      p\<lparr>pp_bufs := (pp_bufs p)(i := b\<lparr>pb_data := Some (bs @ drop (length bs) d)\<rparr>)\<rparr>)"

definition payload_read :: "nat \<Rightarrow> payload_pool \<Rightarrow> bytes" where
  "payload_read i p = (case pb_data (pp_bufs p i) of None \<Rightarrow> [] | Some d \<Rightarrow> d)"

section \<open>The invariant\<close>

definition zeroed :: "bytes \<Rightarrow> bool" where
  "zeroed d \<longleftrightarrow> (\<forall>x \<in> set d. x = 0)"

lemma zeroed_simps [simp]:
  "zeroed []" "zeroed (x # d) \<longleftrightarrow> x = 0 \<and> zeroed d" "zeroed (d @ e) \<longleftrightarrow> zeroed d \<and> zeroed e"
  "zeroed (replicate n 0)" "zeroed d \<Longrightarrow> zeroed (drop n d)" "zeroed d \<Longrightarrow> zeroed (take n d)"
  by (auto simp: zeroed_def dest: in_set_dropD in_set_takeD)

lemma zeroed_replicate: "zeroed d \<Longrightarrow> d = replicate (length d) 0"
  by (simp add: zeroed_def replicate_eqI)

text \<open>A buffer in the free list holds no byte of an earlier request and at most the retained size.\<close>

definition buf_free :: "payload_buf \<Rightarrow> bool" where
  "buf_free b \<longleftrightarrow> \<not> pb_in_use b \<and> pb_len b = 0 \<and> pb_capacity b \<le> PAYLOAD_RETAIN_LIMIT
     \<and> (case pb_data b of None \<Rightarrow> pb_capacity b = 0 | Some d \<Rightarrow> length d = pb_capacity b \<and> zeroed d)"

definition buf_lent :: "payload_buf \<Rightarrow> bool" where
  "buf_lent b \<longleftrightarrow> pb_in_use b \<and> 0 < pb_len b \<and> pb_len b \<le> pb_capacity b
     \<and> (case pb_data b of None \<Rightarrow> False
        | Some d \<Rightarrow> length d = pb_capacity b \<and> zeroed (drop (pb_len b) d))"

definition pp_inv :: "payload_pool \<Rightarrow> nat set \<Rightarrow> bool" where
  "pp_inv p out \<longleftrightarrow> distinct (pp_free p) \<and> set (pp_free p) \<inter> out = {}
     \<and> set (pp_free p) \<union> out = {..< length (pp_chunks p) * POOL_INITIAL_SIZE}
     \<and> (\<forall>i \<in> set (pp_free p). buf_free (pp_bufs p i)) \<and> (\<forall>i \<in> out. buf_lent (pp_bufs p i))"

lemma static_pool_inv [inv_intros]: "pp_inv static_pool {}"
  by (simp add: pp_inv_def static_pool_def)

lemma calloc_buf_free [simp]: "buf_free calloc_buf"
  by (simp add: buf_free_def calloc_buf_def)

lemma chunk_ids_nonempty [simp]: "chunk_ids c \<noteq> []" "distinct (chunk_ids c)"
  by (simp_all add: chunk_ids_def const_defs)

lemma set_chunk_ids [simp]: "set (chunk_ids c) = {c * POOL_INITIAL_SIZE ..< Suc c * POOL_INITIAL_SIZE}"
  unfolding chunk_ids_def by (rule set_upt)

lemma below_split: "i < Suc n * m \<longleftrightarrow> i < n * m \<or> i \<in> {n * m ..< Suc n * m}" for i n m :: nat
  by auto

lemma add_chunk_inv:
  assumes "pp_inv p out"
  shows "pp_inv (snd (add_payload_chunk mem_ok p)) out"
    and "mem_ok \<Longrightarrow> pp_free (snd (add_payload_chunk mem_ok p)) \<noteq> []"
    and "mem_ok \<Longrightarrow> fst (add_payload_chunk mem_ok p) = 0"
proof -
  let ?n = "length (pp_chunks p)" and ?p = "snd (add_payload_chunk True p)"
  have old: "i < ?n * POOL_INITIAL_SIZE" if "i \<in> set (pp_free p) \<union> out" for i
    using assms that by (auto simp: pp_inv_def)
  then have keep: "pp_bufs ?p i = pp_bufs p i" if "i \<in> set (pp_free p) \<union> out" for i
    using that by (fastforce simp: add_payload_chunk_def Let_def)
  have sets: "set (pp_free ?p) = set (pp_free p) \<union> {?n * POOL_INITIAL_SIZE ..< Suc ?n * POOL_INITIAL_SIZE}"
    and len: "length (pp_chunks ?p) = Suc ?n"
    and fresh: "\<And>i. i \<in> {?n * POOL_INITIAL_SIZE ..< Suc ?n * POOL_INITIAL_SIZE} \<Longrightarrow> pp_bufs ?p i = calloc_buf"
    by (simp_all add: add_payload_chunk_def Let_def)
  have disj: "i \<notin> {?n * POOL_INITIAL_SIZE ..< Suc ?n * POOL_INITIAL_SIZE}" if "i \<in> set (pp_free p) \<union> out" for i
    using old [OF that] by simp
  then have "set (pp_free p) \<inter> {?n * POOL_INITIAL_SIZE ..< Suc ?n * POOL_INITIAL_SIZE} = {}"
    by blast
  then have "distinct (pp_free ?p)"
    using assms by (simp add: add_payload_chunk_def Let_def pp_inv_def)
  moreover have "set (pp_free ?p) \<union> out = {..< Suc ?n * POOL_INITIAL_SIZE}"
    using assms below_split [of _ ?n POOL_INITIAL_SIZE] unfolding sets pp_inv_def by blast
  moreover have "\<forall>i \<in> set (pp_free ?p). buf_free (pp_bufs ?p i)"
    using assms keep fresh calloc_buf_free unfolding sets pp_inv_def by (metis UnE UnI1)
  moreover have "\<forall>i \<in> out. buf_lent (pp_bufs ?p i)"
    using assms keep unfolding pp_inv_def by (metis UnI2)
  moreover have "set (pp_free ?p) \<inter> out = {}"
    using assms disj unfolding sets pp_inv_def by blast
  ultimately have "pp_inv ?p out" by (simp only: pp_inv_def len)
  then show "pp_inv (snd (add_payload_chunk mem_ok p)) out"
    using assms by (cases mem_ok) (simp_all add: add_payload_chunk_def)
  show "mem_ok \<Longrightarrow> pp_free (snd (add_payload_chunk mem_ok p)) \<noteq> []"
    and "mem_ok \<Longrightarrow> fst (add_payload_chunk mem_ok p) = 0"
    by (simp_all add: add_payload_chunk_def Let_def)
qed

lemma add_chunk_fail: "\<not> mem_ok \<Longrightarrow> add_payload_chunk mem_ok p = (- 1, p)"
  by (simp add: add_payload_chunk_def)

lemma length_realloc_data [simp]: "length (realloc_data junk n old) = n"
  by (auto simp: realloc_data_def Let_def split: option.splits)

lemma length_wipe [simp]: "n \<le> length d \<Longrightarrow> length (wipe n d) = length d"
  by (simp add: wipe_def)

text \<open>The part of \<open>get_payload_buf\<close> after the free list is known to have a head.\<close>

lemma get_payload_buf_cases:
  assumes "pp_inv p out"
  obtains (refused) p' where "get_payload_buf mem_ok realloc required p = (None, p')" "pp_inv p' out"
      "required = 0 \<or> required > MAX_KEY_LEN + MAX_VALUE_LEN \<or> \<not> mem_ok \<or> realloc = None"
  | (served) i p' d where "get_payload_buf mem_ok realloc required p = (Some i, p')" "i \<notin> out"
      "pp_inv p' (insert i out)" "pb_data (pp_bufs p' i) = Some d" "pb_len (pp_bufs p' i) = required"
      "0 < required" "required \<le> MAX_KEY_LEN + MAX_VALUE_LEN" "required \<le> length d"
      "\<And>j. j < length d \<Longrightarrow> d ! j = 0 \<or> (\<exists>junk. realloc = Some junk \<and> d ! j = junk j)"
      "\<And>j. j \<in> out \<Longrightarrow> pp_bufs p' j = pp_bufs p j"
proof (cases "required = 0 \<or> required > MAX_KEY_LEN + MAX_VALUE_LEN")
  case True
  then show ?thesis using refused assms by (auto simp: get_payload_buf_def)
next
  case size: False
  define p1 where "p1 = (if pp_free p = [] then snd (add_payload_chunk mem_ok p) else p)"
  have inv1: "pp_inv p1 out" using assms add_chunk_inv by (simp add: p1_def)
  have keep1: "pp_bufs p1 j = pp_bufs p j" if "j \<in> out" for j
    using assms that by (auto simp: p1_def add_payload_chunk_def Let_def pp_inv_def)
  show ?thesis
  proof (cases "pp_free p = [] \<and> \<not> mem_ok")
    case True
    then show ?thesis using refused assms size by (auto simp: get_payload_buf_def add_chunk_fail)
  next
    case False
    then have step: "(if pp_free p = [] then add_payload_chunk mem_ok p else (0, p)) = (0, p1)"
      using add_chunk_inv(3) [OF assms, of mem_ok] by (auto simp: p1_def prod_eq_iff)
    from False obtain i rest where free: "pp_free p1 = i # rest"
      using add_chunk_inv(2) [OF assms, of mem_ok] by (cases "pp_free p1") (auto simp: p1_def split: if_splits)
    let ?b = "pp_bufs p1 i"
    have i: "i \<notin> out" "i \<notin> set rest" "buf_free ?b" using inv1 free by (auto simp: pp_inv_def)
    have lend: "pp_inv (p1\<lparr>pp_free := rest, pp_bufs := (pp_bufs p1)(i := b)\<rparr>) (insert i out)" if "buf_lent b" for b
      using inv1 free i that unfolding pp_inv_def by auto
    have other: "(if j = i then b else pp_bufs p1 j) = pp_bufs p j" if "j \<in> out" for j and b
      using that i keep1 by auto
    let ?old = "case pb_data ?b of None \<Rightarrow> [] | Some d \<Rightarrow> d"
    have old: "zeroed ?old" "length ?old = pb_capacity ?b" "pb_len ?b = 0"
      using i(3) by (auto simp: buf_free_def split: option.splits)
    show ?thesis
    proof (cases "pb_capacity ?b < required")
      case True
      show ?thesis
      proof (cases realloc)
        case None
        have "pp_inv (p1\<lparr>pp_free := rest @ [i]\<rparr>) out" using inv1 free by (auto simp: pp_inv_def)
        with None step free size True show ?thesis
          by (intro refused) (auto simp: get_payload_buf_def Let_def)
      next
        case (Some junk)
        let ?d = "realloc_data junk required (pb_data ?b)"
        let ?b' = "?b\<lparr>pb_data := Some ?d, pb_capacity := required, pb_in_use := True, pb_len := required\<rparr>"
        have "?old = replicate (pb_capacity ?b) 0"
          using zeroed_replicate [OF old(1)] old(2) by metis
        then have d: "?d = replicate (pb_capacity ?b) 0 @ map junk [pb_capacity ?b ..< required]"
          using old True by (simp add: realloc_data_def Let_def)
        have fresh: "?d ! j = 0 \<or> ?d ! j = junk j" if "j < length ?d" for j
          using that True by (cases "j < pb_capacity ?b") (simp_all add: d nth_append)
        have "buf_lent ?b'" using size by (simp add: buf_lent_def)
        from lend [OF this] show ?thesis
          using Some step free size True other fresh i
          by (intro served [of i "p1\<lparr>pp_free := rest, pp_bufs := (pp_bufs p1)(i := ?b')\<rparr>" ?d])
            (auto simp: get_payload_buf_def Let_def)
      qed
    next
      case False
      let ?b' = "?b\<lparr>pb_in_use := True, pb_len := required\<rparr>"
      from False size old obtain d where d: "pb_data ?b = Some d" "zeroed d" "length d = pb_capacity ?b"
        by (cases "pb_data ?b") auto
      then have "buf_lent ?b'" using size False by (simp add: buf_lent_def)
      have zero: "d ! j = 0" if "j < length d" for j
        using d(2) that by (simp add: zeroed_def)
      from lend [OF \<open>buf_lent ?b'\<close>] show ?thesis
        using step free size False other d zero i
        by (intro served [of i "p1\<lparr>pp_free := rest, pp_bufs := (pp_bufs p1)(i := ?b')\<rparr>" d])
          (auto simp: get_payload_buf_def Let_def)
    qed
  qed
qed

lemma release_inv:
  assumes "pp_inv p out" and "i \<in> out"
  shows "pp_inv (release_payload_buf (Some i) p) (out - {i})"
proof -
  from assms obtain d where d: "pb_data (pp_bufs p i) = Some d" "0 < pb_len (pp_bufs p i)"
    "pb_len (pp_bufs p i) \<le> length d" "length d = pb_capacity (pp_bufs p i)"
    "zeroed (drop (pb_len (pp_bufs p i)) d)"
    by (auto simp: pp_inv_def buf_lent_def split: option.splits)
  let ?p = "release_payload_buf (Some i) p"
  have "buf_free (pp_bufs ?p i)"
    using d by (auto simp: release_payload_buf_def Let_def buf_free_def wipe_def)
  moreover have "pp_bufs ?p j = pp_bufs p j" if "j \<noteq> i" for j
    using that by (simp add: release_payload_buf_def Let_def)
  moreover have "pp_free ?p = pp_free p @ [i]" "pp_chunks ?p = pp_chunks p"
    by (simp_all add: release_payload_buf_def Let_def)
  moreover have "i \<notin> set (pp_free p)" using assms by (auto simp: pp_inv_def)
  ultimately have "\<forall>j \<in> set (pp_free ?p). buf_free (pp_bufs ?p j)" "\<forall>j \<in> out - {i}. buf_lent (pp_bufs ?p j)"
    using assms(1) by (force simp: pp_inv_def)+
  with \<open>i \<notin> set (pp_free p)\<close> \<open>pp_free ?p = _\<close> \<open>pp_chunks ?p = _\<close> assms show ?thesis
    unfolding pp_inv_def by auto
qed

lemma payload_write_inv:
  assumes "pp_inv p out" and "i \<in> out" and "length bs \<le> pb_len (pp_bufs p i)"
  shows "pp_inv (payload_write i bs p) out"
    and "take (length bs) (payload_read i (payload_write i bs p)) = bs"
proof -
  from assms obtain d where d: "pb_data (pp_bufs p i) = Some d" "buf_lent (pp_bufs p i)"
    by (auto simp: pp_inv_def buf_lent_def split: option.splits)
  then have "drop (pb_len (pp_bufs p i)) (bs @ drop (length bs) d) = drop (pb_len (pp_bufs p i)) d"
    using assms(3) by simp
  then have "buf_lent (pp_bufs (payload_write i bs p) i)"
    using d assms(3) by (auto simp: payload_write_def Let_def buf_lent_def)
  moreover have "pp_bufs (payload_write i bs p) j = pp_bufs p j" if "j \<noteq> i" for j
    using that by (simp add: payload_write_def Let_def)
  ultimately show "pp_inv (payload_write i bs p) out"
    using assms(1,2) unfolding pp_inv_def by (auto simp: payload_write_def Let_def)
  show "take (length bs) (payload_read i (payload_write i bs p)) = bs"
    by (simp add: payload_read_def payload_write_def Let_def)
qed

definition payload_lends :: "payload_pool \<Rightarrow> nat \<Rightarrow> payload_pool \<Rightarrow> bool" where
  "payload_lends p i p' \<longleftrightarrow>
     (\<exists>mem_ok realloc required. get_payload_buf mem_ok realloc required p = (Some i, p'))"

interpretation payload: lender pp_inv payload_lends "\<lambda>i. release_payload_buf (Some i)"
proof
  fix p out i p' assume inv: "pp_inv p out" and "payload_lends p i p'"
  then obtain mem_ok realloc required where get: "get_payload_buf mem_ok realloc required p = (Some i, p')"
    by (auto simp: payload_lends_def)
  from inv show "i \<notin> out \<and> pp_inv p' (insert i out)"
    by (cases rule: get_payload_buf_cases [where mem_ok = mem_ok and realloc = realloc and required = required])
      (use get in auto)
qed (rule release_inv)

section \<open>Use of the pool\<close>

text \<open>Everything that happens to the pool, in any order: chunks are added, buffers are taken, filled and released by
  whoever holds them.  The second component is the set of buffers that are held.\<close>

inductive payload_step :: "payload_pool \<times> nat set \<Rightarrow> payload_pool \<times> nat set \<Rightarrow> bool" where
  grow: "payload_step (p, out) (snd (add_payload_chunk mem_ok p), out)"
| get: "get_payload_buf mem_ok realloc required p = (Some i, p') \<Longrightarrow> payload_step (p, out) (p', insert i out)"
| get_fails: "get_payload_buf mem_ok realloc required p = (None, p') \<Longrightarrow> payload_step (p, out) (p', out)"
| fill: "i \<in> out \<Longrightarrow> length bs \<le> pb_len (pp_bufs p i) \<Longrightarrow> payload_step (p, out) (payload_write i bs p, out)"
| release: "i \<in> out \<Longrightarrow> payload_step (p, out) (release_payload_buf (Some i) p, out - {i})"

lemma payload_step_inv: "payload_step x y \<Longrightarrow> pp_inv (fst x) (snd x) \<Longrightarrow> pp_inv (fst y) (snd y)"
proof (induction rule: payload_step.induct)
  case (get mem_ok realloc required p i p' out)
  then have "pp_inv p out" by simp
  then show ?case
    by (cases rule: get_payload_buf_cases [where mem_ok = mem_ok and realloc = realloc and required = required])
      (use get.hyps in auto)
next
  case (get_fails mem_ok realloc required p p' out)
  then have "pp_inv p out" by simp
  then show ?case
    by (cases rule: get_payload_buf_cases [where mem_ok = mem_ok and realloc = realloc and required = required])
      (use get_fails.hyps in auto)
qed (simp_all add: add_chunk_inv payload_write_inv release_inv)

lemma payload_reach_inv:
  assumes "payload_step\<^sup>*\<^sup>* (static_pool, {}) (p, out)"
  shows "pp_inv p out"
proof -
  have "pp_inv (fst x) (snd x)" if "payload_step\<^sup>*\<^sup>* (static_pool, {}) x" for x
    using that by (induction rule: rtranclp_induct) (simp_all add: static_pool_inv payload_step_inv)
  from this [OF assms] show ?thesis by simp
qed

section \<open>Properties\<close>

text \<open>
  C22: payload buffers are exclusive and carry nothing over.  Start from the empty pool and let buffers be
  taken, filled with any bytes and released in any order.  A further request is refused only for a
  bad size or when memory runs out; otherwise it is served with a buffer nobody holds, at
  least as long as asked, in which every byte is zero or one the allocator has just delivered for this
  request, never one an earlier holder stored, and the buffers held by others are untouched.
\<close>

theorem get_payload_buf_no_leak:
  assumes "payload_step\<^sup>*\<^sup>* (static_pool, {}) (p, out)"
  shows "case get_payload_buf mem_ok realloc required p of
      (None, p') \<Rightarrow> required = 0 \<or> required > MAX_KEY_LEN + MAX_VALUE_LEN \<or> \<not> mem_ok \<or> realloc = None
    | (Some i, p') \<Rightarrow> i \<notin> out \<and> required \<le> length (payload_read i p')
        \<and> (\<forall>j < length (payload_read i p').
             payload_read i p' ! j = 0 \<or> (\<exists>junk. realloc = Some junk \<and> payload_read i p' ! j = junk j))
        \<and> (\<forall>j \<in> out. payload_read j p' = payload_read j p)"
  using payload_reach_inv [OF assms]
  by (cases rule: get_payload_buf_cases [where mem_ok = mem_ok and realloc = realloc and required = required])
    (auto simp: payload_read_def)

text \<open>
  Taking a buffer, filling it and releasing it restores the pool: the same buffers are lent
  afterwards, and every buffer in the free list is wiped and at most \<open>PAYLOAD_RETAIN_LIMIT\<close> long.
\<close>

theorem payload_borrow_return:
  assumes "pp_inv p out" and "get_payload_buf mem_ok realloc required p = (Some i, p')"
    and "length bs \<le> required"
  defines "q \<equiv> release_payload_buf (Some i) (payload_write i bs p')"
  shows "pp_inv q out
    \<and> (\<forall>j \<in> set (pp_free q). zeroed (payload_read j q) \<and> length (payload_read j q) \<le> PAYLOAD_RETAIN_LIMIT)"
proof -
  from assms(1) have "i \<notin> out" and inv: "pp_inv p' (insert i out)" and len: "pb_len (pp_bufs p' i) = required"
    by (cases rule: get_payload_buf_cases [where mem_ok = mem_ok and realloc = realloc and required = required];
        use assms(2) in auto)+
  from payload_write_inv(1) [OF inv, of i bs] len assms(3) have "pp_inv (payload_write i bs p') (insert i out)"
    by simp
  from release_inv [OF this, of i] \<open>i \<notin> out\<close> have "pp_inv q out" by (simp add: q_def)
  then show ?thesis
    by (auto simp: pp_inv_def buf_free_def payload_read_def split: option.splits)
qed

definition demo_payload :: payload_pool where
  "demo_payload = snd (add_payload_chunk True static_pool)"

lemma demo_payload_inv: "pp_inv demo_payload {}"
  by (simp add: demo_payload_def add_chunk_inv static_pool_inv)

lemma pool_size_pos: "0 < POOL_INITIAL_SIZE"
  by (simp add: const_defs)

lemma demo_payload_get:
  "\<exists>p'. get_payload_buf True (Some (\<lambda>_. 7)) 3 demo_payload = (Some 0, p')
     \<and> payload_read 0 (payload_write 0 [1, 2, 3] p') = [1, 2, 3] \<and> pb_len (pp_bufs p' 0) = 3"
proof -
  have "chunk_ids 0 = 0 # [1 ..< POOL_INITIAL_SIZE]"
    using upt_conv_Cons [of 0 POOL_INITIAL_SIZE] pool_size_pos by (simp add: chunk_ids_def)
  then show ?thesis
    by (simp add: get_payload_buf_def demo_payload_def add_payload_chunk_def static_pool_def payload_read_def
        payload_write_def realloc_data_def calloc_buf_def Let_def MAX_KEY_LEN_def MAX_VALUE_LEN_def)
qed

text \<open>One buffer is held and filled; the next request gets another one, which shows nothing of it.\<close>

theorem get_payload_buf_no_leak_witness:
  "\<exists>p' i q. get_payload_buf True (Some (\<lambda>_. 7)) 3 demo_payload = (Some 0, p')
     \<and> get_payload_buf True (Some (\<lambda>_. 8)) 2 (payload_write 0 [1, 2, 3] p') = (Some i, q) \<and> i \<noteq> 0
     \<and> (\<forall>j < length (payload_read i q). payload_read i q ! j = 0 \<or> payload_read i q ! j = 8)
     \<and> payload_read 0 q = [1, 2, 3]"
proof -
  obtain p' where get: "get_payload_buf True (Some (\<lambda>_. 7)) 3 demo_payload = (Some 0, p')"
    and rd: "payload_read 0 (payload_write 0 [1, 2, 3] p') = [1, 2, 3]" and len: "pb_len (pp_bufs p' 0) = 3"
    using demo_payload_get by blast
  have "payload_step\<^sup>*\<^sup>* (static_pool, {}) (demo_payload, {})"
    unfolding demo_payload_def by (intro r_into_rtranclp payload_step.grow)
  also have "payload_step (demo_payload, {}) (p', {0})" using payload_step.get [OF get, of "{}"] by simp
  also have "payload_step (p', {0}) (payload_write 0 [1, 2, 3] p', {0})" by (rule payload_step.fill) (simp_all add: len)
  finally have reach: "payload_step\<^sup>*\<^sup>* (static_pool, {}) (payload_write 0 [1, 2, 3] p', {0})" .
  obtain r q where r: "get_payload_buf True (Some (\<lambda>_. 8)) 2 (payload_write 0 [1, 2, 3] p') = (r, q)" by fastforce
  have two: "\<not> (2 = (0 :: nat) \<or> 2 > MAX_KEY_LEN + MAX_VALUE_LEN)" by (simp add: const_defs)
  note leak = get_payload_buf_no_leak [OF reach, where mem_ok = True and realloc = "Some (\<lambda>_. 8)" and required = 2, unfolded r]
  show ?thesis
  proof (cases r)
    case None
    with leak two show ?thesis by auto
  next
    case (Some i)
    with leak rd get r show ?thesis by auto
  qed
qed

theorem payload_borrow_return_witness:
  "\<exists>p'. get_payload_buf True (Some (\<lambda>_. 7)) 3 demo_payload = (Some 0, p')
     \<and> pp_inv (release_payload_buf (Some 0) (payload_write 0 [1, 2, 3] p')) {}"
proof -
  obtain p' where get: "get_payload_buf True (Some (\<lambda>_. 7)) 3 demo_payload = (Some 0, p')"
    using demo_payload_get by blast
  from payload_borrow_return [OF demo_payload_inv get, where bs = "[1, 2, 3]"] get show ?thesis by simp
qed

end
