(* ===== verification/Dmmr_Heap_Pool.thy ===== *)
theory Dmmr_Heap_Pool
  imports Dmmr_Prelude
begin

unbundle bit_operations_syntax

text \<open>
  \<open>dmmr_heap_pool.c\<close>: a fixed pool of equal slots in one block.  A free slot holds, in its first
  four bytes, the index of the next free slot; \<open>free_head\<close> is the first one, all ones if none.
  The block is a byte list and a pointer into (or outside) it is its signed offset from the start
  of the block.  \<open>calloc\<close> fails when \<open>capacity * obj_size\<close> overflows, so offsets do not wrap.
\<close>

section \<open>State and operations\<close>

record heap_pool =
  hp_obj_size :: nat
  hp_capacity :: nat
  hp_buffer :: "bytes option"
  hp_free_head :: u32

definition load_u32 :: "nat \<Rightarrow> bytes \<Rightarrow> u32" where
  "load_u32 off buf = of_le (sub off 4 buf)"

definition store_u32 :: "nat \<Rightarrow> u32 \<Rightarrow> bytes \<Rightarrow> bytes" where
  "store_u32 off v buf = take off buf @ le_bytes 4 v @ drop (off + 4) buf"

definition zero_range :: "nat \<Rightarrow> nat \<Rightarrow> bytes \<Rightarrow> bytes" where
  "zero_range off n buf = take off buf @ replicate n 0 @ drop (off + n) buf"

definition chain_slots :: "nat \<Rightarrow> nat \<Rightarrow> bytes \<Rightarrow> bytes" where
  "chain_slots obj_size capacity buf =
     (let buf' = foldl (\<lambda>b i. store_u32 (i * obj_size) (of_nat (i + 1)) b) buf [0..<capacity - 1]
      in store_u32 ((capacity - 1) * obj_size) (- 1) buf')"

definition dmmr_heap_pool_init :: "bool \<Rightarrow> nat \<Rightarrow> nat \<Rightarrow> heap_pool \<Rightarrow> int \<times> heap_pool" where
  "dmmr_heap_pool_init mem_ok obj_size capacity pool =
     (if obj_size = 0 \<or> capacity = 0 then (- 1, pool)
      else if obj_size < 4 then (- 1, pool)
      else if \<not> mem_ok then (- 1, pool\<lparr>hp_buffer := None\<rparr>)
      else (0, pool\<lparr>hp_obj_size := obj_size, hp_capacity := capacity,
             hp_buffer := Some (chain_slots obj_size capacity (replicate (capacity * obj_size) 0)),
             hp_free_head := 0\<rparr>))"

definition dmmr_heap_pool_destroy :: "heap_pool \<Rightarrow> heap_pool" where
  "dmmr_heap_pool_destroy pool =
     (case hp_buffer pool of None \<Rightarrow> pool | Some _ \<Rightarrow> pool\<lparr>hp_buffer := None\<rparr>)"

text \<open>The pool is used between \<open>init\<close> and \<open>destroy\<close>; with no block the read of the slot would be
  a fault, here \<open>None\<close> with the pool unchanged.\<close>

definition dmmr_heap_pool_alloc :: "heap_pool \<Rightarrow> int option \<times> heap_pool" where
  "dmmr_heap_pool_alloc pool =
     (if hp_free_head pool = - 1 then (None, pool)
      else case hp_buffer pool of
        None \<Rightarrow> (None, pool)
      | Some buf \<Rightarrow>
          let slot = unat (hp_free_head pool) * hp_obj_size pool in
          (Some (int slot),
           pool\<lparr>hp_free_head := load_u32 slot buf,
                hp_buffer := Some (zero_range slot (hp_obj_size pool) buf)\<rparr>))"

definition dmmr_heap_pool_free :: "int option \<Rightarrow> heap_pool \<Rightarrow> heap_pool" where
  "dmmr_heap_pool_free ptr pool =
     (case ptr of
        None \<Rightarrow> pool
      | Some offset \<Rightarrow>
          (case hp_buffer pool of
             None \<Rightarrow> pool
           | Some buf \<Rightarrow>
               if offset < 0 \<or> offset \<ge> int (hp_capacity pool * hp_obj_size pool) then pool
               else if nat offset mod hp_obj_size pool \<noteq> 0 then pool
               else let idx = nat offset div hp_obj_size pool in
                 pool\<lparr>hp_buffer := Some (store_u32 (nat offset) (hp_free_head pool) buf),
                      hp_free_head := of_nat idx\<rparr>))"

partial_function (option) used_loop :: "nat \<Rightarrow> bytes \<Rightarrow> nat \<Rightarrow> u32 \<Rightarrow> nat option" where
  "used_loop obj_size buf free_count idx =
     (if idx = - 1 then Some free_count
      else used_loop obj_size buf (free_count + 1) (load_u32 (unat idx * obj_size) buf))"

definition dmmr_heap_pool_used :: "heap_pool \<Rightarrow> nat option" where
  "dmmr_heap_pool_used pool =
     (case hp_buffer pool of
        None \<Rightarrow> None
      | Some buf \<Rightarrow>
          map_option (\<lambda>free_count. hp_capacity pool - free_count)
            (used_loop (hp_obj_size pool) buf 0 (hp_free_head pool)))"

section \<open>Reading and writing slots\<close>

lemma length_store_u32 [simp]: "off + 4 \<le> length buf \<Longrightarrow> length (store_u32 off v buf) = length buf"
  by (simp add: store_u32_def)

lemma length_zero_range [simp]: "off + n \<le> length buf \<Longrightarrow> length (zero_range off n buf) = length buf"
  by (simp add: zero_range_def)

lemma load_store_same: "off + 4 \<le> length buf \<Longrightarrow> load_u32 off (store_u32 off v buf) = v"
  by (simp add: load_u32_def store_u32_def sub_append_skip codec_simps)

lemma sub_disjoint_write:
  assumes "off + n \<le> a \<or> a + length w \<le> off" and "a + length w \<le> length buf"
  shows "sub off n (take a buf @ w @ drop (a + length w) buf) = sub off n buf"
proof (rule nth_equalityI)
  show "length (sub off n (take a buf @ w @ drop (a + length w) buf)) = length (sub off n buf)"
    using assms by auto
next
  fix i assume "i < length (sub off n (take a buf @ w @ drop (a + length w) buf))"
  then have i: "i < n" "off + i < length buf" using assms by (auto simp: sub_def)
  show "sub off n (take a buf @ w @ drop (a + length w) buf) ! i = sub off n buf ! i"
    using i assms by (auto simp: sub_def nth_append)
qed

lemma sub_store_other:
  assumes "off + n \<le> a \<or> a + 4 \<le> off" and "a + 4 \<le> length buf"
  shows "sub off n (store_u32 a v buf) = sub off n buf"
  using sub_disjoint_write [of off n a "le_bytes 4 v" buf] assms by (simp add: store_u32_def)

lemma sub_zero_other:
  assumes "off + n \<le> a \<or> a + m \<le> off" and "a + m \<le> length buf"
  shows "sub off n (zero_range a m buf) = sub off n buf"
  using sub_disjoint_write [of off n a "replicate m 0" buf] assms by (simp add: zero_range_def)

lemma sub_zero_same: "off + n \<le> length buf \<Longrightarrow> sub off n (zero_range off n buf) = replicate n 0"
  by (simp add: zero_range_def sub_append_skip)

lemma slot_fits: "i < cap \<Longrightarrow> i * sz + sz \<le> cap * (sz :: nat)"
  by (metis Suc_leI add.commute mult_Suc mult_le_mono1)

lemma slots_apart: "i \<noteq> j \<Longrightarrow> i * sz + sz \<le> j * sz \<or> j * sz + sz \<le> i * (sz :: nat)"
  by (metis Suc_leI add.commute linorder_neqE_nat mult_Suc mult_le_mono1)

section \<open>The invariant\<close>

text \<open>\<open>chain sz buf h fl\<close>: starting at head \<open>h\<close>, the links stored in the block run through the slots
  \<open>fl\<close> in this order and end in the empty mark.\<close>

fun chain :: "nat \<Rightarrow> bytes \<Rightarrow> u32 \<Rightarrow> nat list \<Rightarrow> bool" where
  "chain sz buf h [] \<longleftrightarrow> h = - 1"
| "chain sz buf h (i # fl) \<longleftrightarrow> h = of_nat i \<and> chain sz buf (load_u32 (i * sz) buf) fl"

definition hp_inv :: "heap_pool \<Rightarrow> nat list \<Rightarrow> bool" where
  "hp_inv p fl \<longleftrightarrow>
     (case hp_buffer p of
        None \<Rightarrow> False
      | Some buf \<Rightarrow> length buf = hp_capacity p * hp_obj_size p \<and> chain (hp_obj_size p) buf (hp_free_head p) fl)
     \<and> 4 \<le> hp_obj_size p \<and> 0 < hp_capacity p \<and> hp_capacity p < 2 ^ 32
     \<and> distinct fl \<and> set fl \<subseteq> {..<hp_capacity p}"

lemma chain_cong:
  assumes "\<And>i. i \<in> set fl \<Longrightarrow> load_u32 (i * sz) buf' = load_u32 (i * sz) buf"
  shows "chain sz buf' h fl = chain sz buf h fl"
  using assms by (induction fl arbitrary: h) auto

lemma small_index_not_mark: "i < 2 ^ 32 - 1 \<Longrightarrow> (of_nat i :: u32) \<noteq> - 1"
proof
  assume i: "i < 2 ^ 32 - 1" and "(of_nat i :: u32) = - 1"
  then have "unat (of_nat i :: u32) = unat (- 1 :: u32)" by simp
  then have "i = 2 ^ 32 - 1" using i by (simp add: unsigned_of_nat take_bit_eq_mod unsigned_minus_1_eq_mask mask_eq_exp_minus_1)
  with i show False by simp
qed

lemma load_store_slot:
  assumes "i \<noteq> j" and "i < cap" and "4 \<le> sz" and "length buf = cap * sz"
  shows "load_u32 (j * sz) (store_u32 (i * sz) v buf) = load_u32 (j * sz) buf"
  using sub_store_other [of "j * sz" 4 "i * sz" buf v] slots_apart [OF assms(1), of sz]
    slot_fits [OF assms(2), of sz] assms(3,4)
  by (auto simp: load_u32_def)

lemma load_zero_slot:
  assumes "i \<noteq> j" and "i < cap" and "4 \<le> sz" and "length buf = cap * sz"
  shows "load_u32 (j * sz) (zero_range (i * sz) sz buf) = load_u32 (j * sz) buf"
  using sub_zero_other [of "j * sz" 4 "i * sz" sz buf] slots_apart [OF assms(1), of sz]
    slot_fits [OF assms(2), of sz] assms(3,4)
  by (auto simp: load_u32_def)

lemma chain_slots_links:
  assumes "0 < cap" and "4 \<le> sz" and "length buf = cap * sz"
  shows "length (chain_slots sz cap buf) = cap * sz"
    and "j < cap - 1 \<Longrightarrow> load_u32 (j * sz) (chain_slots sz cap buf) = of_nat (j + 1)"
    and "load_u32 ((cap - 1) * sz) (chain_slots sz cap buf) = - 1"
proof -
  let ?f = "\<lambda>b i. store_u32 (i * sz) (of_nat (i + 1)) b"
  have loop: "length (foldl ?f buf [0..<k]) = cap * sz \<and>
      (\<forall>j < k. load_u32 (j * sz) (foldl ?f buf [0..<k]) = of_nat (j + 1))" if "k < cap" for k
    using that
  proof (induction k)
    case (Suc k)
    then have IH: "length (foldl ?f buf [0..<k]) = cap * sz"
      "\<forall>j < k. load_u32 (j * sz) (foldl ?f buf [0..<k]) = of_nat (j + 1)" and k: "k < cap"
      by simp_all
    have fit: "k * sz + 4 \<le> length (foldl ?f buf [0..<k])"
      using slot_fits [OF k, of sz] IH(1) assms(2) by simp
    have "load_u32 (j * sz) (foldl ?f buf [0..<Suc k]) = of_nat (j + 1)" if "j < Suc k" for j
    proof (cases "j = k")
      case True
      then show ?thesis using load_store_same [OF fit] by simp
    next
      case False
      with that have "j < k" by simp
      then show ?thesis
        using IH load_store_slot [OF _ k assms(2) IH(1), of j "of_nat (k + 1)"] by simp
    qed
    with fit IH(1) show ?case by simp
  qed (simp add: assms(3))
  let ?b = "foldl ?f buf [0..<cap - 1]"
  have b: "length ?b = cap * sz" "\<forall>j < cap - 1. load_u32 (j * sz) ?b = of_nat (j + 1)"
    using loop [of "cap - 1"] assms(1) by simp_all
  have last: "cap - 1 < cap" using assms(1) by simp
  have fit: "(cap - 1) * sz + 4 \<le> length ?b"
    using slot_fits [OF last, of sz] b(1) assms(2) by simp
  have eq: "chain_slots sz cap buf = store_u32 ((cap - 1) * sz) (- 1) ?b"
    by (simp add: chain_slots_def Let_def)
  show "length (chain_slots sz cap buf) = cap * sz"
    using fit b(1) by (simp add: eq)
  show "load_u32 ((cap - 1) * sz) (chain_slots sz cap buf) = - 1"
    unfolding eq using fit by (rule load_store_same)
  assume "j < cap - 1"
  then show "load_u32 (j * sz) (chain_slots sz cap buf) = of_nat (j + 1)"
    unfolding eq using b(2) load_store_slot [OF _ last assms(2) b(1), of j "- 1"] by simp
qed

lemma chain_upt:
  assumes "\<And>j. j < cap - 1 \<Longrightarrow> load_u32 (j * sz) buf = of_nat (j + 1)"
    and "load_u32 ((cap - 1) * sz) buf = - 1" and "i < cap"
  shows "chain sz buf (of_nat i) [i..<cap]"
  using assms(3)
proof (induction "cap - i" arbitrary: i)
  case (Suc d)
  show ?case
  proof (cases "Suc i = cap")
    case True
    then have "[i..<cap] = [i]" by (simp add: upt_rec)
    with True assms(2) show ?thesis by auto
  next
    case False
    with Suc.prems have i: "Suc i < cap" by simp
    have "chain sz buf (of_nat (Suc i)) [Suc i..<cap]"
      using Suc.hyps(1) [of "Suc i"] Suc.hyps(2) i by simp
    moreover have "load_u32 (i * sz) buf = of_nat (Suc i)"
      using assms(1) [of i] i by simp
    ultimately show ?thesis using Suc.prems by (simp add: upt_conv_Cons)
  qed
qed simp

lemma init_inv:
  assumes "dmmr_heap_pool_init mem_ok obj_size capacity pool = (0, p)" and "capacity < 2 ^ 32"
  shows "hp_inv p [0..<capacity]" and "hp_capacity p = capacity" and "hp_obj_size p = obj_size"
proof -
  from assms(1) have g: "0 < capacity" "4 \<le> obj_size" and
    p: "p = pool\<lparr>hp_obj_size := obj_size, hp_capacity := capacity,
             hp_buffer := Some (chain_slots obj_size capacity (replicate (capacity * obj_size) 0)),
             hp_free_head := 0\<rparr>"
    by (auto simp: dmmr_heap_pool_init_def split: if_splits)
  note links = chain_slots_links [OF g, of "replicate (capacity * obj_size) 0", simplified]
  have "chain obj_size (chain_slots obj_size capacity (replicate (capacity * obj_size) 0)) (of_nat 0) [0..<capacity]"
    by (rule chain_upt) (use links g in simp_all)
  with g links(1) assms(2) show "hp_inv p [0..<capacity]"
    by (auto simp: p hp_inv_def)
qed (use assms in \<open>auto simp: dmmr_heap_pool_init_def split: if_splits\<close>)

definition slot_bytes :: "heap_pool \<Rightarrow> nat \<Rightarrow> bytes" where
  "slot_bytes p i = (case hp_buffer p of None \<Rightarrow> [] | Some buf \<Rightarrow> sub (i * hp_obj_size p) (hp_obj_size p) buf)"

lemma alloc_inv:
  assumes "hp_inv p (i # fl)"
  obtains p' where "dmmr_heap_pool_alloc p = (Some (int (i * hp_obj_size p)), p')" "hp_inv p' fl"
    "hp_capacity p' = hp_capacity p" "hp_obj_size p' = hp_obj_size p"
    "slot_bytes p' i = replicate (hp_obj_size p) 0"
    "\<And>j. j \<noteq> i \<Longrightarrow> slot_bytes p' j = slot_bytes p j"
proof -
  from assms obtain buf where buf: "hp_buffer p = Some buf" "length buf = hp_capacity p * hp_obj_size p"
    and head: "hp_free_head p = of_nat i"
    and ch: "chain (hp_obj_size p) buf (load_u32 (i * hp_obj_size p) buf) fl"
    and g: "4 \<le> hp_obj_size p" "0 < hp_capacity p" "hp_capacity p < 2 ^ 32"
      "distinct fl" "i \<notin> set fl" "set fl \<subseteq> {..<hp_capacity p}" "i < hp_capacity p"
    by (auto simp: hp_inv_def split: option.splits)
  have i: "i < 2 ^ 32 - 1" using g by simp
  then have u: "unat (of_nat i :: u32) = i" by (simp add: unsigned_of_nat take_bit_eq_mod)
  have fit: "i * hp_obj_size p + hp_obj_size p \<le> length buf"
    using slot_fits [OF g(7), of "hp_obj_size p"] buf(2) by simp
  let ?buf = "zero_range (i * hp_obj_size p) (hp_obj_size p) buf"
  let ?p = "p\<lparr>hp_free_head := load_u32 (i * hp_obj_size p) buf, hp_buffer := Some ?buf\<rparr>"
  have "chain (hp_obj_size p) ?buf (load_u32 (i * hp_obj_size p) buf) fl"
  proof (subst chain_cong)
    fix j assume "j \<in> set fl"
    then have "i \<noteq> j" using g(5) by auto
    then show "load_u32 (j * hp_obj_size p) ?buf = load_u32 (j * hp_obj_size p) buf"
      using g(7,1) buf(2) by (rule load_zero_slot)
  qed (rule ch)
  with fit buf g have "hp_inv ?p fl" by (simp add: hp_inv_def)
  moreover have "dmmr_heap_pool_alloc p = (Some (int (i * hp_obj_size p)), ?p)"
    using head small_index_not_mark [OF i] u buf(1) by (simp add: dmmr_heap_pool_alloc_def Let_def)
  moreover have "slot_bytes ?p i = replicate (hp_obj_size p) 0"
    using sub_zero_same [OF fit] by (simp add: slot_bytes_def)
  moreover have "slot_bytes ?p j = slot_bytes p j" if "j \<noteq> i" for j
    using sub_zero_other [OF slots_apart [OF that] fit] buf(1) by (simp add: slot_bytes_def)
  ultimately show ?thesis by (intro that [of ?p]) simp_all
qed

lemma alloc_empty: "hp_inv p [] \<Longrightarrow> dmmr_heap_pool_alloc p = (None, p)"
  by (auto simp: hp_inv_def dmmr_heap_pool_alloc_def split: option.splits)

lemma free_inv:
  assumes "hp_inv p fl" and "i < hp_capacity p" and "i \<notin> set fl"
  shows "hp_inv (dmmr_heap_pool_free (Some (int (i * hp_obj_size p))) p) (i # fl)"
    and "j \<noteq> i \<Longrightarrow> slot_bytes (dmmr_heap_pool_free (Some (int (i * hp_obj_size p))) p) j = slot_bytes p j"
    and "hp_capacity (dmmr_heap_pool_free (Some (int (i * hp_obj_size p))) p) = hp_capacity p"
    and "hp_obj_size (dmmr_heap_pool_free (Some (int (i * hp_obj_size p))) p) = hp_obj_size p"
proof -
  from assms(1) obtain buf where buf: "hp_buffer p = Some buf" "length buf = hp_capacity p * hp_obj_size p"
    and ch: "chain (hp_obj_size p) buf (hp_free_head p) fl"
    and g: "4 \<le> hp_obj_size p" "0 < hp_capacity p" "hp_capacity p < 2 ^ 32"
      "distinct fl" "set fl \<subseteq> {..<hp_capacity p}"
    by (auto simp: hp_inv_def split: option.splits)
  have fit: "i * hp_obj_size p + hp_obj_size p \<le> length buf"
    using slot_fits [OF assms(2), of "hp_obj_size p"] buf(2) by simp
  then have lt: "i * hp_obj_size p < hp_capacity p * hp_obj_size p" and fit4: "i * hp_obj_size p + 4 \<le> length buf"
    using buf(2) g(1) by linarith+
  let ?buf = "store_u32 (i * hp_obj_size p) (hp_free_head p) buf"
  have f: "dmmr_heap_pool_free (Some (int (i * hp_obj_size p))) p
      = p\<lparr>hp_buffer := Some ?buf, hp_free_head := of_nat i\<rparr>"
  proof -
    have "int (i * hp_obj_size p) < int (hp_capacity p * hp_obj_size p)"
      using lt by (simp only: of_nat_less_iff)
    moreover have "nat (int (i * hp_obj_size p)) = i * hp_obj_size p" by (simp only: nat_int)
    moreover have "0 \<le> int (i * hp_obj_size p)" by (simp only: of_nat_0_le_iff)
    ultimately show ?thesis
      using buf(1) g(1) unfolding dmmr_heap_pool_free_def Let_def
      by (simp del: of_nat_mult)
  qed
  have "chain (hp_obj_size p) ?buf (hp_free_head p) fl"
  proof (subst chain_cong)
    fix j assume "j \<in> set fl"
    then have "i \<noteq> j" using assms(3) by auto
    then show "load_u32 (j * hp_obj_size p) ?buf = load_u32 (j * hp_obj_size p) buf"
      using assms(2) g(1) buf(2) by (rule load_store_slot)
  qed (rule ch)
  then show "hp_inv (dmmr_heap_pool_free (Some (int (i * hp_obj_size p))) p) (i # fl)"
    unfolding f using fit4 buf g assms(2,3) by (simp add: hp_inv_def load_store_same)
  show "slot_bytes (dmmr_heap_pool_free (Some (int (i * hp_obj_size p))) p) j = slot_bytes p j" if "j \<noteq> i"
    using sub_store_other [of "j * hp_obj_size p" "hp_obj_size p" "i * hp_obj_size p" buf]
      slots_apart [OF that, of "hp_obj_size p"] fit4 g(1) buf(1)
    unfolding f by (auto simp: slot_bytes_def)
  show "hp_capacity (dmmr_heap_pool_free (Some (int (i * hp_obj_size p))) p) = hp_capacity p"
    and "hp_obj_size (dmmr_heap_pool_free (Some (int (i * hp_obj_size p))) p) = hp_obj_size p"
    unfolding f by simp_all
qed

lemma used_loop_chain:
  "chain sz buf h fl \<Longrightarrow> \<forall>i \<in> set fl. i < 2 ^ 32 - 1 \<Longrightarrow>
     used_loop sz buf n h = Some (n + length fl)"
proof (induction fl arbitrary: h n)
  case Nil
  then show ?case by (simp add: used_loop.simps)
next
  case (Cons i fl)
  then have "h = of_nat i" "h \<noteq> - 1" "i < 2 ^ 32 - 1"
    using small_index_not_mark by auto
  then have "unat h = i" by (simp add: unsigned_of_nat take_bit_eq_mod)
  then have "used_loop sz buf n h = used_loop sz buf (n + 1) (load_u32 (i * sz) buf)"
    using \<open>h \<noteq> - 1\<close> by (simp add: used_loop.simps [of sz buf n h])
  also have "\<dots> = Some (n + 1 + length fl)"
    using Cons.IH [of _ "n + 1"] Cons.prems by simp
  finally show ?case by simp
qed

lemma used_count:
  assumes "hp_inv p fl"
  shows "dmmr_heap_pool_used p = Some (hp_capacity p - length fl)"
proof -
  from assms obtain buf where "hp_buffer p = Some buf" "chain (hp_obj_size p) buf (hp_free_head p) fl"
    "\<forall>i \<in> set fl. i < 2 ^ 32 - 1"
    by (force simp: hp_inv_def split: option.splits)
  with used_loop_chain [of "hp_obj_size p" buf "hp_free_head p" fl 0] show ?thesis
    by (simp add: dmmr_heap_pool_used_def)
qed

section \<open>The pool as its clients see it\<close>

text \<open>
  The interface of a pool of objects: \<open>inv p out\<close> says that exactly the handles \<open>out\<close> are in use.
  Allocation hands out a handle that is not in use, fails only when all \<open>capacity\<close> objects are in
  use, and release makes one handle available again.
\<close>

locale object_pool =
  fixes inv :: "'p \<Rightarrow> 'h set \<Rightarrow> bool"
    and capacity :: "'p \<Rightarrow> nat"
    and alloc :: "'p \<Rightarrow> 'h option \<times> 'p"
    and free :: "'h option \<Rightarrow> 'p \<Rightarrow> 'p"
  assumes inv_card: "inv p out \<Longrightarrow> finite out \<and> card out \<le> capacity p"
    and alloc_free_slot: "inv p out \<Longrightarrow> card out < capacity p \<Longrightarrow>
      \<exists>h p'. alloc p = (Some h, p') \<and> h \<notin> out \<and> inv p' (insert h out) \<and> capacity p' = capacity p"
    and alloc_exhausted: "inv p out \<Longrightarrow> card out = capacity p \<Longrightarrow> alloc p = (None, p)"
    and free_used: "inv p out \<Longrightarrow> h \<in> out \<Longrightarrow>
      inv (free (Some h) p) (out - {h}) \<and> capacity (free (Some h) p) = capacity p"
begin

lemma alloc_cases:
  assumes "inv p out"
  obtains (exhausted) "card out = capacity p" "alloc p = (None, p)"
  | (slot) h p' where "card out < capacity p" "alloc p = (Some h, p')" "h \<notin> out"
      "inv p' (insert h out)" "capacity p' = capacity p"
  using inv_card [OF assms] alloc_free_slot [OF assms] alloc_exhausted [OF assms]
  by (metis le_neq_implies_less)

lemma alloc_fails_iff: "inv p out \<Longrightarrow> fst (alloc p) = None \<longleftrightarrow> card out = capacity p"
  by (cases rule: alloc_cases) auto

lemma alloc_after_free:
  assumes "inv p out" and "h \<in> out"
  shows "\<exists>h' p'. alloc (free (Some h) p) = (Some h', p') \<and> inv p' (insert h' (out - {h}))"
proof -
  have "card (out - {h}) < capacity p"
    using inv_card [OF assms(1)] assms(2) by (metis card_Diff1_less le_less_trans not_le not_less)
  then show ?thesis using free_used [OF assms] alloc_free_slot by metis
qed

end

sublocale object_pool \<subseteq> lent: lender inv "\<lambda>p h p'. alloc p = (Some h, p')" "\<lambda>h. free (Some h)"
proof
  show "h \<notin> out \<and> inv p' (insert h out)" if "inv p out" "alloc p = (Some h, p')" for p out h p'
    using that(1) by (cases rule: alloc_cases) (use that(2) in auto)
qed (use free_used in auto)

context object_pool
begin

lemma queue_bound:
  assumes "lent.queue_inv p q busy"
  shows "length q + card busy \<le> capacity p" and "finite busy"
proof -
  have inv: "inv p (fst ` set q \<union> busy)" and "distinct (map fst q)" "fst ` set q \<inter> busy = {}"
    using assms by (auto simp: lent.queue_inv_def)
  then have "card (fst ` set q \<union> busy) = length q + card busy" and "finite busy"
    using inv_card [OF inv] distinct_card [of "map fst q"] by (simp_all add: card_Un_disjoint)
  then show "length q + card busy \<le> capacity p" and "finite busy"
    using inv_card [OF inv] by simp_all
qed

end

definition pool_inv :: "heap_pool \<Rightarrow> int set \<Rightarrow> bool" where
  "pool_inv p out \<longleftrightarrow>
     (\<exists>fl. hp_inv p fl \<and> out = (\<lambda>i. int (i * hp_obj_size p)) ` ({..<hp_capacity p} - set fl))"

lemma pool_handle_inj: "0 < sz \<Longrightarrow> inj_on (\<lambda>i. int (i * sz)) A"
  by (auto simp: inj_on_def)

lemma pool_inv_card:
  assumes "hp_inv p fl"
  shows "card ((\<lambda>i. int (i * hp_obj_size p)) ` ({..<hp_capacity p} - set fl)) = hp_capacity p - length fl"
proof -
  have "0 < hp_obj_size p" "distinct fl" "set fl \<subseteq> {..<hp_capacity p}"
    using assms by (auto simp: hp_inv_def)
  then show ?thesis
    by (simp add: card_image pool_handle_inj card_Diff_subset distinct_card del: of_nat_mult)
qed

lemma hp_inv_bound: "hp_inv p fl \<Longrightarrow> length fl \<le> hp_capacity p"
  unfolding hp_inv_def by (metis card_lessThan card_mono distinct_card finite_lessThan)

interpretation pool: object_pool pool_inv hp_capacity dmmr_heap_pool_alloc dmmr_heap_pool_free
proof
  fix p out assume "pool_inv p out"
  then obtain fl where fl: "hp_inv p fl"
    and out: "out = (\<lambda>i. int (i * hp_obj_size p)) ` ({..<hp_capacity p} - set fl)"
    by (auto simp: pool_inv_def)
  note card = pool_inv_card [OF fl, folded out]
  show "finite out \<and> card out \<le> hp_capacity p" using card out by simp
  show "\<exists>h p'. dmmr_heap_pool_alloc p = (Some h, p') \<and> h \<notin> out \<and> pool_inv p' (insert h out)
      \<and> hp_capacity p' = hp_capacity p" if "card out < hp_capacity p"
  proof (cases fl)
    case Nil
    with that card show ?thesis by simp
  next
    case (Cons i fl')
    with fl have i: "i < hp_capacity p" "i \<notin> set fl'" "0 < hp_obj_size p" by (auto simp: hp_inv_def)
    obtain p' where p': "dmmr_heap_pool_alloc p = (Some (int (i * hp_obj_size p)), p')" "hp_inv p' fl'"
      "hp_capacity p' = hp_capacity p" "hp_obj_size p' = hp_obj_size p"
      using fl Cons by (metis alloc_inv)
    have "insert i ({..<hp_capacity p} - set fl) = {..<hp_capacity p} - set fl'"
      using Cons i by auto
    then have "insert (int (i * hp_obj_size p)) out
        = (\<lambda>i. int (i * hp_obj_size p)) ` ({..<hp_capacity p} - set fl')"
      using out by (metis image_insert)
    moreover have "int (i * hp_obj_size p) \<notin> out"
      using out Cons i(3) by auto
    ultimately show ?thesis using p' by (auto simp: pool_inv_def)
  qed
  show "dmmr_heap_pool_alloc p = (None, p)" if "card out = hp_capacity p"
  proof -
    have "0 < hp_capacity p" using fl by (simp add: hp_inv_def)
    then have "length fl = 0" using that card hp_inv_bound [OF fl] by linarith
    with fl alloc_empty show ?thesis by simp
  qed
  show "pool_inv (dmmr_heap_pool_free (Some h) p) (out - {h})
      \<and> hp_capacity (dmmr_heap_pool_free (Some h) p) = hp_capacity p" if "h \<in> out" for h
  proof -
    from that out obtain i where i: "h = int (i * hp_obj_size p)" "i < hp_capacity p" "i \<notin> set fl" by auto
    have "0 < hp_obj_size p" using fl by (auto simp: hp_inv_def)
    then have "out - {h} = (\<lambda>i. int (i * hp_obj_size p)) ` ({..<hp_capacity p} - set (i # fl))"
      using out i by auto
    with free_inv [OF fl i(2,3)] show ?thesis unfolding i(1) pool_inv_def by metis
  qed
qed

section \<open>Properties\<close>

text \<open>
  C13: \<open>dmmr_heap_pool_alloc\<close> hands out exclusive, zeroed objects.  While the handles \<open>out\<close> are in
  use, it fails exactly when all slots are in use; otherwise it returns the start of a slot inside
  the block that is not in use, the slot is zeroed, the handle is recorded as in use and
  the bytes of every other slot are unchanged.
\<close>

theorem heap_pool_alloc_exclusive:
  assumes "pool_inv p out"
  shows "if card out = hp_capacity p then dmmr_heap_pool_alloc p = (None, p)
     else \<exists>i p'. i < hp_capacity p \<and> int (i * hp_obj_size p) \<notin> out
       \<and> dmmr_heap_pool_alloc p = (Some (int (i * hp_obj_size p)), p')
       \<and> pool_inv p' (insert (int (i * hp_obj_size p)) out)
       \<and> slot_bytes p' i = replicate (hp_obj_size p) 0
       \<and> (\<forall>j. j \<noteq> i \<longrightarrow> slot_bytes p' j = slot_bytes p j)"
proof (cases "card out = hp_capacity p")
  case True
  then show ?thesis using pool.alloc_exhausted [OF assms] by simp
next
  case False
  with pool.inv_card [OF assms] have "card out < hp_capacity p" by simp
  from assms obtain fl where fl: "hp_inv p fl"
    and out: "out = (\<lambda>i. int (i * hp_obj_size p)) ` ({..<hp_capacity p} - set fl)"
    by (auto simp: pool_inv_def)
  with \<open>card out < hp_capacity p\<close> pool_inv_card [OF fl] obtain i fl' where i: "fl = i # fl'"
    by (cases fl) auto
  with fl have "hp_inv p (i # fl')" and ic: "i < hp_capacity p" by (simp_all add: hp_inv_def)
  then obtain p' where p': "dmmr_heap_pool_alloc p = (Some (int (i * hp_obj_size p)), p')"
    "slot_bytes p' i = replicate (hp_obj_size p) 0" "\<And>j. j \<noteq> i \<Longrightarrow> slot_bytes p' j = slot_bytes p j"
    using alloc_inv by blast
  moreover obtain h q where "dmmr_heap_pool_alloc p = (Some h, q)" "h \<notin> out" "pool_inv q (insert h out)"
    using pool.alloc_free_slot [OF assms \<open>card out < hp_capacity p\<close>] by blast
  ultimately show ?thesis using False ic by auto
qed

text \<open>
  \<open>dmmr_heap_pool_used\<close> terminates and counts.  On a pool whose handles \<open>out\<close> are in use, the
  walk over the free list ends and the result is the number of handles in use.
\<close>

theorem heap_pool_used_counts:
  assumes "pool_inv p out"
  shows "dmmr_heap_pool_used p = Some (card out)"
  using assms used_count pool_inv_card by (auto simp: pool_inv_def)

text \<open>\<open>n\<close> allocations in a row.\<close>

fun alloc_many :: "nat \<Rightarrow> heap_pool \<Rightarrow> int option list \<times> heap_pool" where
  "alloc_many 0 p = ([], p)"
| "alloc_many (Suc n) p =
     (case dmmr_heap_pool_alloc p of (h, p') \<Rightarrow> (case alloc_many n p' of (hs, p'') \<Rightarrow> (h # hs, p'')))"

lemma alloc_many_distinct:
  assumes "pool_inv p out" and "card out + n \<le> hp_capacity p"
  shows "\<exists>hs p'. alloc_many n p = (map Some hs, p') \<and> length hs = n \<and> distinct hs \<and> set hs \<inter> out = {}"
  using assms
proof (induction n arbitrary: p out)
  case (Suc n)
  then obtain h p' where h: "dmmr_heap_pool_alloc p = (Some h, p')" "h \<notin> out" "pool_inv p' (insert h out)"
    "hp_capacity p' = hp_capacity p"
    using pool.alloc_free_slot [of p out] by auto
  with Suc.prems pool.inv_card [of p out] have "card (insert h out) + n \<le> hp_capacity p'" by simp
  from Suc.IH [OF h(3) this] obtain hs q where
    "alloc_many n p' = (map Some hs, q)" "length hs = n" "distinct hs" "set hs \<inter> insert h out = {}" by blast
  with h show ?case by (intro exI [of _ "h # hs"] exI [of _ q]) auto
qed simp

text \<open>
  Life of a pool.  After a successful \<open>dmmr_heap_pool_init\<close> no object is in use; the handles
  returned by any sequence of allocations, at most \<open>capacity\<close> long, are pairwise distinct and none
  of the calls fails.
\<close>

theorem heap_pool_init_life:
  assumes "dmmr_heap_pool_init mem_ok obj_size capacity pool = (0, p)" and "capacity < 2 ^ 32"
    and "n \<le> capacity"
  shows "dmmr_heap_pool_used p = Some 0 \<and>
     (\<exists>hs p'. alloc_many n p = (map Some hs, p') \<and> length hs = n \<and> distinct hs)"
proof -
  note init = init_inv [OF assms(1,2)]
  have "pool_inv p {}" using init by (auto simp: pool_inv_def intro!: exI [of _ "[0..<capacity]"])
  with alloc_many_distinct [of p "{}" n] init(2) assms(3) show ?thesis
    using used_count [OF init(1)] by auto
qed

definition demo_pool :: heap_pool where
  "demo_pool = snd (dmmr_heap_pool_init True 8 3
     \<lparr>hp_obj_size = 0, hp_capacity = 0, hp_buffer = None, hp_free_head = 0\<rparr>)"

lemma demo_pool_init: "dmmr_heap_pool_init True 8 3
     \<lparr>hp_obj_size = 0, hp_capacity = 0, hp_buffer = None, hp_free_head = 0\<rparr> = (0, demo_pool)"
  by (simp add: demo_pool_def dmmr_heap_pool_init_def)

lemma demo_pool_inv: "pool_inv demo_pool {}" and demo_pool_cap: "hp_capacity demo_pool = 3"
  using init_inv [OF demo_pool_init] by (auto simp: pool_inv_def intro!: exI [of _ "[0..<3]"])

theorem heap_pool_alloc_exclusive_witness:
  "\<exists>i p'. i < hp_capacity demo_pool \<and> dmmr_heap_pool_alloc demo_pool = (Some (int (i * hp_obj_size demo_pool)), p')"
  using heap_pool_alloc_exclusive [OF demo_pool_inv] demo_pool_cap by auto

theorem heap_pool_used_counts_witness: "dmmr_heap_pool_used demo_pool = Some 0"
  using heap_pool_used_counts [OF demo_pool_inv] by simp

theorem heap_pool_init_life_witness:
  "\<exists>hs p'. alloc_many 3 demo_pool = (map Some hs, p') \<and> length hs = 3 \<and> distinct hs"
  using heap_pool_init_life [OF demo_pool_init, of 3] by simp

end
