(* ===== verification/Dmmr_Queues.thy ===== *)
theory Dmmr_Queues
  imports Dmmr_Protocol Dmmr_Heap_Pool "HOL-Library.Multiset"
begin

text \<open>
  The two queues of \<open>dmmr_server.c\<close> that hand work from one thread to another: accepted
  connections (\<open>enqueue_job\<close>, \<open>worker_routine\<close>) and replication commands (\<open>enqueue_broadcast\<close>,
  \<open>control_thread_routine\<close>, \<open>broadcast_worker_routine\<close>).  A queue entry lives in a slot of a heap
  pool; here it is a pair of the slot's handle and its contents.  The threads interleave at their
  critical sections, which are the steps of the two transition systems.
\<close>

section \<open>Connections waiting for a worker\<close>

record job_queue =
  jq_pool :: heap_pool
  jq_head :: "(int \<times> int) list"
  jq_size :: int

definition alloc_job :: "job_queue \<Rightarrow> int option \<times> job_queue" where
  "alloc_job q = (case dmmr_heap_pool_alloc (jq_pool q) of (h, p) \<Rightarrow> (h, q\<lparr>jq_pool := p\<rparr>))"

definition free_job :: "int \<Rightarrow> job_queue \<Rightarrow> job_queue" where
  "free_job h q = q\<lparr>jq_pool := dmmr_heap_pool_free (Some h) (jq_pool q)\<rparr>"

text \<open>The first component is the descriptor the call closes, if any.\<close>

definition enqueue_job :: "int \<Rightarrow> job_queue \<Rightarrow> int option \<times> job_queue" where
  "enqueue_job fd q =
     (if fd < 0 then (None, q)
      else if jq_size q \<ge> int QUEUE_MAX then (Some fd, q)
      else case alloc_job q of
        (None, q') \<Rightarrow> (Some fd, q')
      | (Some job, q') \<Rightarrow>
          (None, q'\<lparr>jq_head := jq_head q' @ [(job, fd)], jq_size := jq_size q' + 1\<rparr>))"

text \<open>The critical section of \<open>worker_routine\<close> after its wait.\<close>

definition worker_take :: "job_queue \<Rightarrow> (int \<times> int) option \<times> job_queue" where
  "worker_take q =
     (case jq_head q of
        [] \<Rightarrow> (None, q)
      | job # rest \<Rightarrow> (Some job, q\<lparr>jq_head := rest, jq_size := jq_size q - 1\<rparr>))"

text \<open>The queue together with the connections the workers serve, and the history: descriptors
  admitted to the queue, taken by a worker, closed after service, and closed unserved.\<close>

record job_sys =
  js_queue :: job_queue
  js_running :: bool
  js_serving :: "(int \<times> int) list"
  js_admitted :: "int list"
  js_started :: "int list"
  js_closed :: "int list"
  js_refused :: "int list"

inductive job_step :: "job_sys \<Rightarrow> job_sys \<Rightarrow> bool" where
  accept: "0 \<le> fd \<Longrightarrow> enqueue_job fd (js_queue s) = (None, q) \<Longrightarrow>
    job_step s (s\<lparr>js_queue := q, js_admitted := js_admitted s @ [fd]\<rparr>)"
| refuse: "enqueue_job fd (js_queue s) = (Some fd', q) \<Longrightarrow>
    job_step s (s\<lparr>js_queue := q, js_refused := js_refused s @ [fd']\<rparr>)"
| take: "js_running s \<Longrightarrow> jq_size (js_queue s) \<noteq> 0 \<Longrightarrow> worker_take (js_queue s) = (Some (h, fd), q) \<Longrightarrow>
    job_step s (s\<lparr>js_queue := q, js_serving := (h, fd) # js_serving s, js_started := js_started s @ [fd]\<rparr>)"
| finish: "(h, fd) \<in> set (js_serving s) \<Longrightarrow>
    job_step s (s\<lparr>js_queue := free_job h (js_queue s), js_serving := remove1 (h, fd) (js_serving s),
      js_closed := js_closed s @ [fd]\<rparr>)"
| stop: "job_step s (s\<lparr>js_running := False\<rparr>)"

definition job_start :: "heap_pool \<Rightarrow> job_sys" where
  "job_start p = \<lparr>js_queue = \<lparr>jq_pool = p, jq_head = [], jq_size = 0\<rparr>, js_running = True,
     js_serving = [], js_admitted = [], js_started = [], js_closed = [], js_refused = []\<rparr>"

definition job_inv :: "job_sys \<Rightarrow> bool" where
  "job_inv s \<longleftrightarrow>
     pool.lent.queue_inv (jq_pool (js_queue s)) (jq_head (js_queue s)) (fst ` set (js_serving s))
     \<and> distinct (map fst (js_serving s))
     \<and> hp_capacity (jq_pool (js_queue s)) = QUEUE_MAX
     \<and> jq_size (js_queue s) = int (length (jq_head (js_queue s)))
     \<and> js_admitted s = js_started s @ map snd (jq_head (js_queue s))
     \<and> mset (js_started s) = mset (map snd (js_serving s)) + mset (js_closed s)"

lemma queue_inv_empty [inv_intros]: "pool_inv p {} \<Longrightarrow> pool.lent.queue_inv p [] {}"
  by (simp add: pool.lent.queue_inv_def)

lemma fresh_pool_inv [inv_intros]:
  assumes "dmmr_heap_pool_init mem_ok obj_size capacity p0 = (0, p)" and "capacity < 2 ^ 32"
  shows "pool_inv p {}" and "hp_capacity p = capacity"
  using init_inv [OF assms] by (auto simp: pool_inv_def intro!: exI [of _ "[0..<capacity]"])

lemma remove1_fst_image:
  assumes "x \<in> set xs" and "distinct (map fst xs)"
  shows "fst ` set (remove1 x xs) = fst ` set xs - {fst x}" and "distinct (map fst (remove1 x xs))"
  using assms by (induction xs) (auto simp: image_iff)

lemma mset_map_remove1: "x \<in> set xs \<Longrightarrow> mset (map f xs) = add_mset (f x) (mset (map f (remove1 x xs)))"
  by (induction xs) auto

lemma enqueue_job_admitted:
  assumes "enqueue_job fd q = (None, q')" and "0 \<le> fd"
  obtains h p where "dmmr_heap_pool_alloc (jq_pool q) = (Some h, p)"
    "q' = q\<lparr>jq_pool := p, jq_head := jq_head q @ [(h, fd)], jq_size := jq_size q + 1\<rparr>"
  using assms by (auto simp: enqueue_job_def alloc_job_def split: if_splits prod.splits option.splits)

lemma enqueue_job_refused:
  assumes "enqueue_job fd q = (Some fd', q')" and "pool_inv (jq_pool q) out"
  shows "fd' = fd" and "q' = q" and "jq_size q \<ge> int QUEUE_MAX \<or> card out = hp_capacity (jq_pool q)"
proof -
  have "fd' = fd \<and> q' = q \<and> (jq_size q \<ge> int QUEUE_MAX \<or> card out = hp_capacity (jq_pool q))"
    using assms(2)
    by (cases rule: pool.alloc_cases) (use assms(1) in \<open>auto simp: enqueue_job_def alloc_job_def split: if_splits\<close>)
  then show "fd' = fd" and "q' = q" and "jq_size q \<ge> int QUEUE_MAX \<or> card out = hp_capacity (jq_pool q)"
    by simp_all
qed

lemma pool_inv_capacity:
  assumes "pool_inv p out" and "dmmr_heap_pool_alloc p = (h, p')"
  shows "hp_capacity p' = hp_capacity p"
  using assms(1) by (cases rule: pool.alloc_cases) (use assms(2) in auto)

lemma queue_free_capacity:
  assumes "pool.lent.queue_inv p q busy" and "h \<in> busy"
  shows "hp_capacity (dmmr_heap_pool_free (Some h) p) = hp_capacity p"
  using assms pool.free_used [of p "fst ` set q \<union> busy" h] by (simp add: pool.lent.queue_inv_def)

lemma job_step_inv:
  assumes "job_step s t" and "job_inv s"
  shows "job_inv t"
  using assms
proof (induction rule: job_step.induct)
  case (accept fd s q)
  then obtain h p where h: "dmmr_heap_pool_alloc (jq_pool (js_queue s)) = (Some h, p)"
    and q: "q = (js_queue s)\<lparr>jq_pool := p, jq_head := jq_head (js_queue s) @ [(h, fd)],
        jq_size := jq_size (js_queue s) + 1\<rparr>"
    by (auto elim: enqueue_job_admitted)
  have "hp_capacity p = hp_capacity (jq_pool (js_queue s))"
    using accept.prems pool_inv_capacity [OF _ h] by (auto simp: job_inv_def pool.lent.queue_inv_def)
  with pool.lent.queue_insert_tail [OF _ h] accept.prems show ?case
    unfolding q job_inv_def by auto
next
  case (refuse fd s fd' q)
  then have "q = js_queue s"
    using enqueue_job_refused(2) by (auto simp: job_inv_def pool.lent.queue_inv_def)
  with refuse.prems show ?case by (simp add: job_inv_def)
next
  case (take s h fd q)
  then obtain rest where rest: "jq_head (js_queue s) = (h, fd) # rest"
    and q: "q = (js_queue s)\<lparr>jq_head := rest, jq_size := jq_size (js_queue s) - 1\<rparr>"
    by (auto simp: worker_take_def split: list.splits)
  with take.prems pool.lent.queue_remove_head [of "jq_pool (js_queue s)" h fd rest] show ?case
    unfolding job_inv_def q by auto
next
  case (finish h fd s)
  let ?p = "jq_pool (js_queue s)"
  have h: "h \<in> fst ` set (js_serving s)" using finish.hyps by force
  have d: "distinct (map fst (js_serving s))"
    and qi: "pool.lent.queue_inv ?p (jq_head (js_queue s)) (fst ` set (js_serving s))"
    using finish.prems by (auto simp: job_inv_def)
  have "hp_capacity (dmmr_heap_pool_free (Some h) ?p) = hp_capacity ?p"
    using queue_free_capacity [OF qi h] .
  with pool.lent.queue_release [OF qi h] remove1_fst_image [OF finish.hyps d]
    mset_map_remove1 [OF finish.hyps, of snd] finish.prems show ?case
    unfolding job_inv_def free_job_def by simp
qed (simp add: job_inv_def)

lemma job_start_inv:
  assumes "dmmr_heap_pool_init mem_ok obj_size QUEUE_MAX p0 = (0, p)"
  shows "job_inv (job_start p)"
  using fresh_pool_inv [OF assms]
  by (auto simp: job_inv_def job_start_def queue_inv_empty QUEUE_MAX_def)

lemma job_reach_inv:
  assumes "job_step\<^sup>*\<^sup>* s t" and "job_inv s"
  shows "job_inv t"
  using assms by (induction rule: rtranclp_induct) (auto intro: job_step_inv)

lemma job_inv_bound:
  assumes "job_inv s"
  shows "length (jq_head (js_queue s)) + length (js_serving s) \<le> QUEUE_MAX"
proof -
  have "card (fst ` set (js_serving s)) = length (js_serving s)"
    using assms distinct_card [of "map fst (js_serving s)"] by (simp add: job_inv_def)
  then show ?thesis
    using pool.queue_bound(1) assms unfolding job_inv_def by metis
qed

section \<open>Replication commands\<close>

datatype control_cmd_type = CMD_BROADCAST | CMD_SHUTDOWN

record control_cmd =
  cc_type :: control_cmd_type
  cc_ts :: u64
  cc_node_id :: u64
  cc_expire_at :: u64
  cc_flags :: u16
  cc_key :: bytes
  cc_value :: "bytes option"
  cc_value_len :: nat

record control_queue =
  cq_pool :: heap_pool
  cq_head :: "(int \<times> control_cmd) list"
  cq_size :: int

definition alloc_cmd :: "control_queue \<Rightarrow> int option \<times> control_queue" where
  "alloc_cmd q = (case dmmr_heap_pool_alloc (cq_pool q) of (h, p) \<Rightarrow> (h, q\<lparr>cq_pool := p\<rparr>))"

definition free_cmd :: "int \<Rightarrow> control_queue \<Rightarrow> control_queue" where
  "free_cmd h q = q\<lparr>cq_pool := dmmr_heap_pool_free (Some h) (cq_pool q)\<rparr>"

text \<open>\<open>mem_ok\<close> is the outcome of \<open>malloc\<close> for the copy of the value.\<close>

definition enqueue_broadcast ::
  "bool \<Rightarrow> bytes \<Rightarrow> bytes option \<Rightarrow> nat \<Rightarrow> u64 \<Rightarrow> u64 \<Rightarrow> u64 \<Rightarrow> u16 \<Rightarrow> control_queue \<Rightarrow> control_queue" where
  "enqueue_broadcast mem_ok key value value_len ts node_id expire_at flags q =
     (case alloc_cmd q of
        (None, q1) \<Rightarrow> q1
      | (Some h, q1) \<Rightarrow>
          let cmd = \<lparr>cc_type = CMD_BROADCAST, cc_ts = ts, cc_node_id = node_id, cc_expire_at = expire_at,
                     cc_flags = flags, cc_key = take MAX_KEY_LEN key, cc_value = None, cc_value_len = 0\<rparr>;
              insert = (\<lambda>cmd. q1\<lparr>cq_head := cq_head q1 @ [(h, cmd)], cq_size := cq_size q1 + 1\<rparr>) in
          (case value of
             Some v \<Rightarrow>
               if value_len > 0 then
                 (let vlen = (if value_len > MAX_VALUE_LEN then MAX_VALUE_LEN else value_len) in
                  if \<not> mem_ok then free_cmd h q1
                  else insert (cmd\<lparr>cc_value := Some (take vlen v), cc_value_len := vlen\<rparr>))
               else insert cmd
           | None \<Rightarrow> insert cmd))"

text \<open>The removal both consumers do.\<close>

definition control_take :: "control_queue \<Rightarrow> (int \<times> control_cmd) option \<times> control_queue" where
  "control_take q =
     (case cq_head q of
        [] \<Rightarrow> (None, q)
      | cmd # rest \<Rightarrow> (Some cmd, q\<lparr>cq_head := rest, cq_size := cq_size q - 1\<rparr>))"

text \<open>The control thread takes whenever the queue is not empty, the two broadcast workers only
  above the high-water mark.  \<open>enqueue_broadcast\<close> is one step although it allocates and fills the command before it
  locks the queue: until the insertion nobody else knows the slot, so what other threads do in between commutes with it.\<close>

record control_sys =
  cs_queue :: control_queue
  cs_running :: bool
  cs_busy :: "(int \<times> control_cmd) list"
  cs_queued :: "control_cmd list"
  cs_taken :: "control_cmd list"

inductive control_step :: "control_sys \<Rightarrow> control_sys \<Rightarrow> bool" where
  enqueue: "q = enqueue_broadcast mem_ok key val value_len ts node_id expire_at flags (cs_queue s) \<Longrightarrow>
    control_step s (s\<lparr>cs_queue := q,
      cs_queued := cs_queued s @ map snd (drop (length (cq_head (cs_queue s))) (cq_head q))\<rparr>)"
| control: "cs_running s \<Longrightarrow> control_take (cs_queue s) = (Some (h, cmd), q) \<Longrightarrow>
    control_step s (s\<lparr>cs_queue := q, cs_busy := (h, cmd) # cs_busy s, cs_taken := cs_taken s @ [cmd]\<rparr>)"
| worker: "cs_running s \<Longrightarrow> cq_size (cs_queue s) > int HIGH_WATERMARK \<Longrightarrow>
    control_take (cs_queue s) = (Some (h, cmd), q) \<Longrightarrow>
    control_step s (s\<lparr>cs_queue := q, cs_busy := (h, cmd) # cs_busy s, cs_taken := cs_taken s @ [cmd]\<rparr>)"
| processed: "(h, cmd) \<in> set (cs_busy s) \<Longrightarrow>
    control_step s (s\<lparr>cs_queue := free_cmd h (cs_queue s), cs_busy := remove1 (h, cmd) (cs_busy s)\<rparr>)"
| control_stop: "control_step s (s\<lparr>cs_running := False\<rparr>)"

definition control_inv :: "control_sys \<Rightarrow> bool" where
  "control_inv s \<longleftrightarrow>
     pool.lent.queue_inv (cq_pool (cs_queue s)) (cq_head (cs_queue s)) (fst ` set (cs_busy s))
     \<and> distinct (map fst (cs_busy s))
     \<and> hp_capacity (cq_pool (cs_queue s)) = 2 * QUEUE_MAX
     \<and> cq_size (cs_queue s) = int (length (cq_head (cs_queue s)))
     \<and> cs_queued s = cs_taken s @ map snd (cq_head (cs_queue s))"

definition control_start :: "heap_pool \<Rightarrow> control_sys" where
  "control_start p = \<lparr>cs_queue = \<lparr>cq_pool = p, cq_head = [], cq_size = 0\<rparr>, cs_running = True,
     cs_busy = [], cs_queued = [], cs_taken = []\<rparr>"

text \<open>What \<open>enqueue_broadcast\<close> does: nothing when the pool is exhausted or memory is, else one
  command at the tail.\<close>

definition broadcast_cmd :: "bytes \<Rightarrow> bytes option \<Rightarrow> nat \<Rightarrow> u64 \<Rightarrow> u64 \<Rightarrow> u64 \<Rightarrow> u16 \<Rightarrow> control_cmd" where
  "broadcast_cmd key value value_len ts node_id expire_at flags =
     \<lparr>cc_type = CMD_BROADCAST, cc_ts = ts, cc_node_id = node_id, cc_expire_at = expire_at,
      cc_flags = flags, cc_key = take MAX_KEY_LEN key,
      cc_value = (if value = None \<or> value_len = 0 then None
                  else map_option (take (min value_len MAX_VALUE_LEN)) value),
      cc_value_len = (if value = None then 0 else min value_len MAX_VALUE_LEN)\<rparr>"

lemma enqueue_broadcast_cases:
  assumes "pool_inv (cq_pool q) out"
  obtains (full) "card out = hp_capacity (cq_pool q)"
      "enqueue_broadcast mem_ok key val value_len ts node_id expire_at flags q = q"
  | (no_memory) h p where "\<not> mem_ok" "0 < value_len" "val \<noteq> None"
      "dmmr_heap_pool_alloc (cq_pool q) = (Some h, p)"
      "enqueue_broadcast mem_ok key val value_len ts node_id expire_at flags q
         = q\<lparr>cq_pool := dmmr_heap_pool_free (Some h) p\<rparr>"
  | (queued) h p where "card out < hp_capacity (cq_pool q)"
      "dmmr_heap_pool_alloc (cq_pool q) = (Some h, p)" "h \<notin> out" "pool_inv p (insert h out)"
      "hp_capacity p = hp_capacity (cq_pool q)"
      "enqueue_broadcast mem_ok key val value_len ts node_id expire_at flags q
         = q\<lparr>cq_pool := p,
             cq_head := cq_head q @ [(h, broadcast_cmd key val value_len ts node_id expire_at flags)],
             cq_size := cq_size q + 1\<rparr>"
  using assms
proof (cases rule: pool.alloc_cases)
  case exhausted
  then show ?thesis using full by (auto simp: enqueue_broadcast_def alloc_cmd_def)
next
  case (slot h p)
  show ?thesis
  proof (cases "val \<noteq> None \<and> 0 < value_len \<and> \<not> mem_ok")
    case True
    then show ?thesis
      using slot by (intro no_memory [of h p]) (auto simp: enqueue_broadcast_def alloc_cmd_def free_cmd_def Let_def)
  next
    case False
    then show ?thesis
      using slot
      by (intro queued [of h p]) (auto simp: enqueue_broadcast_def alloc_cmd_def Let_def broadcast_cmd_def min_def
          split: option.splits)
  qed
qed

lemma enqueue_broadcast_queued:
  assumes "pool_inv (cq_pool q) out" and "card out < hp_capacity (cq_pool q)"
    and "mem_ok \<or> val = None \<or> value_len = 0"
  shows "map snd (cq_head (enqueue_broadcast mem_ok key val value_len ts node_id expire_at flags q))
     = map snd (cq_head q) @ [broadcast_cmd key val value_len ts node_id expire_at flags]"
  using assms(1)
  by (cases rule: enqueue_broadcast_cases [where mem_ok = mem_ok and key = key and val = val
        and value_len = value_len and ts = ts and node_id = node_id and expire_at = expire_at and flags = flags])
    (use assms in auto)

lemma control_take_inv:
  assumes "control_take (cs_queue s) = (Some (h, cmd), q)" and "control_inv s"
  shows "control_inv (s\<lparr>cs_queue := q, cs_busy := (h, cmd) # cs_busy s, cs_taken := cs_taken s @ [cmd]\<rparr>)"
proof -
  from assms(1) obtain rest where rest: "cq_head (cs_queue s) = (h, cmd) # rest"
    and q: "q = (cs_queue s)\<lparr>cq_head := rest, cq_size := cq_size (cs_queue s) - 1\<rparr>"
    by (auto simp: control_take_def split: list.splits)
  with assms(2) pool.lent.queue_remove_head [of "cq_pool (cs_queue s)" h cmd rest] show ?thesis
    unfolding control_inv_def q by auto
qed

lemma control_step_inv:
  assumes "control_step s t" and "control_inv s"
  shows "control_inv t"
  using assms
proof (induction rule: control_step.induct)
  case (enqueue q mem_ok key val value_len ts node_id expire_at flags s)
  let ?q = "cs_queue s" and ?busy = "fst ` set (cs_busy s)"
  have qi: "pool.lent.queue_inv (cq_pool ?q) (cq_head ?q) ?busy"
    using enqueue.prems by (simp add: control_inv_def)
  then have "pool_inv (cq_pool ?q) (fst ` set (cq_head ?q) \<union> ?busy)"
    by (simp add: pool.lent.queue_inv_def)
  then show ?case
  proof (cases rule: enqueue_broadcast_cases [where mem_ok = mem_ok and key = key and val = val
        and value_len = value_len and ts = ts and node_id = node_id and expire_at = expire_at and flags = flags])
    case full
    with enqueue show ?thesis by (simp add: control_inv_def)
  next
    case (no_memory h p)
    let ?out = "fst ` set (cq_head ?q) \<union> ?busy"
    have out: "pool_inv (cq_pool ?q) ?out" using qi by (simp add: pool.lent.queue_inv_def)
    note borrow = pool.lent.borrow_return [OF out no_memory(4)]
    have "pool_inv p (insert h ?out)" using pool.lent.lends_fresh [OF out no_memory(4)] by simp
    then have "hp_capacity (dmmr_heap_pool_free (Some h) p) = hp_capacity (cq_pool ?q)"
      using pool.free_used [of p "insert h ?out" h] pool_inv_capacity [OF out no_memory(4)] by simp
    with borrow enqueue no_memory(5) qi show ?thesis by (simp add: control_inv_def pool.lent.queue_inv_def)
  next
    case (queued h p)
    with enqueue pool.lent.queue_insert_tail [OF qi queued(2)] show ?thesis
      by (simp add: control_inv_def)
  qed
next
  case (processed h cmd s)
  let ?p = "cq_pool (cs_queue s)"
  have h: "h \<in> fst ` set (cs_busy s)" using processed.hyps by force
  have d: "distinct (map fst (cs_busy s))"
    and qi: "pool.lent.queue_inv ?p (cq_head (cs_queue s)) (fst ` set (cs_busy s))"
    using processed.prems by (auto simp: control_inv_def)
  have "hp_capacity (dmmr_heap_pool_free (Some h) ?p) = hp_capacity ?p"
    using queue_free_capacity [OF qi h] .
  with pool.lent.queue_release [OF qi h] remove1_fst_image [OF processed.hyps d] processed.prems show ?case
    unfolding control_inv_def free_cmd_def by simp
next
  case (control_stop s)
  then show ?case by (simp add: control_inv_def)
qed (rule control_take_inv, assumption+)+

lemma control_reach_inv:
  assumes "control_step\<^sup>*\<^sup>* s t" and "control_inv s"
  shows "control_inv t"
  using assms by (induction rule: rtranclp_induct) (auto intro: control_step_inv)

lemma control_start_inv:
  assumes "dmmr_heap_pool_init mem_ok obj_size (2 * QUEUE_MAX) p0 = (0, p)"
  shows "control_inv (control_start p)"
  using fresh_pool_inv [OF assms]
  by (auto simp: control_inv_def control_start_def queue_inv_empty QUEUE_MAX_def)

section \<open>Properties\<close>

text \<open>
  C14: the connection queue under every interleaving of the acceptor and the workers.
  Connections are served in the order they were admitted, each admitted connection is waiting,
  being served or closed, exactly once, \<open>queue_size\<close> is the length of the queue, at most
  \<open>QUEUE_MAX\<close> connections wait or are served at a time, a worker that finds \<open>queue_size\<close> non-zero
  gets a connection, and an accepted connection is refused only when \<open>QUEUE_MAX\<close> are.
\<close>

theorem job_queue_safe:
  assumes "dmmr_heap_pool_init mem_ok obj_size QUEUE_MAX p0 = (0, p)" and "job_step\<^sup>*\<^sup>* (job_start p) s"
  shows "js_admitted s = js_started s @ map snd (jq_head (js_queue s))
    \<and> mset (js_admitted s)
        = mset (map snd (jq_head (js_queue s))) + mset (map snd (js_serving s)) + mset (js_closed s)
    \<and> jq_size (js_queue s) = int (length (jq_head (js_queue s)))
    \<and> length (jq_head (js_queue s)) + length (js_serving s) \<le> QUEUE_MAX
    \<and> (jq_size (js_queue s) \<noteq> 0 \<longrightarrow> fst (worker_take (js_queue s)) \<noteq> None)
    \<and> (\<forall>fd. fst (enqueue_job fd (js_queue s)) = Some fd \<longrightarrow>
         length (jq_head (js_queue s)) + length (js_serving s) = QUEUE_MAX)"
proof -
  have inv: "job_inv s" using job_reach_inv [OF assms(2) job_start_inv [OF assms(1)]] .
  let ?q = "js_queue s" and ?out = "fst ` set (jq_head (js_queue s)) \<union> fst ` set (js_serving s)"
  have pi: "pool_inv (jq_pool ?q) ?out" and disj: "fst ` set (jq_head ?q) \<inter> fst ` set (js_serving s) = {}"
    and d: "distinct (map fst (jq_head ?q))" "distinct (map fst (js_serving s))"
    using inv by (auto simp: job_inv_def pool.lent.queue_inv_def)
  have card: "card ?out = length (jq_head ?q) + length (js_serving s)"
    using disj distinct_card [OF d(1)] distinct_card [OF d(2)] by (simp add: card_Un_disjoint)
  have "length (jq_head ?q) + length (js_serving s) = QUEUE_MAX"
    if "fst (enqueue_job fd ?q) = Some fd" for fd
    using enqueue_job_refused(3) [OF _ pi, of fd fd "snd (enqueue_job fd ?q)"] that card job_inv_bound [OF inv] inv
    by (auto simp: prod_eq_iff job_inv_def)
  moreover have "fst (worker_take ?q) \<noteq> None" if "jq_size ?q \<noteq> 0"
    using that inv by (auto simp: worker_take_def job_inv_def split: list.splits)
  ultimately show ?thesis
    using inv job_inv_bound [OF inv] by (auto simp: job_inv_def)
qed

text \<open>
  C21: the replication queue under every interleaving.  Commands are taken in the order they
  were queued and none is lost or taken twice, \<open>control_queue_size\<close> is the length of the queue, and
  at most \<open>2 * QUEUE_MAX\<close> commands are queued or being sent.
\<close>

theorem control_queue_fifo:
  assumes "dmmr_heap_pool_init mem_ok obj_size (2 * QUEUE_MAX) p0 = (0, p)"
    and "control_step\<^sup>*\<^sup>* (control_start p) s"
  shows "cs_queued s = cs_taken s @ map snd (cq_head (cs_queue s))
    \<and> cq_size (cs_queue s) = int (length (cq_head (cs_queue s)))
    \<and> length (cq_head (cs_queue s)) + length (cs_busy s) \<le> 2 * QUEUE_MAX"
proof -
  have inv: "control_inv s" using control_reach_inv [OF assms(2) control_start_inv [OF assms(1)]] .
  then have "card (fst ` set (cs_busy s)) = length (cs_busy s)"
    using distinct_card [of "map fst (cs_busy s)"] by (simp add: control_inv_def)
  with inv pool.queue_bound(1) show ?thesis unfolding control_inv_def by metis
qed

definition null_pool :: heap_pool where
  "null_pool = \<lparr>hp_obj_size = 0, hp_capacity = 0, hp_buffer = None, hp_free_head = 0\<rparr>"

lemma init_ok:
  assumes "4 \<le> sz" and "0 < cap"
  shows "\<exists>p. dmmr_heap_pool_init True sz cap null_pool = (0, p)"
  using assms by (simp add: dmmr_heap_pool_init_def)

theorem job_queue_safe_witness:
  "\<exists>p s. dmmr_heap_pool_init True 24 QUEUE_MAX null_pool = (0, p) \<and> job_step\<^sup>*\<^sup>* (job_start p) s
     \<and> js_admitted s = [5] \<and> js_admitted s = js_started s @ map snd (jq_head (js_queue s))"
proof -
  obtain p where p: "dmmr_heap_pool_init True 24 QUEUE_MAX null_pool = (0, p)"
    using init_ok [of 24 QUEUE_MAX] by (auto simp: QUEUE_MAX_def)
  have "pool_inv p {}" "hp_capacity p = QUEUE_MAX" using fresh_pool_inv [OF p] by (simp_all add: QUEUE_MAX_def)
  with pool.alloc_free_slot [of p "{}"] obtain h p' where "dmmr_heap_pool_alloc p = (Some h, p')"
    by (auto simp: QUEUE_MAX_def)
  then have "enqueue_job 5 (js_queue (job_start p)) = (None, \<lparr>jq_pool = p', jq_head = [(h, 5)], jq_size = 1\<rparr>)"
    by (simp add: enqueue_job_def alloc_job_def job_start_def QUEUE_MAX_def)
  from job_step.accept [OF _ this] have "job_step\<^sup>*\<^sup>* (job_start p) ((job_start p)\<lparr>js_queue :=
      \<lparr>jq_pool = p', jq_head = [(h, 5)], jq_size = 1\<rparr>, js_admitted := [5]\<rparr>)"
    by (auto simp: job_start_def)
  with p job_queue_safe [OF p this] show ?thesis by fastforce
qed

theorem control_queue_fifo_witness:
  "\<exists>p s. dmmr_heap_pool_init True 1096 (2 * QUEUE_MAX) null_pool = (0, p)
     \<and> control_step\<^sup>*\<^sup>* (control_start p) s \<and> length (cs_queued s) = 1
     \<and> cs_queued s = cs_taken s @ map snd (cq_head (cs_queue s))"
proof -
  obtain p where p: "dmmr_heap_pool_init True 1096 (2 * QUEUE_MAX) null_pool = (0, p)"
    using init_ok [of 1096 "2 * QUEUE_MAX"] by (auto simp: QUEUE_MAX_def)
  have pi: "pool_inv p {}" "hp_capacity p = 2 * QUEUE_MAX"
    using fresh_pool_inv [OF p] by (simp_all add: QUEUE_MAX_def)
  let ?s = "control_start p"
  let ?q = "enqueue_broadcast True (cstr ''k'') (Some (cstr ''v'')) 1 1 1 1 0 (cs_queue ?s)"
  have q: "map snd (cq_head ?q) = [broadcast_cmd (cstr ''k'') (Some (cstr ''v'')) 1 1 1 1 0]"
    using enqueue_broadcast_queued [of "cs_queue ?s" "{}" True] pi
    by (simp add: control_start_def QUEUE_MAX_def)
  have step: "control_step\<^sup>*\<^sup>* ?s (?s\<lparr>cs_queue := ?q, cs_queued := map snd (cq_head ?q)\<rparr>)"
    using control_step.enqueue [OF refl, of ?s True "cstr ''k''" "Some (cstr ''v'')" 1 1 1 1 0]
    by (auto simp: control_start_def)
  let ?t = "?s\<lparr>cs_queue := ?q, cs_queued := map snd (cq_head ?q)\<rparr>"
  have "length (cs_queued ?t) = 1" by (simp only: control_sys.simps q) simp
  moreover have "cs_queued ?t = cs_taken ?t @ map snd (cq_head (cs_queue ?t))"
    using control_queue_fifo [OF p step] by blast
  ultimately show ?thesis using p step by blast
qed

end
