(* ===== verification/Dmmr_Server.thy ===== *)
theory Dmmr_Server
  imports Dmmr_Db Dmmr_Net Dmmr_Pool Dmmr_Queues
begin

text \<open>
  \<open>dmmr_server.c\<close>: reading requests, answering them from the record store, and handing the changes
  to replication.

  The outside of the process is in the state: what the next calls of \<open>clock_gettime\<close> and of the
  allocator return are the sequences \<open>sv_clock\<close> and \<open>sv_mem\<close>.  A connection is a \<open>sock\<close>.  A run of a
  function is \<open>Done\<close> with its result, \<open>Blocked\<close> if a system call never returns, or \<open>Fault\<close> if the
  code leaves the bounds of one of its buffers.
\<close>

section \<open>State\<close>

datatype 'a run = Done 'a | Blocked | Fault

definition TTL_DEFAULT :: u64 where [const_defs]: "TTL_DEFAULT = 3600 * 1000000"

record 's server =
  sv_clock :: "nat \<Rightarrow> u64 \<times> u64"
  sv_mem :: "nat \<Rightarrow> bool"
  sv_junk :: "nat \<Rightarrow> u8"
  sv_dbp :: "'s option"
  my_node_id :: u64
  cache_request_count :: u64
  cache_hit_count :: u64
  cache_miss_count :: u64
  cache_set_count :: u64
  cache_del_count :: u64
  sv_payload :: payload_pool
  sv_control :: control_queue

definition timespec_micros :: "u64 \<times> u64 \<Rightarrow> u64" where
  "timespec_micros ts = fst ts * 1000000 + snd ts div 1000"

definition now_micros :: "'s server \<Rightarrow> u64 \<times> 's server" where
  "now_micros st = (timespec_micros (sv_clock st 0), st\<lparr>sv_clock := (\<lambda>n. sv_clock st (Suc n))\<rparr>)"

definition next_mem :: "'s server \<Rightarrow> bool \<times> 's server" where
  "next_mem st = (sv_mem st 0, st\<lparr>sv_mem := (\<lambda>n. sv_mem st (Suc n))\<rparr>)"

section \<open>Requests of the version-1 protocol\<close>

text \<open>The \<open>switch\<close> of \<open>process_frame\<close>: status, response payload and its length.\<close>

type_synonym reply = "u16 \<times> bytes option \<times> u32"

definition process_get :: "'s bdb \<Rightarrow> bytes \<Rightarrow> 's server \<Rightarrow> reply \<times> 's server" where
  "process_get B key st =
     (let st1 = st\<lparr>cache_request_count := cache_request_count st + 1\<rparr>;
          (mem_ok, st2) = next_mem st1 in
      case db_get_with_meta B mem_ok (Some key) True (sv_dbp st2) of
        (DMMR_DB_APPLIED, Some got) \<Rightarrow>
          ((DMMR_PROTO_STATUS_OK, got_value got, of_nat (got_value_len got)),
           st2\<lparr>cache_hit_count := cache_hit_count st2 + 1\<rparr>)
      | (DMMR_DB_NOT_FOUND, _) \<Rightarrow>
          ((DMMR_PROTO_STATUS_NOT_FOUND, None, 0), st2\<lparr>cache_miss_count := cache_miss_count st2 + 1\<rparr>)
      | _ \<Rightarrow> ((DMMR_PROTO_STATUS_ERROR, None, 0), st2\<lparr>cache_miss_count := cache_miss_count st2 + 1\<rparr>))"

definition process_set ::
  "'s bdb \<Rightarrow> bytes \<Rightarrow> bytes option \<Rightarrow> nat \<Rightarrow> u64 \<Rightarrow> u64 \<Rightarrow> bool \<Rightarrow> 's server \<Rightarrow> reply \<times> 's server" where
  "process_set B key value value_len ts source_node_id from_peer st =
     (let (ts_use, st1) = (if from_peer then (ts, st) else now_micros st);
          node_use = (if from_peer then source_node_id else my_node_id st1);
          st2 = st1\<lparr>cache_request_count := cache_request_count st1 + 1,
                    cache_set_count := cache_set_count st1 + 1\<rparr>;
          (now, st3) = now_micros st2;
          expire_at = now + TTL_DEFAULT;
          (mem_ok, st4) = next_mem st3;
          (rc, dbp') = db_set_with_meta B mem_ok (Some key) ts_use node_use value value_len expire_at (sv_dbp st4);
          st5 = st4\<lparr>sv_dbp := dbp'\<rparr> in
      if rc = DMMR_DB_APPLIED then
        if \<not> from_peer then
          (let (mem_ok2, st6) = next_mem st5 in
           ((DMMR_PROTO_STATUS_OK, None, 0),
            st6\<lparr>sv_control := enqueue_broadcast mem_ok2 key value value_len ts_use node_use expire_at
                  FLAG_NONE (sv_control st6)\<rparr>))
        else ((DMMR_PROTO_STATUS_OK, None, 0), st5)
      else ((DMMR_PROTO_STATUS_ERROR, None, 0), st5))"

definition process_del :: "'s bdb \<Rightarrow> bytes \<Rightarrow> bool \<Rightarrow> 's server \<Rightarrow> reply \<times> 's server" where
  "process_del B key from_peer st =
     (let st1 = st\<lparr>cache_request_count := cache_request_count st + 1,
                   cache_del_count := cache_del_count st + 1\<rparr>;
          (now, st2) = now_micros st1;
          (mem_ok, st3) = next_mem st2;
          (rc, dbp') = db_del_key B mem_ok now (my_node_id st3) (Some key) (sv_dbp st3);
          st4 = st3\<lparr>sv_dbp := dbp'\<rparr>;
          status = (if rc = DMMR_DB_APPLIED then DMMR_PROTO_STATUS_OK else DMMR_PROTO_STATUS_ERROR) in
      if \<not> from_peer then
        (let (ts_del, st5) = now_micros st4; (mem_ok2, st6) = next_mem st5 in
         ((status, None, 0),
          st6\<lparr>sv_control := enqueue_broadcast mem_ok2 key None 0 ts_del (my_node_id st6) 0
                FLAG_TOMBSTONE (sv_control st6)\<rparr>))
      else ((status, None, 0), st4))"

definition process_op ::
  "'s bdb \<Rightarrow> dmmr_frame \<Rightarrow> bytes \<Rightarrow> u64 \<Rightarrow> bool \<Rightarrow> 's server \<Rightarrow> reply \<times> 's server" where
  "process_op B frame payload source_node_id from_peer st =
     (let key = take (unat (f_key_len frame)) payload;
          value_len = unat (f_value_len frame);
          value = (if value_len > 0 then Some (sub (unat (f_key_len frame)) value_len payload) else None) in
      if f_opcode frame = OP_GET then process_get B key st
      else if f_opcode frame = OP_SET \<or> f_opcode frame = OP_SYNC
      then process_set B key value value_len (f_timestamp frame) source_node_id from_peer st
      else if f_opcode frame = OP_DEL then process_del B key from_peer st
      else ((DMMR_PROTO_STATUS_ERROR, None, 0), st))"

definition response_header :: "u16 \<Rightarrow> u32 \<Rightarrow> bytes" where
  "response_header status response_len =
     le_bytes 2 (htons status) @ le_bytes 4 (htonl response_len) @ [0, 0]"

definition send_response :: "reply \<Rightarrow> sock \<Rightarrow> (int \<times> sock) run" where
  "send_response r s =
     (case r of (status, response_payload, response_len) \<Rightarrow>
        (case send_full (response_header status response_len) s of
           None \<Rightarrow> Blocked
         | Some (n, s1) \<Rightarrow>
             if n \<noteq> 8 then Done (- 1, s1)
             else (case response_payload of
                None \<Rightarrow> Done (0, s1)
              | Some p \<Rightarrow>
                  if response_len > 0 then
                    (case send_full (take (unat response_len) p) s1 of
                       None \<Rightarrow> Blocked
                     | Some (n, s2) \<Rightarrow> if n \<noteq> int (unat response_len) then Done (- 1, s2) else Done (0, s2))
                  else Done (0, s1))))"

definition process_frame ::
  "'s bdb \<Rightarrow> sock \<Rightarrow> dmmr_frame \<Rightarrow> bytes \<Rightarrow> u64 \<Rightarrow> bool \<Rightarrow> 's server \<Rightarrow> (int \<times> sock \<times> 's server) run" where
  "process_frame B s frame payload source_node_id from_peer st =
     (if f_key_len frame = 0 \<or> unat (f_key_len frame) > MAX_KEY_LEN \<or> unat (f_value_len frame) > MAX_VALUE_LEN
      then Done (- 1, s, st)
      else case process_op B frame payload source_node_id from_peer st of (r, st') \<Rightarrow>
        (case send_response r s of
           Done (rc, s') \<Rightarrow> Done (rc, s', st')
         | Blocked \<Rightarrow> Blocked
         | Fault \<Rightarrow> Fault))"

section \<open>Reading a request\<close>

datatype request = ReadFrame dmmr_frame "nat option" | ReadLegacy u16 u16 "nat option" | ReadFail int

text \<open>A buffer from the pool, filled from the connection.\<close>

definition read_payload :: "nat \<Rightarrow> (nat option \<Rightarrow> request) \<Rightarrow> sock \<Rightarrow> 's server \<Rightarrow>
    (request \<times> sock \<times> 's server) run" where
  "read_payload tot ret s st =
     (let (mem_ok, st1) = next_mem st; (realloc_ok, st2) = next_mem st1 in
      case get_payload_buf mem_ok (if realloc_ok then Some (sv_junk st2) else None) tot (sv_payload st2) of
        (None, p) \<Rightarrow> Done (ReadFail (- 4), s, st2\<lparr>sv_payload := p\<rparr>)
      | (Some pbuf, p) \<Rightarrow>
          (case recv_full tot s of
             None \<Rightarrow> Blocked
           | Some ((n, bs), s1) \<Rightarrow>
               let p1 = payload_write pbuf bs p in
               if n \<noteq> int tot
               then Done (ReadFail (- 5), s1, st2\<lparr>sv_payload := release_payload_buf (Some pbuf) p1\<rparr>)
               else Done (ret (Some pbuf), s1, st2\<lparr>sv_payload := p1\<rparr>)))"

definition read_frame :: "sock \<Rightarrow> 's server \<Rightarrow> (request \<times> sock \<times> 's server) run" where
  "read_frame s st =
     (case recv_full 4 s of
        None \<Rightarrow> Blocked
      | Some ((n, prefix), s1) \<Rightarrow>
          if n \<noteq> 4 then Done (ReadFail (- 1), s1, st)
          else let magic = ntohs (of_le (sub 0 2 prefix)); version = ntohs (of_le (sub 2 2 prefix)) in
            if magic = DMMR_MAGIC \<and> version = DMMR_VERSION then
              (case recv_full (frame_size - 4) s1 of
                 None \<Rightarrow> Blocked
               | Some ((n, rest), s2) \<Rightarrow>
                   if n \<noteq> int (frame_size - 4) then Done (ReadFail (- 1), s2, st)
                   else let frame = frame_ntoh (frame_of_mem (prefix @ rest)) in
                     if f_magic frame \<noteq> DMMR_MAGIC \<or> f_version frame \<noteq> DMMR_VERSION
                     then Done (ReadFail (- 2), s2, st)
                     else if unat (f_key_len frame) > MAX_KEY_LEN \<or> unat (f_value_len frame) > MAX_VALUE_LEN
                     then Done (ReadFail (- 3), s2, st)
                     else let tot = unat (f_key_len frame + f_value_len frame) in
                       if tot = 0 then Done (ReadFrame frame None, s2, st)
                       else read_payload tot (ReadFrame frame) s2 st)
            else let legacy_opcode = magic; legacy_key_len = version in
              if legacy_opcode \<noteq> OP_GET \<or> legacy_key_len = 0
              then Done (ReadLegacy legacy_opcode legacy_key_len None, s1, st)
              else read_payload (unat legacy_key_len) (ReadLegacy legacy_opcode legacy_key_len) s1 st)"

section \<open>The legacy protocol\<close>

text \<open>The response is built in a buffer of 4 + 4096 bytes on the stack.\<close>

definition send_legacy_response :: "sock \<Rightarrow> u16 \<Rightarrow> u16 \<Rightarrow> bytes option \<Rightarrow> sock run" where
  "send_legacy_response s status payload_len payload =
     (if unat payload_len > 4096 \<or> (payload_len > 0 \<and> payload = None) then Fault
      else case send_full (le_bytes 2 (htons status) @ le_bytes 2 (htons payload_len) @
               (case payload of None \<Rightarrow> [] | Some p \<Rightarrow> take (unat payload_len) p)) s of
        None \<Rightarrow> Blocked
      | Some (_, s') \<Rightarrow> Done s')"

definition process_legacy_request ::
  "'s bdb \<Rightarrow> sock \<Rightarrow> u16 \<Rightarrow> u16 \<Rightarrow> bytes option \<Rightarrow> 's server \<Rightarrow> (int \<times> sock \<times> 's server) run" where
  "process_legacy_request B s opcode key_len payload st =
     (let reply = (\<lambda>rc status len val st. case send_legacy_response s status len val of
                     Done s' \<Rightarrow> Done (rc, s', st) | Blocked \<Rightarrow> Blocked | Fault \<Rightarrow> Fault) in
      case payload of
        None \<Rightarrow> reply (- 1) DMMR_PROTO_STATUS_ERROR 0 None st
      | Some p \<Rightarrow>
          if opcode \<noteq> OP_GET \<or> key_len = 0 then reply (- 1) DMMR_PROTO_STATUS_ERROR 0 None st
          else let (mem_ok, st1) = next_mem st in
            case db_get_with_meta B mem_ok (Some (take (unat key_len) p)) True (sv_dbp st1) of
              (DMMR_DB_APPLIED, Some got) \<Rightarrow>
                reply 0 DMMR_PROTO_STATUS_OK (of_nat (got_value_len got)) (got_value got) st1
            | (DMMR_DB_ERROR, _) \<Rightarrow> reply 1 DMMR_PROTO_STATUS_NOT_FOUND 0 None st1
            | _ \<Rightarrow> reply (- 1) DMMR_PROTO_STATUS_ERROR 0 None st1)"

section \<open>Serving a connection\<close>

definition payload_of :: "nat option \<Rightarrow> 's server \<Rightarrow> bytes" where
  "payload_of pb st = (case pb of None \<Rightarrow> [] | Some i \<Rightarrow> payload_read i (sv_payload st))"

definition serve_request :: "'s bdb \<Rightarrow> request \<Rightarrow> sock \<Rightarrow> 's server \<Rightarrow> (sock \<times> 's server) run" where
  "serve_request B r s st =
     (let release = (\<lambda>pb res. case res of
                       Done (_ :: int, s', st') \<Rightarrow>
                         Done (s', st'\<lparr>sv_payload := release_payload_buf pb (sv_payload st')\<rparr>)
                     | Blocked \<Rightarrow> Blocked | Fault \<Rightarrow> Fault) in
      case r of
        ReadFrame frame pb \<Rightarrow>
          release pb (process_frame B s frame (payload_of pb st) (my_node_id st) False st)
      | ReadLegacy opcode key_len pb \<Rightarrow>
          release pb (process_legacy_request B s opcode key_len
            (map_option (\<lambda>i. payload_read i (sv_payload st)) pb) st)
      | ReadFail _ \<Rightarrow> Done (s, st))"

lemma read_payload_measure:
  assumes "read_payload tot ret s st = Done (r, s', st')"
  shows "rx_measure (s_rx s') \<le> rx_measure (s_rx s)"
  using assms recv_full_measure(1)
  by (fastforce simp: read_payload_def Let_def split: prod.splits option.splits if_splits)

lemma read_frame_measure:
  assumes "read_frame s st = Done (r, s', st')" and "\<And>rc. r \<noteq> ReadFail rc"
  shows "rx_measure (s_rx s') < rx_measure (s_rx s)"
proof -
  from assms obtain prefix s1 where r1: "recv_full 4 s = Some ((4, prefix), s1)"
    by (auto simp: read_frame_def Let_def split: prod.splits option.splits if_splits)
  then have "rx_measure (s_rx s1) < rx_measure (s_rx s)"
    using recv_full_measure(1,3) [OF r1] by simp
  moreover have "rx_measure (s_rx s') \<le> rx_measure (s_rx s1)"
    using assms r1 read_payload_measure recv_full_measure(1)
    by (auto simp: read_frame_def Let_def dest!: read_payload_measure recv_full_measure(1)
        split: prod.splits option.splits if_splits)
  ultimately show ?thesis by simp
qed

lemma send_response_rx: "send_response r s = Done (rc, s') \<Longrightarrow> s_rx s' = s_rx s"
  by (auto simp: send_response_def dest!: send_full_rx split: prod.splits option.splits if_splits)

lemma send_legacy_rx: "send_legacy_response s status len p = Done s' \<Longrightarrow> s_rx s' = s_rx s"
  by (auto simp: send_legacy_response_def dest!: send_full_rx split: option.splits if_splits)

lemma process_frame_rx:
  "process_frame B s f p n b st = Done (rc, s', st') \<Longrightarrow> s_rx s' = s_rx s"
  by (auto simp: process_frame_def dest!: send_response_rx split: prod.splits run.splits if_splits)

lemma process_legacy_rx:
  "process_legacy_request B s opcode len p st = Done (rc, s', st') \<Longrightarrow> s_rx s' = s_rx s"
  by (auto simp: process_legacy_request_def Let_def next_mem_def dest!: send_legacy_rx
      split: prod.splits run.splits if_splits option.splits db_result.splits)

lemma serve_request_rx:
  assumes "serve_request B r s st = Done (s', st')"
  shows "s_rx s' = s_rx s"
  using assms
  by (auto simp: serve_request_def dest!: process_frame_rx process_legacy_rx
      split: request.splits run.splits prod.splits)

function handle_client :: "'s bdb \<Rightarrow> sock \<Rightarrow> 's server \<Rightarrow> (sock \<times> 's server) run" where
  "handle_client B s st =
     (case read_frame s st of
        Blocked \<Rightarrow> Blocked
      | Fault \<Rightarrow> Fault
      | Done (r, s1, st1) \<Rightarrow>
          (case r of
             ReadFail rc \<Rightarrow> Done (s1\<lparr>s_open := False\<rparr>, st1)
           | _ \<Rightarrow>
             (case serve_request B r s1 st1 of
                Done (s2, st2) \<Rightarrow> handle_client B s2 st2
              | Blocked \<Rightarrow> Blocked
              | Fault \<Rightarrow> Fault)))"
  by pat_completeness auto
termination
  by (relation "measure (\<lambda>(B, s, st). rx_measure (s_rx s))")
    (auto dest!: serve_request_rx read_frame_measure)

declare handle_client.simps [simp del]

section \<open>Payload buffers\<close>

text \<open>The operations with the readings of the clock and of the allocator written out.\<close>

definition sv_after :: "nat \<Rightarrow> nat \<Rightarrow> 's server \<Rightarrow> 's server" where
  "sv_after ticks mems st =
     st\<lparr>sv_clock := (\<lambda>n. sv_clock st (n + ticks)), sv_mem := (\<lambda>n. sv_mem st (n + mems))\<rparr>"

lemma sv_after_id: "sv_after 0 0 st = st"
  by (simp add: sv_after_def)

lemma sv_after_select [simp]:
  "sv_payload (sv_after i j st) = sv_payload st" "sv_dbp (sv_after i j st) = sv_dbp st"
  "my_node_id (sv_after i j st) = my_node_id st" "sv_control (sv_after i j st) = sv_control st"
  "sv_after i j (st\<lparr>sv_payload := p\<rparr>) = (sv_after i j st)\<lparr>sv_payload := p\<rparr>"
  by (simp_all add: sv_after_def)

definition micros_at :: "nat \<Rightarrow> 's server \<Rightarrow> u64" where
  "micros_at n st = timespec_micros (sv_clock st n)"

lemma process_get_eq:
  "process_get B key st =
     (let st1 = (sv_after 0 1 st)\<lparr>cache_request_count := cache_request_count st + 1\<rparr> in
      case db_get_with_meta B (sv_mem st 0) (Some key) True (sv_dbp st) of
        (DMMR_DB_APPLIED, Some got) \<Rightarrow>
          ((DMMR_PROTO_STATUS_OK, got_value got, of_nat (got_value_len got)),
           st1\<lparr>cache_hit_count := cache_hit_count st + 1\<rparr>)
      | (DMMR_DB_NOT_FOUND, _) \<Rightarrow>
          ((DMMR_PROTO_STATUS_NOT_FOUND, None, 0), st1\<lparr>cache_miss_count := cache_miss_count st + 1\<rparr>)
      | _ \<Rightarrow> ((DMMR_PROTO_STATUS_ERROR, None, 0), st1\<lparr>cache_miss_count := cache_miss_count st + 1\<rparr>))"
  by (simp add: process_get_def next_mem_def sv_after_def Let_def split: prod.split db_result.split option.split)

lemma process_set_eq:
  "process_set B key val value_len ts n False st =
     (let ts_use = micros_at 0 st; expire_at = micros_at 1 st + TTL_DEFAULT;
          st1 = (sv_after 2 1 st)\<lparr>cache_request_count := cache_request_count st + 1,
            cache_set_count := cache_set_count st + 1\<rparr> in
      case db_set_with_meta B (sv_mem st 0) (Some key) ts_use (my_node_id st) val value_len expire_at (sv_dbp st) of
        (rc, dbp') \<Rightarrow>
          if rc = DMMR_DB_APPLIED then
            ((DMMR_PROTO_STATUS_OK, None, 0),
             (sv_after 0 1 st1)\<lparr>sv_dbp := dbp', sv_control := enqueue_broadcast (sv_mem st 1) key val value_len
                ts_use (my_node_id st) expire_at FLAG_NONE (sv_control st)\<rparr>)
          else ((DMMR_PROTO_STATUS_ERROR, None, 0), st1\<lparr>sv_dbp := dbp'\<rparr>))"
  by (simp add: process_set_def now_micros_def next_mem_def sv_after_def micros_at_def Let_def numeral_2_eq_2
      split: prod.split)

lemma process_del_eq:
  "process_del B key False st =
     (let st1 = (sv_after 2 2 st)\<lparr>cache_request_count := cache_request_count st + 1,
            cache_del_count := cache_del_count st + 1\<rparr> in
      case db_del_key B (sv_mem st 0) (micros_at 0 st) (my_node_id st) (Some key) (sv_dbp st) of
        (rc, dbp') \<Rightarrow>
          ((if rc = DMMR_DB_APPLIED then DMMR_PROTO_STATUS_OK else DMMR_PROTO_STATUS_ERROR, None, 0),
           st1\<lparr>sv_dbp := dbp', sv_control := enqueue_broadcast (sv_mem st 1) key None 0
              (micros_at 1 st) (my_node_id st) 0 FLAG_TOMBSTONE (sv_control st)\<rparr>))"
  by (simp add: process_del_def now_micros_def next_mem_def sv_after_def micros_at_def Let_def numeral_2_eq_2
      split: prod.split)

text \<open>Processing a request neither reads nor changes the payload pool.\<close>

lemma process_get_payload:
  "process_get B key (st\<lparr>sv_payload := p\<rparr>) = apsnd (sv_payload_update (\<lambda>_. p)) (process_get B key st)"
  by (simp add: process_get_eq Let_def split: prod.split db_result.split option.split)

lemma micros_at_payload [simp]: "micros_at n (st\<lparr>sv_payload := p\<rparr>) = micros_at n st"
  by (simp add: micros_at_def)

lemma process_set_payload:
  "process_set B key val value_len ts n False (st\<lparr>sv_payload := p\<rparr>)
     = apsnd (sv_payload_update (\<lambda>_. p)) (process_set B key val value_len ts n False st)"
  by (simp add: process_set_eq Let_def sv_after_def split: prod.split)

lemma process_del_payload:
  "process_del B key False (st\<lparr>sv_payload := p\<rparr>) = apsnd (sv_payload_update (\<lambda>_. p)) (process_del B key False st)"
  by (simp add: process_del_eq Let_def split: prod.split)

lemma process_op_payload:
  "process_op B f pl n False (st\<lparr>sv_payload := p\<rparr>) = apsnd (sv_payload_update (\<lambda>_. p)) (process_op B f pl n False st)"
  by (simp add: process_op_def Let_def process_get_payload process_set_payload process_del_payload)

lemma process_op_keeps_payload: "sv_payload (snd (process_op B f pl n False st)) = sv_payload st"
proof -
  have "process_op B f pl n False st
      = apsnd (sv_payload_update (\<lambda>_. sv_payload st)) (process_op B f pl n False st)"
    using process_op_payload [where p = "sv_payload st" and st = st] by simp
  from arg_cong [OF this, of "\<lambda>x. sv_payload (snd x)"] show ?thesis by simp
qed

lemma process_frame_payload:
  assumes "process_frame B s f p n False st = Done (rc, s', st')"
  shows "sv_payload st' = sv_payload st"
proof -
  from assms have "st' = st \<or> st' = snd (process_op B f p n False st)"
    by (auto simp: process_frame_def split: prod.splits run.splits if_splits)
  then show ?thesis using process_op_keeps_payload by metis
qed

lemma process_legacy_payload:
  "process_legacy_request B s opcode len p st = Done (rc, s', st') \<Longrightarrow> sv_payload st' = sv_payload st"
  by (auto simp: process_legacy_request_def Let_def next_mem_def
      split: prod.splits run.splits if_splits option.splits db_result.splits)

text \<open>The buffers lent while a request is being served.\<close>

fun request_lent :: "request \<Rightarrow> nat set" where
  "request_lent (ReadFrame f pb) = set_option pb"
| "request_lent (ReadLegacy opcode len pb) = set_option pb"
| "request_lent (ReadFail rc) = {}"

lemma read_payload_eq:
  "read_payload tot ret s st =
     (case get_payload_buf (sv_mem st 0) (if sv_mem st 1 then Some (sv_junk st) else None) tot (sv_payload st) of
        (None, p) \<Rightarrow> Done (ReadFail (- 4), s, st\<lparr>sv_mem := (\<lambda>n. sv_mem st (Suc (Suc n))), sv_payload := p\<rparr>)
      | (Some pbuf, p) \<Rightarrow>
          (case recv_full tot s of
             None \<Rightarrow> Blocked
           | Some ((n, bs), s1) \<Rightarrow>
               if n \<noteq> int tot
               then Done (ReadFail (- 5), s1, st\<lparr>sv_mem := (\<lambda>n. sv_mem st (Suc (Suc n))),
                 sv_payload := release_payload_buf (Some pbuf) (payload_write pbuf bs p)\<rparr>)
               else Done (ret (Some pbuf), s1, st\<lparr>sv_mem := (\<lambda>n. sv_mem st (Suc (Suc n))),
                 sv_payload := payload_write pbuf bs p\<rparr>)))"
  by (simp add: read_payload_def next_mem_def Let_def cong: if_cong option.case_cong prod.case_cong)

lemma read_payload_lent:
  assumes "pp_inv (sv_payload st) out" and "read_payload tot ret s st = Done (r, s', st')"
    and "\<And>pb. request_lent (ret pb) = set_option pb"
  shows "pp_inv (sv_payload st') (out \<union> request_lent r) \<and> out \<inter> request_lent r = {}"
proof -
  define re where "re = (if sv_mem st 1 then Some (sv_junk st) else None)"
  from assms(1) show ?thesis
  proof (cases rule: get_payload_buf_cases [where mem_ok = "sv_mem st 0" and realloc = re and required = tot])
    case (refused p')
    with assms(2) show ?thesis
      by (auto simp: read_payload_eq re_def)
  next
    case (served i p' d)
    then have get: "get_payload_buf (sv_mem st 0) re tot (sv_payload st) = (Some i, p')" by simp
    from assms(2) obtain n bs s1 where rx: "recv_full tot s = Some ((n, bs), s1)"
      and r: "(r, s', sv_payload st') = (if n \<noteq> int tot
          then (ReadFail (- 5), s1, release_payload_buf (Some i) (payload_write i bs p'))
          else (ret (Some i), s1, payload_write i bs p'))"
      using get by (fastforce simp: read_payload_eq re_def split: option.splits if_splits)
    have w: "pp_inv (payload_write i bs p') (insert i out)"
      using payload_write_inv(1) [OF served(3)] recv_full_measure(2) [OF rx] served(5) by simp
    with release_inv [OF w, of i] served(2) r assms(3) show ?thesis
      by (auto split: if_splits)
  qed
qed

lemma read_frame_lent:
  assumes "pp_inv (sv_payload st) out" and "read_frame s st = Done (r, s', st')"
  shows "pp_inv (sv_payload st') (out \<union> request_lent r) \<and> out \<inter> request_lent r = {}"
  using assms
  by (auto simp: read_frame_def Let_def dest!: read_payload_lent [OF assms(1)]
      split: option.splits prod.splits if_splits)

lemma serve_request_lent:
  assumes "pp_inv (sv_payload st) (out \<union> request_lent r)" and "out \<inter> request_lent r = {}"
    and "serve_request B r s st = Done (s', st')"
  shows "pp_inv (sv_payload st') out"
proof -
  from assms(3) consider (none) "request_lent r = {}" "sv_payload st' = sv_payload st"
    | (one) i where "request_lent r = {i}" "sv_payload st' = release_payload_buf (Some i) (sv_payload st)"
    by (cases r; cases "request_lent r = {}")
      (auto simp: serve_request_def release_payload_buf_def dest!: process_frame_payload process_legacy_payload
        split: run.splits prod.splits option.splits)
  then show ?thesis
  proof cases
    case one
    with assms(2) have "out \<union> request_lent r - {i} = out" by auto
    with one release_inv [OF assms(1), of i] show ?thesis by simp
  qed (use assms(1) in simp)
qed

lemma handle_client_payload:
  assumes "handle_client B s st = Done (s', st')" and "pp_inv (sv_payload st) out"
  shows "pp_inv (sv_payload st') out \<and> \<not> s_open s'"
  using assms
proof (induction B s st rule: handle_client.induct)
  case (1 B s st)
  obtain r s1 st1 where rd: "read_frame s st = Done (r, s1, st1)"
    using "1.prems"(1) by (auto simp: handle_client.simps [of B s st] split: run.splits)
  note lent = read_frame_lent [OF "1.prems"(2) rd]
  show ?case
  proof (cases "\<exists>rc. r = ReadFail rc")
    case True
    with rd lent "1.prems" show ?thesis by (auto simp: handle_client.simps [of B s st])
  next
    case False
    with rd "1.prems"(1) obtain s2 st2 where sv: "serve_request B r s1 st1 = Done (s2, st2)"
      and rest: "handle_client B s2 st2 = Done (s', st')"
      by (cases r) (auto simp: handle_client.simps [of B s st] split: run.splits)
    have "pp_inv (sv_payload st2) out" using serve_request_lent [OF _ _ sv] lent by blast
    with "1.IH" rd sv rest False show ?thesis by (cases r) auto
  qed
qed

section \<open>A connection of well-formed requests\<close>

definition request_ok :: "dmmr_frame \<Rightarrow> bytes \<Rightarrow> bool" where
  "request_ok f p \<longleftrightarrow> f_magic f = DMMR_MAGIC \<and> f_version f = DMMR_VERSION
     \<and> 0 < unat (f_key_len f) \<and> unat (f_key_len f) \<le> MAX_KEY_LEN \<and> unat (f_value_len f) \<le> MAX_VALUE_LEN
     \<and> length p = unat (f_key_len f) + unat (f_value_len f)"

definition request_wire :: "dmmr_frame \<times> bytes \<Rightarrow> bytes" where
  "request_wire r = frame_wire (fst r) @ snd r"

definition reply_wire :: "reply \<Rightarrow> bytes" where
  "reply_wire r = (case r of (status, pl, len) \<Rightarrow>
     be_bytes 2 status @ be_bytes 4 len @ [0, 0] @
     (case pl of None \<Rightarrow> [] | Some p \<Rightarrow> take (unat len) p))"

text \<open>The requests of a connection served one after the other.\<close>

fun serve_all :: "'s bdb \<Rightarrow> (dmmr_frame \<times> bytes) list \<Rightarrow> 's server \<Rightarrow> reply list \<times> 's server" where
  "serve_all B [] st = ([], st)"
| "serve_all B ((f, p) # reqs) st =
     (case process_op B f p (my_node_id st) False st of (r, st1) \<Rightarrow>
      case serve_all B reqs st1 of (rs, st2) \<Rightarrow> (r # rs, st2))"

lemma serve_all_payload:
  "serve_all B reqs (st\<lparr>sv_payload := q\<rparr>) = apsnd (sv_payload_update (\<lambda>_. q)) (serve_all B reqs st)"
proof (induction reqs arbitrary: st)
  case (Cons a reqs)
  obtain f p where a: "a = (f, p)" by fastforce
  obtain r st1 where op: "process_op B f p (my_node_id st) False st = (r, st1)" by fastforce
  from Cons.IH [of st1] process_op_payload [of B f p "my_node_id st" q st] show ?case
    by (simp add: a op split: prod.split)
qed simp

lemma process_op_mem:
  assumes "process_op B f p n False st = (r, st1)" and "sv_mem st = (\<lambda>_. True)"
  shows "sv_mem st1 = (\<lambda>_. True)"
  using assms
  by (auto simp: process_op_def Let_def process_get_eq process_set_eq process_del_eq sv_after_def
      split: if_splits prod.splits db_result.splits option.splits)

lemma send_response_live:
  assumes "tx_live (length (reply_wire r) + k) (s_tx s)"
  shows "\<exists>rc evs eintr. send_response r s
      = Done (rc, s\<lparr>s_tx := evs, s_errno_eintr := eintr, s_out := s_out s @ reply_wire r\<rparr>) \<and> tx_live k evs"
proof -
  obtain status pl len where r: "r = (status, pl, len)" by (cases r)
  define hd where "hd = response_header status len"
  define body where "body = (case pl of None \<Rightarrow> [] | Some p \<Rightarrow> take (unat len) p)"
  have hd: "hd = be_bytes 2 status @ be_bytes 4 len @ [0, 0]"
    by (simp add: hd_def response_header_def codec_simps)
  then have wire: "reply_wire r = hd @ body" and len8: "length hd = 8"
    by (simp_all add: reply_wire_def r body_def split: option.split)
  from assms have "tx_live (length hd + (length body + k)) (s_tx s)" by (simp add: wire add.assoc)
  from send_full_live [OF this] obtain evs1 e1 where
    s1: "send_full hd s = Some (8, s\<lparr>s_tx := evs1, s_errno_eintr := e1, s_out := s_out s @ hd\<rparr>)"
    and live: "tx_live (length body + k) evs1" by (auto simp: len8)
  note step = send_response_def r prod.case hd_def [symmetric] s1
  show ?thesis
  proof (cases pl)
    case None
    then have "body = []" by (simp add: body_def)
    with None live show ?thesis
      unfolding wire by (intro exI [of _ 0] exI [of _ evs1] exI [of _ e1]) (simp add: step)
  next
    case (Some p)
    then have body: "body = take (unat len) p" by (simp add: body_def)
    show ?thesis
    proof (cases "len > 0")
      case False
      then have "body = []" by (simp add: body word_neq_0_conv [symmetric])
      with Some False live show ?thesis
        unfolding wire by (intro exI [of _ 0] exI [of _ evs1] exI [of _ e1]) (simp add: step)
    next
      case True
      let ?s1 = "s\<lparr>s_tx := evs1, s_errno_eintr := e1, s_out := s_out s @ hd\<rparr>"
      have "tx_live (length body + k) (s_tx ?s1)" using live by simp
      from send_full_live [OF this] obtain evs2 e2 where s2: "send_full body ?s1 = Some (int (length body),
            s\<lparr>s_tx := evs2, s_errno_eintr := e2, s_out := s_out s @ hd @ body\<rparr>)" "tx_live k evs2"
        by auto
      with True Some show ?thesis
        unfolding wire
        by (intro exI [of _ "if int (length body) \<noteq> int (unat len) then - 1 else 0"] exI [of _ evs2] exI [of _ e2])
          (simp add: step body [symmetric])
    qed
  qed
qed

lemma read_payload_live:
  assumes "length p = tot" and "0 < tot" and "tot \<le> MAX_KEY_LEN + MAX_VALUE_LEN"
    and "stream_of (s_rx s) = p @ rest" and "sv_mem st = (\<lambda>_. True)" and "pp_inv (sv_payload st) out"
  shows "\<exists>evs i q. read_payload tot ret s st = Done (ret (Some i), s\<lparr>s_rx := evs\<rparr>, st\<lparr>sv_payload := q\<rparr>)
     \<and> stream_of evs = rest \<and> stream_end evs = stream_end (s_rx s) \<and> take (length p) (payload_read i q) = p"
  using assms(6)
proof (cases rule: get_payload_buf_cases [where mem_ok = True and realloc = "Some (sv_junk st)" and required = tot])
  case (served i q d)
  obtain evs where evs: "recv_full tot s = Some ((int tot, p), s\<lparr>s_rx := evs\<rparr>)" "stream_of evs = rest"
    "stream_end evs = stream_end (s_rx s)"
    using recv_full_enough [of tot s] assms(1,4) by auto
  have mem: "sv_mem_update (\<lambda>_ _. True) st = st" using assms(5) by simp
  have "take (length p) (payload_read i (payload_write i p q)) = p"
    using payload_write_inv(2) [OF served(3), of i p] served(5) assms(1) by simp
  with served(1) evs assms(5) mem show ?thesis
    by (intro exI [of _ evs] exI [of _ i] exI [of _ "payload_write i p q"]) (simp add: read_payload_eq)
qed (use assms in auto)

lemma frame_wire_prefix:
  "sub 0 2 (take 4 (frame_wire f)) = be_bytes 2 (f_magic f)"
  "sub 2 2 (take 4 (frame_wire f)) = be_bytes 2 (f_version f)"
  by (simp_all add: frame_wire_def sub_def)

lemma read_frame_request:
  assumes "request_ok f p" and "stream_of (s_rx s) = frame_wire f @ p @ rest"
    and "sv_mem st = (\<lambda>_. True)" and "pp_inv (sv_payload st) out"
  shows "\<exists>evs i q. read_frame s st = Done (ReadFrame f (Some i), s\<lparr>s_rx := evs\<rparr>, st\<lparr>sv_payload := q\<rparr>)
     \<and> stream_of evs = rest \<and> stream_end evs = stream_end (s_rx s) \<and> take (length p) (payload_read i q) = p"
proof -
  let ?w = "frame_wire f"
  have lw: "length ?w = 24" by (simp add: frame_size_def)
  obtain evs1 where r1: "recv_full 4 s = Some ((4, take 4 ?w), s\<lparr>s_rx := evs1\<rparr>)"
    and st1: "stream_of evs1 = drop 4 ?w @ p @ rest" "stream_end evs1 = stream_end (s_rx s)"
    using recv_full_enough [of 4 s] assms(2) lw by auto
  obtain evs2 where r2: "recv_full 20 (s\<lparr>s_rx := evs1\<rparr>) = Some ((20, drop 4 ?w), s\<lparr>s_rx := evs2\<rparr>)"
    and st2: "stream_of evs2 = p @ rest" "stream_end evs2 = stream_end (s_rx s)"
    using recv_full_enough [of 20 "s\<lparr>s_rx := evs1\<rparr>"] st1 by (auto simp: frame_size_def)
  have head: "ntohs (of_le (sub 0 2 (take 4 ?w))) = DMMR_MAGIC" "ntohs (of_le (sub 2 2 (take 4 ?w))) = DMMR_VERSION"
    using assms(1) by (simp_all add: frame_wire_prefix codec_simps request_ok_def)
  have f: "frame_ntoh (frame_of_mem (take 4 ?w @ drop 4 ?w)) = f" by (simp add: frame_of_mem_wire)
  have tot: "unat (f_key_len f + f_value_len f) = length p"
    using assms(1) by (simp add: request_ok_def unat_word_ariths const_defs)
  have lp: "0 < length p" "length p \<le> MAX_KEY_LEN + MAX_VALUE_LEN" using assms(1) by (simp_all add: request_ok_def)
  obtain evs i q where "read_payload (length p) (ReadFrame f) (s\<lparr>s_rx := evs2\<rparr>) st
      = Done (ReadFrame f (Some i), s\<lparr>s_rx := evs\<rparr>, st\<lparr>sv_payload := q\<rparr>)"
    "stream_of evs = rest" "stream_end evs = stream_end (s_rx s)" "take (length p) (payload_read i q) = p"
    using read_payload_live [OF refl lp, of "s\<lparr>s_rx := evs2\<rparr>" rest st out "ReadFrame f"] assms(3,4) st2 by auto
  moreover from this(1) have "read_frame s st = Done (ReadFrame f (Some i), s\<lparr>s_rx := evs\<rparr>, st\<lparr>sv_payload := q\<rparr>)"
    using assms(1) r1 r2 head f tot
    by (simp add: read_frame_def Let_def frame_size_def request_ok_def)
  ultimately show ?thesis by blast
qed

lemma process_op_take:
  assumes "request_ok f p" and "take (length p) d = p"
  shows "process_op B f d n b st = process_op B f p n b st"
proof -
  have "take (unat (f_key_len f)) d = take (unat (f_key_len f)) p"
    and "sub (unat (f_key_len f)) (unat (f_value_len f)) d = sub (unat (f_key_len f)) (unat (f_value_len f)) p"
    using assms by (simp_all add: request_ok_def sub_def) (metis le_add1 min.absorb1 take_take, metis add.commute drop_take take_drop take_take min.idem)
  then show ?thesis unfolding process_op_def Let_def by simp
qed

lemma serve_request_live:
  assumes "request_ok f p" and "take (length p) (payload_read i (sv_payload st)) = p"
    and "process_op B f p (my_node_id st) False st = (r, st1)"
    and "tx_live (length (reply_wire r) + k) (s_tx s)"
  shows "\<exists>evs eintr q. serve_request B (ReadFrame f (Some i)) s st
      = Done (s\<lparr>s_tx := evs, s_errno_eintr := eintr, s_out := s_out s @ reply_wire r\<rparr>, st1\<lparr>sv_payload := q\<rparr>)
      \<and> tx_live k evs"
proof -
  obtain rc evs eintr where "send_response r s
      = Done (rc, s\<lparr>s_tx := evs, s_errno_eintr := eintr, s_out := s_out s @ reply_wire r\<rparr>)" "tx_live k evs"
    using send_response_live [OF assms(4)] by blast
  moreover have "f_key_len f \<noteq> 0" "\<not> MAX_KEY_LEN < unat (f_key_len f)" "\<not> MAX_VALUE_LEN < unat (f_value_len f)"
    using assms(1) by (auto simp: request_ok_def)
  ultimately show ?thesis
    using process_op_take [OF assms(1,2), of B "my_node_id st" False st] assms(3)
    by (auto simp: serve_request_def payload_of_def process_frame_def intro!: exI)
qed

lemma handle_client_eof:
  assumes "stream_of (s_rx s) = []" and "stream_end (s_rx s) \<noteq> EndBlock"
  shows "\<exists>evs. handle_client B s st = Done (s\<lparr>s_rx := evs, s_open := False\<rparr>, st)"
proof -
  from recv_full_outcome [of 4 s] assms obtain n b s1 where r: "recv_full 4 s = Some ((n, b), s1)" "n \<noteq> 4"
    by (auto simp: recv_outcome_def split: rx_end.splits)
  then obtain evs where "s1 = s\<lparr>s_rx := evs\<rparr>" by (auto simp: recv_full_def split: option.splits)
  with r show ?thesis by (intro exI [of _ evs]) (simp add: handle_client.simps [of B s st] read_frame_def)
qed

lemma handle_client_step:
  assumes "read_frame s st = Done (ReadFrame f pb, s1, st1)"
    and "serve_request B (ReadFrame f pb) s1 st1 = Done (s2, st2)"
  shows "handle_client B s st = handle_client B s2 st2"
  using assms by (simp add: handle_client.simps [of B s st])

lemma handle_client_serves:
  assumes "\<forall>(f, p) \<in> set reqs. request_ok f p"
    and "stream_of (s_rx s) = concat (map request_wire reqs)" and "stream_end (s_rx s) \<noteq> EndBlock"
    and "sv_mem st = (\<lambda>_. True)" and "pp_inv (sv_payload st) out"
    and "tx_live (length (concat (map reply_wire (fst (serve_all B reqs st))))) (s_tx s)"
  shows "\<exists>s' st'. handle_client B s st = Done (s', st') \<and> \<not> s_open s'
     \<and> s_out s' = s_out s @ concat (map reply_wire (fst (serve_all B reqs st)))
     \<and> sv_dbp st' = sv_dbp (snd (serve_all B reqs st))
     \<and> sv_control st' = sv_control (snd (serve_all B reqs st))"
  using assms
proof (induction reqs arbitrary: s st)
  case Nil
  then obtain evs where "handle_client B s st = Done (s\<lparr>s_rx := evs, s_open := False\<rparr>, st)"
    using handle_client_eof [of s B st] by auto
  then show ?case by simp
next
  case (Cons a reqs)
  obtain f p where a: "a = (f, p)" by fastforce
  obtain r st1 where op: "process_op B f p (my_node_id st) False st = (r, st1)" by fastforce
  have ok: "request_ok f p" using Cons.prems(1) a by simp
  obtain evs i q where rd: "read_frame s st = Done (ReadFrame f (Some i), s\<lparr>s_rx := evs\<rparr>, st\<lparr>sv_payload := q\<rparr>)"
    and evs: "stream_of evs = concat (map request_wire reqs)" "stream_end evs = stream_end (s_rx s)"
    and pl: "take (length p) (payload_read i q) = p"
    using read_frame_request [OF ok _ Cons.prems(4,5), of s "concat (map request_wire reqs)"] Cons.prems(2)
    by (auto simp: a request_wire_def [of "(f, p)"])
  let ?rs = "concat (map reply_wire (fst (serve_all B reqs st1)))"
  have "process_op B f p (my_node_id st) False (st\<lparr>sv_payload := q\<rparr>) = (r, st1\<lparr>sv_payload := q\<rparr>)"
    using op by (simp add: process_op_payload)
  moreover have "tx_live (length (reply_wire r) + length ?rs) (s_tx (s\<lparr>s_rx := evs\<rparr>))"
    using Cons.prems(6) by (simp add: a op split: prod.splits)
  ultimately obtain tx eintr q1 where sv: "serve_request B (ReadFrame f (Some i)) (s\<lparr>s_rx := evs\<rparr>) (st\<lparr>sv_payload := q\<rparr>)
      = Done (s\<lparr>s_rx := evs, s_tx := tx, s_errno_eintr := eintr, s_out := s_out s @ reply_wire r\<rparr>,
          st1\<lparr>sv_payload := q1\<rparr>)" and live: "tx_live (length ?rs) tx"
    using serve_request_live [OF ok, of i "st\<lparr>sv_payload := q\<rparr>" B r "st1\<lparr>sv_payload := q\<rparr>"] pl by fastforce
  have inv: "pp_inv (sv_payload (st1\<lparr>sv_payload := q1\<rparr>)) out"
    using serve_request_lent [OF _ _ sv] read_frame_lent [OF Cons.prems(5) rd] by blast
  have mem: "sv_mem (st1\<lparr>sv_payload := q1\<rparr>) = (\<lambda>_. True)" using process_op_mem [OF op Cons.prems(4)] by simp
  let ?s1 = "s\<lparr>s_rx := evs, s_tx := tx, s_errno_eintr := eintr, s_out := s_out s @ reply_wire r\<rparr>"
  have "fst (serve_all B reqs (st1\<lparr>sv_payload := q1\<rparr>)) = fst (serve_all B reqs st1)"
    "sv_dbp (snd (serve_all B reqs (st1\<lparr>sv_payload := q1\<rparr>))) = sv_dbp (snd (serve_all B reqs st1))"
    "sv_control (snd (serve_all B reqs (st1\<lparr>sv_payload := q1\<rparr>))) = sv_control (snd (serve_all B reqs st1))"
    by (simp_all add: serve_all_payload)
  then show ?case
    using Cons.IH [of ?s1 "st1\<lparr>sv_payload := q1\<rparr>"] Cons.prems(1,3) evs mem inv live
      handle_client_step [OF rd sv] by (simp add: a op split: prod.splits)
qed

section \<open>Properties\<close>

text \<open>
  C19: payload buffers of a connection.  Whatever a client sends, once \<open>handle_client\<close> returns, the
  connection is closed and exactly the payload buffers lent before the call are lent: every error
  path of \<open>read_frame\<close> and every kind of request gives its buffer back.
\<close>

theorem handle_client_returns_buffers:
  assumes "handle_client B s st = Done (s', st')" and "pp_inv (sv_payload st) out"
  shows "pp_inv (sv_payload st') out \<and> \<not> s_open s'"
  using handle_client_payload [OF assms] .

text \<open>
  C12: request framing.  A client that sends well-formed requests back to back, cut into
  segments in any way, and then closes is served to the end: \<open>handle_client\<close> returns, the requests
  took effect one after the other in the order sent, and what the client receives is exactly one
  reply per request, in the same order.
\<close>

theorem handle_client_pipeline:
  assumes "\<forall>(f, p) \<in> set reqs. request_ok f p"
    and "stream_of (s_rx s) = concat (map request_wire reqs)" and "stream_end (s_rx s) \<noteq> EndBlock"
    and "sv_mem st = (\<lambda>_. True)" and "pp_inv (sv_payload st) out"
    and "tx_live (length (concat (map reply_wire (fst (serve_all B reqs st))))) (s_tx s)"
  shows "\<exists>s' st'. handle_client B s st = Done (s', st') \<and> \<not> s_open s'
     \<and> s_out s' = s_out s @ concat (map reply_wire (fst (serve_all B reqs st)))
     \<and> sv_dbp st' = sv_dbp (snd (serve_all B reqs st))
     \<and> sv_control st' = sv_control (snd (serve_all B reqs st))"
  using assms by (rule handle_client_serves)

definition client_frame :: "u16 \<Rightarrow> bytes \<Rightarrow> bytes \<Rightarrow> dmmr_frame" where
  "client_frame opcode k v = \<lparr>f_magic = DMMR_MAGIC, f_version = DMMR_VERSION, f_opcode = opcode,
     f_flags = FLAG_NONE, f_key_len = of_nat (length k), f_value_len = of_nat (length v), f_timestamp = 0\<rparr>"

lemma client_request_ok:
  assumes "key_ok k" and "length v \<le> MAX_VALUE_LEN"
  shows "request_ok (client_frame opcode k v) (k @ v)"
    and "unat (f_key_len (client_frame opcode k v)) = length k"
    and "unat (f_value_len (client_frame opcode k v)) = length v"
  using assms by (auto simp: request_ok_def client_frame_def key_ok_def const_defs unsigned_of_nat take_bit_eq_mod)

definition demo_server :: "(bytes \<rightharpoonup> bytes) server" where
  "demo_server = \<lparr>sv_clock = (\<lambda>n. (of_nat n, 0)), sv_mem = (\<lambda>_. True), sv_junk = (\<lambda>_. 0),
     sv_dbp = Some Map.empty, my_node_id = 7, cache_request_count = 0, cache_hit_count = 0,
     cache_miss_count = 0, cache_set_count = 0, cache_del_count = 0, sv_payload = demo_payload,
     sv_control = \<lparr>cq_pool = demo_pool, cq_head = [], cq_size = 0\<rparr>\<rparr>"

definition demo_reqs :: "(dmmr_frame \<times> bytes) list" where
  "demo_reqs = [(client_frame OP_SET (cstr ''k'') (cstr ''v''), cstr ''k'' @ cstr ''v''),
     (client_frame OP_GET (cstr ''k'') [], cstr ''k'' @ [])]"

definition demo_conn :: sock where
  "demo_conn = \<lparr>s_rx = [RxIntr, RxData (concat (map request_wire demo_reqs)), RxEof],
     s_tx = replicate (length (concat (map reply_wire (fst (serve_all map_bdb demo_reqs demo_server))))) (TxTake 1),
     s_errno_eintr = False, s_out = [], s_open = True\<rparr>"

lemma demo_conn_ok:
  "\<forall>(f, p) \<in> set demo_reqs. request_ok f p"
  "stream_of (s_rx demo_conn) = concat (map request_wire demo_reqs)" "stream_end (s_rx demo_conn) = EndEof"
  "sv_mem demo_server = (\<lambda>_. True)" "pp_inv (sv_payload demo_server) {}" "s_out demo_conn = []"
  "tx_live (length (concat (map reply_wire (fst (serve_all map_bdb demo_reqs demo_server))))) (s_tx demo_conn)"
proof -
  have "key_ok (cstr ''k'')" "length (cstr ''v'') \<le> MAX_VALUE_LEN" by (simp_all add: key_ok_def const_defs)
  then show "\<forall>(f, p) \<in> set demo_reqs. request_ok f p"
    using client_request_ok(1) [of "cstr ''k''" "cstr ''v''" OP_SET]
      client_request_ok(1) [of "cstr ''k''" "[]" OP_GET] by (simp add: demo_reqs_def)
  have "request_wire x \<noteq> []" for x
    using length_frame_wire [of "fst x"] by (auto simp: request_wire_def frame_size_def simp del: length_frame_wire)
  then have ne: "concat (map request_wire demo_reqs) \<noteq> []" by (simp add: demo_reqs_def)
  then show "stream_of (s_rx demo_conn) = concat (map request_wire demo_reqs)"
    unfolding demo_conn_def by (simp del: concat_eq_Nil_conv)
  show "stream_end (s_rx demo_conn) = EndEof" using ne unfolding demo_conn_def by (simp del: concat_eq_Nil_conv)
  show "tx_live (length (concat (map reply_wire (fst (serve_all map_bdb demo_reqs demo_server))))) (s_tx demo_conn)"
    by (simp add: demo_conn_def tx_live_def)
qed (simp_all add: demo_server_def demo_payload_inv demo_conn_def)

theorem handle_client_pipeline_witness:
  "\<exists>s' st'. handle_client map_bdb demo_conn demo_server = Done (s', st')
     \<and> s_out s' = concat (map reply_wire (fst (serve_all map_bdb demo_reqs demo_server)))"
  using handle_client_pipeline [OF demo_conn_ok(1,2) _ demo_conn_ok(4,5,7)] demo_conn_ok(3,6) by auto

definition demo_eof :: sock where
  "demo_eof = \<lparr>s_rx = [RxData [1, 2], RxEof], s_tx = [], s_errno_eintr = False, s_out = [], s_open = True\<rparr>"

lemma be_bytes_nonempty: "0 < n \<Longrightarrow> be_bytes n w \<noteq> []"
  using length_be_bytes [of n w] by (metis length_0_conv not_gr_zero)

text \<open>Two requests are received into payload buffers and answered; afterwards no buffer is lent.\<close>

theorem handle_client_returns_buffers_witness:
  "\<exists>s' st'. handle_client map_bdb demo_conn demo_server = Done (s', st')
     \<and> s_out s' = concat (map reply_wire (fst (serve_all map_bdb demo_reqs demo_server))) \<and> s_out s' \<noteq> []
     \<and> pp_inv (sv_payload st') {} \<and> \<not> s_open s'"
proof -
  from handle_client_serves [OF demo_conn_ok(1,2) _ demo_conn_ok(4,5,7)] demo_conn_ok(3,6) obtain s' st' where
    run: "handle_client map_bdb demo_conn demo_server = Done (s', st')"
    and out: "s_out s' = concat (map reply_wire (fst (serve_all map_bdb demo_reqs demo_server)))" by auto
  have "s_out s' \<noteq> []" unfolding out by (auto simp: demo_reqs_def reply_wire_def be_bytes_nonempty split: prod.split)
  with handle_client_returns_buffers [OF run demo_conn_ok(5)] run out show ?thesis by blast
qed

end
