(* ===== verification/Dmmr_Peers.thy ===== *)
theory Dmmr_Peers
  imports Dmmr_Cluster_Auth Dmmr_Server
begin

text \<open>
  The list of peers of a node and their outboxes (\<open>dmmr_cluster.c\<close>): adding and refreshing peers, and
  \<open>broadcast_sync\<close>.

  The outside of the process is a \<open>world\<close>: the sequences of what the next calls of the clock, of \<open>time\<close>, of
  the allocator, of the random source and of the resolver return, and of the values the loops read from
  \<open>running\<close>.  A reading a call does not need is left unused.  \<open>time_t\<close> is \<open>int\<close>.  \<open>peers_mutex\<close> is not
  recursive: locking it while this thread holds it never returns, and such a run is \<open>Blocked\<close>.
\<close>

section \<open>The world\<close>

text \<open>An address candidate: whether \<open>socket\<close> succeeds, and the connection if \<open>connect\<close> does.\<close>

type_synonym candidate = "bool \<times> sock option"

type_synonym resolver = "bytes \<Rightarrow> bytes \<Rightarrow> candidate list option"

record world =
  w_clock :: "nat \<Rightarrow> u64 \<times> u64"
  w_time :: "nat \<Rightarrow> int"
  w_mem :: "nat \<Rightarrow> bool"
  w_entropy :: "nat \<Rightarrow> entropy"
  w_running :: "nat \<Rightarrow> bool"
  w_net :: "nat \<Rightarrow> resolver"
  w_cursor :: "nat \<Rightarrow> bool \<times> cur_event list"

definition draw_micros :: "world \<Rightarrow> u64 \<times> world" where
  "draw_micros w = (timespec_micros (w_clock w 0), w\<lparr>w_clock := (\<lambda>n. w_clock w (Suc n))\<rparr>)"

definition draw_time :: "world \<Rightarrow> int \<times> world" where
  "draw_time w = (w_time w 0, w\<lparr>w_time := (\<lambda>n. w_time w (Suc n))\<rparr>)"

definition draw_mem :: "world \<Rightarrow> bool \<times> world" where
  "draw_mem w = (w_mem w 0, w\<lparr>w_mem := (\<lambda>n. w_mem w (Suc n))\<rparr>)"

definition draw_nonce :: "world \<Rightarrow> u64 \<times> world" where
  "draw_nonce w = (generate_nonce (w_entropy w 0), w\<lparr>w_entropy := (\<lambda>n. w_entropy w (Suc n))\<rparr>)"

definition draw_running :: "world \<Rightarrow> bool \<times> world" where
  "draw_running w = (w_running w 0, w\<lparr>w_running := (\<lambda>n. w_running w (Suc n))\<rparr>)"

definition draw_net :: "world \<Rightarrow> resolver \<times> world" where
  "draw_net w = (w_net w 0, w\<lparr>w_net := (\<lambda>n. w_net w (Suc n))\<rparr>)"

definition draw_cursor :: "world \<Rightarrow> (bool \<times> cur_event list) \<times> world" where
  "draw_cursor w = (w_cursor w 0, w\<lparr>w_cursor := (\<lambda>n. w_cursor w (Suc n))\<rparr>)"

section \<open>Peers\<close>

definition DMMR_MAX_DISCOVERED_PEERS :: nat where [const_defs]: "DMMR_MAX_DISCOVERED_PEERS = 128"
definition OUTBOX_MAX_MSG :: int where [const_defs]: "OUTBOX_MAX_MSG = 256"
definition OUTBOX_MSG_TTL :: int where [const_defs]: "OUTBOX_MSG_TTL = 120"
definition PEER_RETRY_BASE :: u32 where [const_defs]: "PEER_RETRY_BASE = 1"
definition PEER_RETRY_MAX :: u32 where [const_defs]: "PEER_RETRY_MAX = 30"
definition PEER_EVICT_TIMEOUT :: int where [const_defs]: "PEER_EVICT_TIMEOUT = 300"
definition PEER_HEALTHCHECK_INTERVAL :: int where [const_defs]: "PEER_HEALTHCHECK_INTERVAL = 15"

record outbox_msg =
  om_opcode :: u16
  om_flags :: u16
  om_key :: bytes
  om_key_len :: u32
  om_value :: "bytes option"
  om_value_len :: u32
  om_timestamp :: u64
  om_node_id :: u64
  om_expire_at :: u64
  om_enqueued_at :: int

record peer_conn =
  pc_addr :: bytes
  pc_port :: u16
  pc_node_id :: u64
  pc_fd :: "sock option"
  pc_outbox :: "outbox_msg list"
  pc_outbox_count :: int
  pc_last_activity :: int
  pc_next_retry :: int
  pc_last_healthcheck :: int
  pc_retry_backoff :: u32
  pc_stale_count :: u32
  pc_active :: bool
  pc_is_seed :: bool
  pc_authenticated :: bool
  pc_auth_expire_at :: u64

record peer_endpoint =
  ep_addr :: bytes
  ep_port :: u16
  ep_node_id :: u64

record 's node =
  nd_peers :: "peer_conn list"
  peers_locked :: bool
  nd_dbp :: "'s option"
  bootstrap_completed :: bool
  nd_world :: world

definition endpoint_is_self :: "cluster_cfg \<Rightarrow> bytes \<Rightarrow> u16 \<Rightarrow> u64 \<Rightarrow> bool" where
  "endpoint_is_self cfg addr port node_id \<longleftrightarrow>
     (node_id \<noteq> 0 \<and> node_id = cfg_node_id cfg) \<or>
     (port = cluster_advertise_port cfg \<and> addr = cluster_advertise_address cfg)"

definition init_peers :: "'s node \<Rightarrow> 's node" where
  "init_peers st = st\<lparr>nd_peers := []\<rparr>"

text \<open>The fields of a peer a repeated announcement changes.\<close>

definition peer_refresh :: "bytes \<Rightarrow> u16 \<Rightarrow> u64 \<Rightarrow> bool \<Rightarrow> int \<Rightarrow> peer_conn \<Rightarrow> peer_conn" where
  "peer_refresh addr port node_id is_seed now peer =
     peer\<lparr>pc_addr := strlcpy_text (DMMR_PEER_ADDR_MAX + 1) addr, pc_port := port,
       pc_node_id := (if node_id \<noteq> 0 then node_id else pc_node_id peer),
       pc_is_seed := (is_seed \<or> pc_is_seed peer), pc_last_activity := now\<rparr>"

definition peer_new :: "bytes \<Rightarrow> u16 \<Rightarrow> u64 \<Rightarrow> bool \<Rightarrow> int \<Rightarrow> peer_conn" where
  "peer_new addr port node_id is_seed now =
     \<lparr>pc_addr = strlcpy_text (DMMR_PEER_ADDR_MAX + 1) addr, pc_port = port, pc_node_id = node_id, pc_fd = None,
      pc_outbox = [], pc_outbox_count = 0, pc_last_activity = now, pc_next_retry = 0, pc_last_healthcheck = 0,
      pc_retry_backoff = PEER_RETRY_BASE, pc_stale_count = 0, pc_active = True, pc_is_seed = is_seed,
      pc_authenticated = False, pc_auth_expire_at = 0\<rparr>"

definition peer_matches :: "bytes \<Rightarrow> u16 \<Rightarrow> u64 \<Rightarrow> peer_conn \<Rightarrow> bool" where
  "peer_matches addr port node_id peer \<longleftrightarrow>
     (node_id \<noteq> 0 \<and> pc_node_id peer = node_id) \<or> (pc_port peer = port \<and> pc_addr peer = addr)"

text \<open>The walk over the list; \<open>None\<close> if no peer matches.\<close>

fun refresh_first :: "bytes \<Rightarrow> u16 \<Rightarrow> u64 \<Rightarrow> bool \<Rightarrow> int \<Rightarrow> peer_conn list \<Rightarrow> peer_conn list option" where
  "refresh_first addr port node_id is_seed now [] = None"
| "refresh_first addr port node_id is_seed now (peer # peers) =
     (if peer_matches addr port node_id peer then Some (peer_refresh addr port node_id is_seed now peer # peers)
      else map_option (Cons peer) (refresh_first addr port node_id is_seed now peers))"

definition add_peer_internal ::
  "cluster_cfg \<Rightarrow> bytes option \<Rightarrow> int \<Rightarrow> u64 \<Rightarrow> bool \<Rightarrow> 's node \<Rightarrow> 's node run" where
  "add_peer_internal cfg addr port node_id is_seed st =
     (case addr of
        None \<Rightarrow> Done st
      | Some a \<Rightarrow>
          if port < 1 \<or> port > 65535 then Done st
          else if length a = 0 \<or> length a > DMMR_PEER_ADDR_MAX \<or> endpoint_is_self cfg a (of_int port) node_id
          then Done st
          else if peers_locked st then Blocked
          else let (now, w1) = draw_time (nd_world st) in
            case refresh_first a (of_int port) node_id is_seed now (nd_peers st) of
              Some peers \<Rightarrow> Done (st\<lparr>nd_peers := peers, nd_world := w1\<rparr>)
            | None \<Rightarrow>
                let (mem_ok, w2) = draw_mem (nd_world st) in
                if \<not> mem_ok then Done (st\<lparr>nd_world := w2\<rparr>)
                else let (now, w3) = draw_time w2 in
                  Done (st\<lparr>nd_peers := nd_peers st @ [peer_new a (of_int port) node_id is_seed now], nd_world := w3\<rparr>))"

definition add_peer_with_node :: "cluster_cfg \<Rightarrow> bytes option \<Rightarrow> int \<Rightarrow> u64 \<Rightarrow> 's node \<Rightarrow> 's node run" where
  "add_peer_with_node cfg addr port node_id st = add_peer_internal cfg addr port node_id False st"

definition add_peer :: "cluster_cfg \<Rightarrow> bytes option \<Rightarrow> int \<Rightarrow> 's node \<Rightarrow> 's node run" where
  "add_peer cfg addr port st = add_peer_internal cfg addr port 0 True st"

definition snapshot_peer_endpoints :: "nat \<Rightarrow> peer_conn list \<Rightarrow> peer_endpoint list" where
  "snapshot_peer_endpoints capacity peers =
     map (\<lambda>p. \<lparr>ep_addr = strlcpy_text (DMMR_PEER_ADDR_MAX + 1) (pc_addr p), ep_port = pc_port p, ep_node_id = pc_node_id p\<rparr>)
       (take capacity peers)"

section \<open>Connecting\<close>

fun try_candidates :: "candidate list \<Rightarrow> sock option" where
  "try_candidates [] = None"
| "try_candidates ((socket_ok, conn) # cs) =
     (if \<not> socket_ok then try_candidates cs
      else case conn of Some s \<Rightarrow> Some s | None \<Rightarrow> try_candidates cs)"

definition connect_endpoint :: "resolver \<Rightarrow> peer_endpoint \<Rightarrow> sock option" where
  "connect_endpoint getaddrinfo endpoint =
     (case getaddrinfo (ep_addr endpoint) (take 5 (dec_digits (unat (ep_port endpoint)))) of
        None \<Rightarrow> None
      | Some results \<Rightarrow> try_candidates results)"

definition connect_endpoint_simple :: "resolver \<Rightarrow> bytes \<Rightarrow> u16 \<Rightarrow> sock option" where
  "connect_endpoint_simple getaddrinfo addr port =
     connect_endpoint getaddrinfo
       \<lparr>ep_addr = strlcpy_text (DMMR_PEER_ADDR_MAX + 1) addr, ep_port = port, ep_node_id = 0\<rparr>"

section \<open>Broadcasting\<close>

definition outbox_push :: "outbox_msg \<Rightarrow> peer_conn \<Rightarrow> peer_conn" where
  "outbox_push msg peer =
     (if pc_outbox_count peer < OUTBOX_MAX_MSG
      then peer\<lparr>pc_outbox := pc_outbox peer @ [msg], pc_outbox_count := pc_outbox_count peer + 1\<rparr>
      else peer)"

definition sync_msg ::
  "bytes \<Rightarrow> bytes option \<Rightarrow> nat \<Rightarrow> u64 \<Rightarrow> u64 \<Rightarrow> u64 \<Rightarrow> u16 \<Rightarrow> int \<Rightarrow> outbox_msg" where
  "sync_msg key val value_len timestamp node_id expire_at flags now =
     \<lparr>om_opcode = OP_SYNC, om_flags = flags, om_key = key, om_key_len = of_nat (length key),
      om_value = (if value_len > 0 then map_option (take value_len) val else None), om_value_len = of_nat value_len,
      om_timestamp = timestamp, om_node_id = node_id, om_expire_at = expire_at, om_enqueued_at = now\<rparr>"

definition broadcast_peer ::
  "cluster_cfg \<Rightarrow> bytes \<Rightarrow> bytes option \<Rightarrow> nat \<Rightarrow> u64 \<Rightarrow> u64 \<Rightarrow> u64 \<Rightarrow> u16 \<Rightarrow> peer_conn \<Rightarrow> world \<Rightarrow>
     peer_conn \<times> world" where
  "broadcast_peer cfg key val value_len ts node ex flags peer w =
     (if pc_node_id peer \<noteq> 0 \<and> pc_node_id peer = cfg_node_id cfg then (peer, w)
      else let (msg_ok, w1) = draw_mem w in
        if \<not> msg_ok then (peer, w1)
        else let (key_ok, w2) = draw_mem w1;
                 (value_ok, w3) = (if value_len > 0 then draw_mem w2 else (True, w2)) in
          if \<not> key_ok \<or> \<not> value_ok then (peer, w3)
          else let (now, w4) = draw_time w3 in
            (outbox_push (sync_msg key val value_len ts node ex flags now) peer, w4))"

fun broadcast_walk ::
  "cluster_cfg \<Rightarrow> bytes \<Rightarrow> bytes option \<Rightarrow> nat \<Rightarrow> u64 \<Rightarrow> u64 \<Rightarrow> u64 \<Rightarrow> u16 \<Rightarrow> peer_conn list \<Rightarrow> world \<Rightarrow>
     peer_conn list \<times> world" where
  "broadcast_walk cfg key val value_len ts node ex flags [] w = ([], w)"
| "broadcast_walk cfg key val value_len ts node ex flags (peer # peers) w =
     (let (peer', w') = broadcast_peer cfg key val value_len ts node ex flags peer w;
          (peers', w'') = broadcast_walk cfg key val value_len ts node ex flags peers w'
      in (peer' # peers', w''))"

definition broadcast_sync ::
  "cluster_cfg \<Rightarrow> bytes option \<Rightarrow> bytes option \<Rightarrow> nat \<Rightarrow> u64 \<Rightarrow> u64 \<Rightarrow> u64 \<Rightarrow> u16 \<Rightarrow> 's node \<Rightarrow> 's node run" where
  "broadcast_sync cfg key val value_len timestamp node_id expire_at flags st =
     (case key of
        None \<Rightarrow> Done st
      | Some k \<Rightarrow>
          if length k = 0 \<or> length k > MAX_KEY_LEN \<or> value_len > MAX_VALUE_LEN then Done st
          else if peers_locked st then Blocked
          else case broadcast_walk cfg k val value_len timestamp node_id expire_at flags (nd_peers st) (nd_world st) of
            (peers, w) \<Rightarrow> Done (st\<lparr>nd_peers := peers, nd_world := w\<rparr>))"

section \<open>Well-formed peers\<close>

definition msg_ok :: "outbox_msg \<Rightarrow> bool" where
  "msg_ok m \<longleftrightarrow> om_key m \<noteq> [] \<and> length (om_key m) \<le> MAX_KEY_LEN \<and> unat (om_key_len m) = length (om_key m)
     \<and> unat (om_value_len m) \<le> MAX_VALUE_LEN
     \<and> (om_value_len m \<noteq> 0 \<longrightarrow> (\<exists>v. om_value m = Some v \<and> length v = unat (om_value_len m)))"

definition outbox_ok :: "peer_conn \<Rightarrow> bool" where
  "outbox_ok p \<longleftrightarrow> pc_outbox_count p = int (length (pc_outbox p)) \<and> pc_outbox_count p \<le> OUTBOX_MAX_MSG
     \<and> list_all msg_ok (pc_outbox p)"

definition backoff_ok :: "peer_conn \<Rightarrow> bool" where
  "backoff_ok p \<longleftrightarrow> PEER_RETRY_BASE \<le> pc_retry_backoff p \<and> pc_retry_backoff p \<le> PEER_RETRY_MAX"

definition address_ok :: "cluster_cfg \<Rightarrow> peer_conn \<Rightarrow> bool" where
  "address_ok cfg p \<longleftrightarrow> pc_addr p \<noteq> [] \<and> length (pc_addr p) \<le> DMMR_PEER_ADDR_MAX \<and> pc_port p \<noteq> 0
     \<and> \<not> endpoint_is_self cfg (pc_addr p) (pc_port p) (pc_node_id p)"

definition peer_ok :: "cluster_cfg \<Rightarrow> peer_conn \<Rightarrow> bool" where
  "peer_ok cfg p \<longleftrightarrow> address_ok cfg p \<and> outbox_ok p \<and> backoff_ok p"

lemma addr_fits: "length a \<le> DMMR_PEER_ADDR_MAX \<Longrightarrow> strlcpy_text (DMMR_PEER_ADDR_MAX + 1) a = a"
  by simp

lemma port_nonzero: "1 \<le> port \<Longrightarrow> port \<le> 65535 \<Longrightarrow> (of_int port :: u16) \<noteq> 0"
  by (simp add: word_of_int_eq_0_iff zdvd_not_zless)

lemma new_ok:
  assumes "a \<noteq> []" and "length a \<le> DMMR_PEER_ADDR_MAX" and "port \<noteq> 0" and "\<not> endpoint_is_self cfg a port node"
  shows "peer_ok cfg (peer_new a port node seed now)"
  using assms by (simp add: peer_ok_def address_ok_def outbox_ok_def backoff_ok_def peer_new_def const_defs strlcpy_text_def)

lemma refresh_ok:
  assumes "peer_ok cfg p" and "a \<noteq> []" and "length a \<le> DMMR_PEER_ADDR_MAX" and "port \<noteq> 0"
    and "\<not> endpoint_is_self cfg a port node"
  shows "peer_ok cfg (peer_refresh a port node seed now p)"
  using assms
  by (auto simp: peer_ok_def address_ok_def outbox_ok_def backoff_ok_def peer_refresh_def endpoint_is_self_def)

lemma refresh_first_ok:
  assumes "refresh_first a port node seed now peers = Some peers'" and "list_all (peer_ok cfg) peers"
    and "a \<noteq> []" and "length a \<le> DMMR_PEER_ADDR_MAX" and "port \<noteq> 0" and "\<not> endpoint_is_self cfg a port node"
  shows "list_all (peer_ok cfg) peers' \<and> length peers' = length peers
     \<and> (\<exists>p \<in> set peers'. pc_addr p = a \<and> pc_port p = port \<and> (node \<noteq> 0 \<longrightarrow> pc_node_id p = node))"
  using assms
proof (induction peers arbitrary: peers')
  case (Cons p peers)
  show ?case
  proof (cases "peer_matches a port node p")
    case True
    with Cons.prems refresh_ok [of cfg p a port node seed now] show ?thesis
      by (auto simp: peer_refresh_def)
  next
    case False
    with Cons show ?thesis by auto
  qed
qed simp

lemma refresh_first_none:
  "refresh_first a port node seed now peers = None \<longleftrightarrow> (\<forall>p \<in> set peers. \<not> peer_matches a port node p)"
  by (induction peers) auto

lemma push_ok:
  assumes "msg_ok m" and "peer_ok cfg p"
  shows "peer_ok cfg (outbox_push m p)"
  using assms by (auto simp: peer_ok_def address_ok_def outbox_ok_def backoff_ok_def outbox_push_def)

lemma sync_msg_ok:
  assumes "k \<noteq> []" and "length k \<le> MAX_KEY_LEN" and "value_len \<le> MAX_VALUE_LEN"
    and "value_len > 0 \<longrightarrow> (\<exists>v. val = Some v \<and> length v \<ge> value_len)"
  shows "msg_ok (sync_msg k val value_len ts node ex flags now)"
proof -
  have "length k < 2 ^ 32" "value_len < 2 ^ 32" using assms by (simp_all add: const_defs)
  then have "unat (of_nat (length k) :: u32) = length k" "unat (of_nat value_len :: u32) = value_len"
    by (simp_all add: unsigned_of_nat take_bit_eq_mod)
  with assms show ?thesis by (auto simp: msg_ok_def sync_msg_def)
qed

text \<open>Whatever the allocator does, a peer is left as it is or gets the message; with memory available every
  peer that is not this node gets it.\<close>

lemma broadcast_peer_result:
  "\<exists>t. fst (broadcast_peer cfg k val value_len stamp node ex flags p w)
     \<in> {p, outbox_push (sync_msg k val value_len stamp node ex flags t) p}"
  by (auto simp: broadcast_peer_def case_prod_beta Let_def)

lemma broadcast_peer_mem:
  assumes "\<And>n. w_mem w n"
  shows "\<exists>t. fst (broadcast_peer cfg k val value_len stamp node ex flags p w)
       = (if pc_node_id p \<noteq> 0 \<and> pc_node_id p = cfg_node_id cfg then p
          else outbox_push (sync_msg k val value_len stamp node ex flags t) p)"
    and "w_mem (snd (broadcast_peer cfg k val value_len stamp node ex flags p w)) n"
  using assms by (auto simp: broadcast_peer_def draw_mem_def draw_time_def)

lemma broadcast_walk_each:
  "list_all2 (\<lambda>p p'. \<exists>t. p' \<in> {p, outbox_push (sync_msg k val value_len stamp node ex flags t) p})
     peers (fst (broadcast_walk cfg k val value_len stamp node ex flags peers w))"
proof (induction peers arbitrary: w)
  case (Cons p peers)
  then show ?case using broadcast_peer_result [of cfg k val value_len stamp node ex flags p w]
    by (simp add: case_prod_beta Let_def)
qed simp

lemma broadcast_walk_mem:
  assumes "\<And>n. w_mem w n"
  shows "list_all2 (\<lambda>p p'. \<exists>t. p' = (if pc_node_id p \<noteq> 0 \<and> pc_node_id p = cfg_node_id cfg then p
          else outbox_push (sync_msg k val value_len stamp node ex flags t) p))
     peers (fst (broadcast_walk cfg k val value_len stamp node ex flags peers w))"
  using assms
proof (induction peers arbitrary: w)
  case (Cons p peers)
  then show ?case using broadcast_peer_mem [of w cfg k val value_len stamp node ex flags p]
    by (simp add: case_prod_beta Let_def)
qed simp

lemma broadcast_ok:
  assumes "list_all (peer_ok cfg) peers" and "k \<noteq> []" and "length k \<le> MAX_KEY_LEN" and "value_len \<le> MAX_VALUE_LEN"
    and "value_len > 0 \<longrightarrow> (\<exists>v. val = Some v \<and> length v \<ge> value_len)"
  shows "list_all (peer_ok cfg) (fst (broadcast_walk cfg k val value_len stamp node ex flags peers w))"
proof -
  have "list_all2 (\<lambda>p p'. peer_ok cfg p \<longrightarrow> peer_ok cfg p') peers
      (fst (broadcast_walk cfg k val value_len stamp node ex flags peers w))"
    using broadcast_walk_each [of k val value_len stamp node ex flags peers cfg w]
    by (rule list_all2_mono) (use assms in \<open>auto intro!: push_ok sync_msg_ok\<close>)
  with assms(1) show ?thesis by (auto simp: list_all2_conv_all_nth list_all_length)
qed

section \<open>Properties\<close>

lemma add_peer_internal_ok:
  assumes "list_all (peer_ok cfg) (nd_peers st)" and "add_peer_internal cfg addr port node seed st = Done st'"
  shows "list_all (peer_ok cfg) (nd_peers st')" and "length (nd_peers st') \<le> Suc (length (nd_peers st))"
    and "peers_locked st' = peers_locked st" and "nd_dbp st' = nd_dbp st"
  using assms refresh_first_ok [of _ _ node seed] new_ok port_nonzero
  by (fastforce simp: add_peer_internal_def draw_time_def draw_mem_def split: option.splits if_splits)+

text \<open>C32: announcing an endpoint keeps the peer list well-formed: no entry is this node itself, every address
  is a non-empty string that fits its buffer with a non-zero port, outboxes hold what their counters say.
  An announcement that names a usable endpoint of another node is registered, under the announced address,
  port and node id, by refreshing an entry or adding one; every other announcement changes nothing.\<close>

theorem add_peer_registers:
  assumes "list_all (peer_ok cfg) (nd_peers st)" and "\<not> peers_locked st" and "w_mem (nd_world st) 0"
  shows "\<exists>st'. add_peer_internal cfg (Some a) port node seed st = Done st'
     \<and> list_all (peer_ok cfg) (nd_peers st') \<and> nd_dbp st' = nd_dbp st
     \<and> (if 1 \<le> port \<and> port \<le> 65535 \<and> a \<noteq> [] \<and> length a \<le> DMMR_PEER_ADDR_MAX
           \<and> \<not> endpoint_is_self cfg a (of_int port) node
        then (\<exists>p \<in> set (nd_peers st'). pc_addr p = a \<and> pc_port p = of_int port \<and> (node \<noteq> 0 \<longrightarrow> pc_node_id p = node))
             \<and> length (nd_peers st') = length (nd_peers st) +
                 (if \<exists>p \<in> set (nd_peers st). peer_matches a (of_int port) node p then 0 else 1)
        else st' = st)"
proof -
  let ?usable = "1 \<le> port \<and> port \<le> 65535 \<and> a \<noteq> [] \<and> length a \<le> DMMR_PEER_ADDR_MAX
      \<and> \<not> endpoint_is_self cfg a (of_int port) node"
  obtain now where now: "fst (draw_time (nd_world st)) = now" by simp
  show ?thesis
  proof (cases ?usable)
    case False
    then have "add_peer_internal cfg (Some a) port node seed st = Done st"
      by (auto simp: add_peer_internal_def)
    with False assms(1) show ?thesis by auto
  next
    case True
    note port = port_nonzero [of port]
    show ?thesis
    proof (cases "refresh_first a (of_int port) node seed now (nd_peers st)")
      case None
      with True assms(2,3) now have "add_peer_internal cfg (Some a) port node seed st = Done (st\<lparr>
          nd_peers := nd_peers st @ [peer_new a (of_int port) node seed now],
          nd_world := snd (draw_time (snd (draw_mem (nd_world st))))\<rparr>)"
        by (auto simp: add_peer_internal_def case_prod_beta draw_mem_def draw_time_def)
      with None True assms(1) new_ok [of a "of_int port" cfg node seed now] port show ?thesis
        by (auto simp: refresh_first_none peer_new_def)
    next
      case (Some peers)
      with True assms(2) now have "add_peer_internal cfg (Some a) port node seed st
          = Done (st\<lparr>nd_peers := peers, nd_world := snd (draw_time (nd_world st))\<rparr>)"
        by (auto simp: add_peer_internal_def case_prod_beta)
      moreover have "\<exists>p \<in> set (nd_peers st). peer_matches a (of_int port) node p"
        using Some refresh_first_none [of a "of_int port" node seed now "nd_peers st"] by auto
      ultimately show ?thesis
        using True refresh_first_ok [OF Some assms(1)] port by auto
    qed
  qed
qed

lemma broadcast_queued:
  assumes "list_all (peer_ok cfg) (nd_peers st)" and "\<not> peers_locked st" and "\<And>n. w_mem (nd_world st) n"
    and "k \<noteq> []" and "length k \<le> MAX_KEY_LEN" and "value_len \<le> MAX_VALUE_LEN"
    and "value_len > 0 \<longrightarrow> (\<exists>v. val = Some v \<and> length v \<ge> value_len)"
  shows "\<exists>st'. broadcast_sync cfg (Some k) val value_len stamp node ex flags st = Done st'
     \<and> list_all (peer_ok cfg) (nd_peers st') \<and> length (nd_peers st') = length (nd_peers st)
     \<and> (\<forall>i < length (nd_peers st). \<exists>t. let p = nd_peers st ! i; p' = nd_peers st' ! i in
          length (pc_outbox p') \<le> 256
          \<and> p' = p\<lparr>pc_outbox := pc_outbox p', pc_outbox_count := int (length (pc_outbox p'))\<rparr>
          \<and> pc_outbox p' = pc_outbox p @
              (if length (pc_outbox p) < 256 then [sync_msg k val value_len stamp node ex flags t] else []))"
proof -
  let ?r = "broadcast_walk cfg k val value_len stamp node ex flags (nd_peers st) (nd_world st)"
  have run: "broadcast_sync cfg (Some k) val value_len stamp node ex flags st
      = Done (st\<lparr>nd_peers := fst ?r, nd_world := snd ?r\<rparr>)"
    using assms(2,4-6) by (simp add: broadcast_sync_def case_prod_beta)
  have ok: "list_all (peer_ok cfg) (fst ?r)" using broadcast_ok assms by blast
  note each = broadcast_walk_mem [OF assms(3), of cfg k val value_len stamp node ex flags "nd_peers st"]
  have one: "\<exists>t. let p = nd_peers st ! i; p' = fst ?r ! i in
          length (pc_outbox p') \<le> 256
          \<and> p' = p\<lparr>pc_outbox := pc_outbox p', pc_outbox_count := int (length (pc_outbox p'))\<rparr>
          \<and> pc_outbox p' = pc_outbox p @
              (if length (pc_outbox p) < 256 then [sync_msg k val value_len stamp node ex flags t] else [])"
    if i: "i < length (nd_peers st)" for i
  proof -
    have p: "peer_ok cfg (nd_peers st ! i)" "peer_ok cfg (fst ?r ! i)"
      using assms(1) ok i list_all2_lengthD [OF each] by (simp_all add: list_all_length)
    then have "\<not> (pc_node_id (nd_peers st ! i) \<noteq> 0 \<and> pc_node_id (nd_peers st ! i) = cfg_node_id cfg)"
      by (simp add: peer_ok_def address_ok_def endpoint_is_self_def)
    with list_all2_nthD [OF each i] obtain t where
      "fst ?r ! i = outbox_push (sync_msg k val value_len stamp node ex flags t) (nd_peers st ! i)" by auto
    with p show ?thesis
      by (intro exI [of _ t]) (auto simp: Let_def outbox_push_def peer_ok_def outbox_ok_def const_defs)
  qed
  show ?thesis using run ok one list_all2_lengthD [OF each] by simp
qed

text \<open>C33: a broadcast reaches every peer.  With memory available, \<open>broadcast_sync\<close> of a key and value within
  the limits puts exactly one message with that key, value, stamp and flags at the end of the outbox of every
  peer that is not this node, unless 256 messages are already waiting there; outboxes never exceed that bound
  and stay well-formed, and nothing else about the peers changes.\<close>

theorem broadcast_sync_reaches:
  assumes "list_all (peer_ok cfg) (nd_peers st)" and "\<not> peers_locked st" and "\<And>n. w_mem (nd_world st) n"
    and "k \<noteq> []" and "length k \<le> MAX_KEY_LEN" and "value_len \<le> MAX_VALUE_LEN"
    and "value_len > 0 \<longrightarrow> (\<exists>v. val = Some v \<and> length v \<ge> value_len)"
  shows "\<exists>st'. broadcast_sync cfg (Some k) val value_len stamp node ex flags st = Done st'
     \<and> list_all (peer_ok cfg) (nd_peers st') \<and> length (nd_peers st') = length (nd_peers st)
     \<and> (\<forall>i < length (nd_peers st). \<exists>t. let p = nd_peers st ! i; p' = nd_peers st' ! i in
          length (pc_outbox p') \<le> 256
          \<and> p' = p\<lparr>pc_outbox := pc_outbox p', pc_outbox_count := int (length (pc_outbox p'))\<rparr>
          \<and> pc_outbox p' = pc_outbox p @
              (if length (pc_outbox p) < 256 then [sync_msg k val value_len stamp node ex flags t] else []))"
  using assms by (rule broadcast_queued)

text \<open>Merging by node id or by address can leave two entries for one endpoint, which then receives every
  update twice.\<close>

definition demo_world :: world where
  "demo_world = \<lparr>w_clock = (\<lambda>n. (of_nat n, 0)), w_time = (\<lambda>n. int n), w_mem = (\<lambda>n. True),
     w_entropy = (\<lambda>n. \<lparr>en_urandom = Some (le_bytes 8 (of_nat n + 11 :: u64)), en_time = 0, en_rand1 = 0, en_rand2 = 0\<rparr>),
     w_running = (\<lambda>n. True), w_net = (\<lambda>n host port. None), w_cursor = (\<lambda>n. (True, [CurEnd]))\<rparr>"

definition demo_node :: "(bytes \<rightharpoonup> bytes) node" where
  "demo_node = \<lparr>nd_peers = [peer_new (cstr ''a'') 1 5 False 0, peer_new (cstr ''b'') 1 0 False 0], peers_locked = False,
     nd_dbp = Some Map.empty, bootstrap_completed = False, nd_world = demo_world\<rparr>"

lemma demo_node_ok: "list_all (peer_ok demo_cfg) (nd_peers demo_node)"
  by (simp add: demo_node_def demo_cfg_def peer_ok_def address_ok_def outbox_ok_def backoff_ok_def peer_new_def
      endpoint_is_self_def const_defs strlcpy_text_def)

lemma add_peer_leaves_duplicates:
  "\<exists>st'. add_peer_with_node demo_cfg (Some (cstr ''b'')) 1 5 demo_node = Done st'
     \<and> map (\<lambda>p. (pc_addr p, pc_port p)) (nd_peers st') = [(cstr ''b'', 1), (cstr ''b'', 1)]"
  by (simp add: add_peer_with_node_def add_peer_internal_def demo_node_def demo_cfg_def demo_world_def
      draw_time_def peer_matches_def peer_new_def peer_refresh_def endpoint_is_self_def const_defs strlcpy_text_def)

theorem add_peer_registers_witness:
  "\<exists>st'. add_peer_internal demo_cfg (Some (cstr ''c'')) 9 6 False demo_node = Done st'
     \<and> (\<exists>p \<in> set (nd_peers st'). pc_addr p = cstr ''c'' \<and> pc_port p = 9 \<and> pc_node_id p = 6)
     \<and> length (nd_peers st') = 3"
proof -
  have "\<not> endpoint_is_self demo_cfg (cstr ''c'') 9 6" by (simp add: endpoint_is_self_def demo_cfg_def)
  moreover have "\<not> (\<exists>p \<in> set (nd_peers demo_node). peer_matches (cstr ''c'') 9 6 p)"
    by (simp add: demo_node_def peer_matches_def peer_new_def const_defs strlcpy_text_def)
  moreover have "\<not> peers_locked demo_node" "w_mem (nd_world demo_node) 0" "length (nd_peers demo_node) = 2"
    by (simp_all add: demo_node_def demo_world_def)
  ultimately show ?thesis
    using add_peer_registers [OF demo_node_ok, of "cstr ''c''" 9 6 False] by (fastforce simp: const_defs)
qed

theorem broadcast_sync_reaches_witness:
  "\<exists>st'. broadcast_sync demo_cfg (Some [1]) (Some [2, 3]) 2 5 7 9 FLAG_NONE demo_node = Done st'
     \<and> (\<exists>t. pc_outbox (nd_peers st' ! 1) = [sync_msg [1] (Some [2, 3]) 2 5 7 9 FLAG_NONE t])"
proof -
  have n: "\<not> peers_locked demo_node" "\<And>n. w_mem (nd_world demo_node) n" "length (nd_peers demo_node) = 2"
    "pc_outbox (nd_peers demo_node ! 1) = []"
    by (simp_all add: demo_node_def demo_world_def peer_new_def)
  have "length [1 :: u8] \<le> MAX_KEY_LEN" "2 \<le> MAX_VALUE_LEN" by (simp_all add: const_defs)
  from broadcast_sync_reaches [OF demo_node_ok n(1,2) _ this, of "Some [2, 3]" 5 7 9 FLAG_NONE]
  obtain st' where "broadcast_sync demo_cfg (Some [1]) (Some [2, 3]) 2 5 7 9 FLAG_NONE demo_node = Done st'"
    "\<exists>t. pc_outbox (nd_peers st' ! 1) = pc_outbox (nd_peers demo_node ! 1) @
       (if length (pc_outbox (nd_peers demo_node ! 1)) < 256 then [sync_msg [1] (Some [2, 3]) 2 5 7 9 FLAG_NONE t] else [])"
    using n(3) by (fastforce simp: Let_def)
  with n(4) show ?thesis by auto
qed

end
