(* ===== verification/Dmmr_Hello.thy ===== *)
theory Dmmr_Hello
  imports Dmmr_Peers
begin

text \<open>
  How nodes find each other (\<open>dmmr_cluster.c\<close>): the peer list message, the \<open>HELLO\<close> exchange from both sides,
  seeds, and the thread that retires idle peers.  Reads of a received payload go through \<open>rd\<close>, which is
  \<open>None\<close> outside the payload; such a read makes the run a \<open>Fault\<close>.
\<close>

section \<open>Peer lists\<close>

definition rd :: "nat \<Rightarrow> nat \<Rightarrow> bytes \<Rightarrow> bytes option" where
  "rd off n mem = (if off + n \<le> length mem then Some (sub off n mem) else None)"

definition encode_peer :: "peer_endpoint \<Rightarrow> bytes" where
  "encode_peer ep =
     (let addr_len = of_nat (length (ep_addr ep)) :: u8 in
      le_bytes 8 (htonll (ep_node_id ep)) @ le_bytes 2 (htons (ep_port ep)) @ [addr_len] @
        take (unat addr_len) (ep_addr ep))"

definition peer_list_payload :: "peer_endpoint list \<Rightarrow> bytes" where
  "peer_list_payload eps = le_bytes 2 (htons (of_nat (length eps))) @ concat (map encode_peer eps)"

definition send_peer_list :: "cluster_cfg \<Rightarrow> sock \<Rightarrow> 's node \<Rightarrow> (int \<times> sock \<times> 's node) run" where
  "send_peer_list cfg s st =
     (if peers_locked st then Blocked
      else let peers = snapshot_peer_endpoints DMMR_MAX_DISCOVERED_PEERS (nd_peers st);
               total_len = 2 + sum_list (map (\<lambda>ep. 8 + 2 + 1 + length (ep_addr ep)) peers) in
        if total_len > MAX_VALUE_LEN then Done (- 1, s, st)
        else let (mem_ok, w1) = draw_mem (nd_world st); st1 = st\<lparr>nd_world := w1\<rparr> in
          if \<not> mem_ok then Done (- 1, s, st1)
          else case cluster_send_frame cfg OP_CLUSTER_PEER_LIST FLAG_NONE None 0 (Some (peer_list_payload peers))
                      total_len 0 (cfg_node_id cfg) 0 s of
            None \<Rightarrow> Blocked
          | Some (rc, s') \<Rightarrow> Done (rc, s', st1))"

text \<open>The loop of \<open>parse_peer_list\<close>: entries left, offset, endpoints found.\<close>

fun parse_entries ::
  "cluster_cfg \<Rightarrow> bytes \<Rightarrow> nat \<Rightarrow> nat \<Rightarrow> nat \<Rightarrow> peer_endpoint list \<Rightarrow> 's node \<Rightarrow>
     (int \<times> peer_endpoint list \<times> 's node) run" where
  "parse_entries cfg payload payload_len 0 offset items st =
     Done (if offset = payload_len then 0 else - 1, items, st)"
| "parse_entries cfg payload payload_len (Suc n) offset items st =
     (if offset + 8 + 2 + 1 > payload_len then Done (- 1, items, st)
      else case (rd offset 8 payload, rd (offset + 8) 2 payload, rd (offset + 10) 1 payload) of
        (Some net_node_id, Some net_port, Some len_byte) \<Rightarrow>
          let addr_len = unat (hd len_byte); offset1 = offset + 11 in
          if addr_len = 0 \<or> offset1 + addr_len > payload_len then Done (- 1, items, st)
          else (case rd offset1 addr_len payload of
            None \<Rightarrow> Fault
          | Some a \<Rightarrow>
              let ep = \<lparr>ep_addr = c_string a, ep_port = ntohs (of_le net_port), ep_node_id = ntohll (of_le net_node_id)\<rparr> in
              (case add_peer_with_node cfg (Some (ep_addr ep)) (uint (ep_port ep)) (ep_node_id ep) st of
                 Done st1 \<Rightarrow>
                   parse_entries cfg payload payload_len n (offset1 + addr_len)
                     (if \<not> endpoint_is_self cfg (ep_addr ep) (ep_port ep) (ep_node_id ep)
                         \<and> length items < DMMR_MAX_DISCOVERED_PEERS then items @ [ep] else items) st1
               | Blocked \<Rightarrow> Blocked
               | Fault \<Rightarrow> Fault))
      | _ \<Rightarrow> Fault)"

definition parse_peer_list ::
  "cluster_cfg \<Rightarrow> bytes option \<Rightarrow> nat \<Rightarrow> 's node \<Rightarrow> (int \<times> peer_endpoint list \<times> 's node) run" where
  "parse_peer_list cfg payload payload_len st =
     (case payload of
        None \<Rightarrow> Done (- 1, [], st)
      | Some p \<Rightarrow>
          if payload_len < 2 then Done (- 1, [], st)
          else (case rd 0 2 p of
            None \<Rightarrow> Fault
          | Some net_count \<Rightarrow> parse_entries cfg p payload_len (unat (ntohs (of_le net_count) :: u16)) 2 [] st))"

section \<open>HELLO\<close>

definition hello_value :: "cluster_cfg \<Rightarrow> bytes" where
  "hello_value cfg =
     le_bytes 2 (htons (cluster_advertise_port cfg)) @ [of_nat (length (cluster_name cfg))] @ cluster_name cfg"

text \<open>The connection is returned as it was when it was closed.\<close>

definition send_hello ::
  "cluster_cfg \<Rightarrow> peer_endpoint \<Rightarrow> 's node \<Rightarrow> (int \<times> peer_endpoint list \<times> sock option \<times> 's node) run" where
  "send_hello cfg endpoint st =
     (let (net, w1) = draw_net (nd_world st); st1 = st\<lparr>nd_world := w1\<rparr> in
      case connect_endpoint net endpoint of
        None \<Rightarrow> Done (- 1, [], None, st1)
      | Some s \<Rightarrow>
          (case cluster_send_frame cfg OP_CLUSTER_HELLO FLAG_NONE
                  (Some (cluster_advertise_address cfg)) (length (cluster_advertise_address cfg))
                  (Some (hello_value cfg)) (2 + 1 + length (cluster_name cfg)) 0 (cfg_node_id cfg) 0 s of
             None \<Rightarrow> Blocked
           | Some (rc, s1) \<Rightarrow>
               if rc \<noteq> 0 then Done (- 1, [], Some (s1\<lparr>s_open := False\<rparr>), st1)
               else let (mem_ok, w2) = draw_mem (nd_world st1); st2 = st1\<lparr>nd_world := w2\<rparr> in
                 (case cluster_recv_frame mem_ok s1 of
                    None \<Rightarrow> Blocked
                  | Some (None, s2) \<Rightarrow> Done (- 1, [], Some (s2\<lparr>s_open := False\<rparr>), st2)
                  | Some (Some (response, payload), s2) \<Rightarrow>
                      if cf_opcode response \<noteq> OP_CLUSTER_PEER_LIST then Done (- 1, [], Some (s2\<lparr>s_open := False\<rparr>), st2)
                      else (case parse_peer_list cfg payload (unat (cf_value_len response)) st2 of
                              Done (rc, items, st3) \<Rightarrow> Done (if rc \<noteq> 0 then - 1 else 0, items, Some (s2\<lparr>s_open := False\<rparr>), st3)
                            | Blocked \<Rightarrow> Blocked
                            | Fault \<Rightarrow> Fault))))"

text \<open>The cluster name in a \<open>HELLO\<close>: \<open>None\<close> for a malformed one, the empty name if it carries none.\<close>

definition hello_name :: "nat \<Rightarrow> nat \<Rightarrow> bytes \<Rightarrow> bytes option run" where
  "hello_name key_len value_len payload =
     (if value_len > 2 then
        (case rd (key_len + 2) 1 payload of
           None \<Rightarrow> Fault
         | Some b \<Rightarrow>
             let peer_name_len = unat (hd b) in
             if peer_name_len > DMMR_CLUSTER_NAME_MAX \<or> value_len < 2 + 1 + peer_name_len then Done None
             else (case rd (key_len + 2 + 1) peer_name_len payload of
                     None \<Rightarrow> Fault
                   | Some name \<Rightarrow> Done (Some (c_string name))))
      else Done (Some []))"

definition handle_cluster_hello ::
  "cluster_cfg \<Rightarrow> sock \<Rightarrow> dmmr_cluster_frame \<Rightarrow> bytes option \<Rightarrow> 's node \<Rightarrow> (int \<times> sock \<times> 's node) run" where
  "handle_cluster_hello cfg s frame payload st =
     (let key_len = unat (cf_key_len frame); value_len = unat (cf_value_len frame) in
      if cf_node_id frame = 0 \<or> key_len = 0 \<or> key_len > DMMR_PEER_ADDR_MAX \<or> value_len < 2 \<or> payload = None
      then Done (- 1, s, st)
      else case (rd 0 key_len (the payload), rd key_len 2 (the payload)) of
        (Some address, Some net_port) \<Rightarrow>
          (case hello_name key_len value_len (the payload) of
             Done None \<Rightarrow> Done (- 1, s, st)
           | Done (Some peer_name) \<Rightarrow>
               if cluster_name cfg \<noteq> [] \<and> cluster_name cfg \<noteq> peer_name then Done (- 1, s, st)
               else (case add_peer_with_node cfg (Some (c_string address)) (uint (ntohs (of_le net_port) :: u16)) (cf_node_id frame) st of
                       Done st1 \<Rightarrow> send_peer_list cfg s st1
                     | Blocked \<Rightarrow> Blocked
                     | Fault \<Rightarrow> Fault)
           | Blocked \<Rightarrow> Blocked
           | Fault \<Rightarrow> Fault)
      | _ \<Rightarrow> Fault)"

section \<open>Seeds\<close>

definition parse_seed :: "bytes option \<Rightarrow> peer_endpoint option" where
  "parse_seed text =
     (case text of
        None \<Rightarrow> None
      | Some t \<Rightarrow>
          if t = [] then None
          else let split =
                 (if hd t = 91
                  then (case strchr 93 (tl t) of
                          None \<Rightarrow> None
                        | Some i \<Rightarrow>
                            (case drop (Suc i) (tl t) of
                               [] \<Rightarrow> None
                             | c # port_text \<Rightarrow> if c \<noteq> 58 then None else Some (take i (tl t), port_text)))
                  else (case strrchr 58 t of
                          None \<Rightarrow> None
                        | Some i \<Rightarrow> Some (take i t, drop (Suc i) t)))
               in (case split of
                     None \<Rightarrow> None
                   | Some (host, port_text) \<Rightarrow>
                       if length host = 0 \<or> length host > DMMR_PEER_ADDR_MAX \<or> port_text = [] then None
                       else let (errno, port, rest) = strtol 10 port_text in
                         if errno \<or> rest \<noteq> [] \<or> port < 1 \<or> port > 65535 then None
                         else Some \<lparr>ep_addr = host, ep_port = of_int port, ep_node_id = 0\<rparr>))"

section \<open>Retiring peers\<close>

text \<open>One pass of \<open>peer_reaper_thread\<close>: the peers already passed and kept, and those still to look at.\<close>

definition reap_idle :: "int \<Rightarrow> peer_conn \<Rightarrow> bool" where
  "reap_idle now p \<longleftrightarrow> pc_outbox_count p = 0 \<and> now - pc_last_activity p > PEER_EVICT_TIMEOUT"

definition reap_check :: "int \<Rightarrow> peer_conn \<Rightarrow> bool" where
  "reap_check now p \<longleftrightarrow> pc_outbox_count p = 0 \<and> now - pc_last_healthcheck p > PEER_HEALTHCHECK_INTERVAL
     \<and> pc_stale_count p > 0"

fun reap_walk :: "cluster_cfg \<Rightarrow> int \<Rightarrow> peer_conn list \<Rightarrow> peer_conn list \<Rightarrow> 's node \<Rightarrow> 's node run" where
  "reap_walk cfg now kept [] st = Done (st\<lparr>nd_peers := kept\<rparr>)"
| "reap_walk cfg now kept (p # ps) st =
     (if pc_is_seed p \<or> pc_node_id p = cfg_node_id cfg then reap_walk cfg now (kept @ [p]) ps st
      else if reap_idle now p then reap_walk cfg now kept ps st
      else if reap_check now p then
        (case send_hello cfg \<lparr>ep_addr = strlcpy_text (DMMR_PEER_ADDR_MAX + 1) (pc_addr p), ep_port = pc_port p,
                ep_node_id = pc_node_id p\<rparr> (st\<lparr>nd_peers := kept @ p # ps, peers_locked := True\<rparr>) of
           Done (rc, ignored, s, st1) \<Rightarrow>
             reap_walk cfg now (kept @ [p\<lparr>pc_last_healthcheck := now\<rparr>]) ps (st1\<lparr>peers_locked := False\<rparr>)
         | Blocked \<Rightarrow> Blocked
         | Fault \<Rightarrow> Fault)
      else reap_walk cfg now (kept @ [p]) ps st)"

definition reaper_pass :: "cluster_cfg \<Rightarrow> 's node \<Rightarrow> 's node run" where
  "reaper_pass cfg st =
     (if peers_locked st then Blocked
      else let (now, w1) = draw_time (nd_world st) in
        reap_walk cfg now [] (nd_peers st) (st\<lparr>nd_world := w1\<rparr>))"

section \<open>Parsing is safe\<close>

lemma add_peer_no_fault: "add_peer_internal cfg a port node seed st \<noteq> Fault"
  by (auto simp: add_peer_internal_def case_prod_beta Let_def split: option.splits)

lemma add_peer_unlocked: "\<not> peers_locked st \<Longrightarrow> \<exists>st'. add_peer_internal cfg a port node seed st = Done st'"
  by (auto simp: add_peer_internal_def case_prod_beta Let_def split: option.splits)

definition foreign :: "cluster_cfg \<Rightarrow> peer_endpoint \<Rightarrow> bool" where
  "foreign cfg ep \<longleftrightarrow> \<not> endpoint_is_self cfg (ep_addr ep) (ep_port ep) (ep_node_id ep)"

lemma rd_some: "off + n \<le> length mem \<Longrightarrow> rd off n mem = Some (sub off n mem)"
  by (simp add: rd_def)

lemma parse_entries_safe:
  fixes st :: "'a node"
  assumes "payload_len \<le> length payload"
  shows "parse_entries cfg payload payload_len n off items st \<noteq> Fault"
    and "parse_entries cfg payload payload_len n off items st = Done (rc, items', st') \<Longrightarrow>
      list_all (peer_ok cfg) (nd_peers st) \<Longrightarrow> length items \<le> DMMR_MAX_DISCOVERED_PEERS \<Longrightarrow>
      list_all (foreign cfg) items \<Longrightarrow>
      list_all (peer_ok cfg) (nd_peers st') \<and> length items' \<le> DMMR_MAX_DISCOVERED_PEERS
      \<and> list_all (foreign cfg) items' \<and> nd_dbp st' = nd_dbp st \<and> peers_locked st' = peers_locked st"
proof (induction n arbitrary: off items st)
  case (Suc n)
  let ?p = "parse_entries cfg payload payload_len"
  have step: "?p (Suc n) off items st = Done (- 1, items, st) \<or> ?p (Suc n) off items st = Blocked
      \<or> (\<exists>off' ep st1. add_peer_with_node cfg (Some (ep_addr ep)) (uint (ep_port ep)) (ep_node_id ep) st = Done st1
          \<and> ?p (Suc n) off items st = ?p n off' (if foreign cfg ep \<and> length items < DMMR_MAX_DISCOVERED_PEERS
              then items @ [ep] else items) st1)" for off items and st :: "'a node"
  proof (cases "off + 8 + 2 + 1 > payload_len")
    case False
    then have r: "rd off 8 payload = Some (sub off 8 payload)" "rd (off + 8) 2 payload = Some (sub (off + 8) 2 payload)"
      "rd (off + 10) 1 payload = Some (sub (off + 10) 1 payload)"
      using assms by (simp_all add: rd_def)
    define l where "l = unat (hd (sub (off + 10) 1 payload))"
    show ?thesis
    proof (cases "l = 0 \<or> off + 11 + l > payload_len")
      case True
      with False r show ?thesis by (simp add: l_def)
    next
      case l: False
      then have a: "rd (off + 11) l payload = Some (sub (off + 11) l payload)" using assms by (simp add: rd_def)
      define ep where "ep = \<lparr>ep_addr = c_string (sub (off + 11) l payload),
          ep_port = ntohs (of_le (sub (off + 8) 2 payload)), ep_node_id = ntohll (of_le (sub off 8 payload))\<rparr>"
      have "?p (Suc n) off items st = (case add_peer_with_node cfg (Some (ep_addr ep)) (uint (ep_port ep)) (ep_node_id ep) st of
            Done st1 \<Rightarrow> ?p n (off + 11 + l) (if foreign cfg ep \<and> length items < DMMR_MAX_DISCOVERED_PEERS
              then items @ [ep] else items) st1
          | Blocked \<Rightarrow> Blocked | Fault \<Rightarrow> Fault)"
        using False l r a by (simp add: l_def ep_def foreign_def Let_def cong: run.case_cong)
      then show ?thesis
        using add_peer_no_fault [of cfg "Some (ep_addr ep)" "uint (ep_port ep)" "ep_node_id ep" False st]
        by (cases "add_peer_with_node cfg (Some (ep_addr ep)) (uint (ep_port ep)) (ep_node_id ep) st")
          (auto simp: add_peer_with_node_def)
    qed
  qed simp
  {
    case 1
    then show ?case using step [of off items st] Suc.IH(1) by (auto simp del: parse_entries.simps)
  next
    case 2
    from step [of off items st] 2(1) consider "(rc, items', st') = (- 1, items, st)"
      | off' ep st1 where "add_peer_with_node cfg (Some (ep_addr ep)) (uint (ep_port ep)) (ep_node_id ep) st = Done st1"
          "?p n off' (if foreign cfg ep \<and> length items < DMMR_MAX_DISCOVERED_PEERS
              then items @ [ep] else items) st1 = Done (rc, items', st')"
      by (elim disjE exE conjE) (auto simp del: parse_entries.simps)
    then show ?case
    proof cases
      case 1
      with 2 show ?thesis by simp
    next
      case (2 off' ep st1)
      let ?items = "if foreign cfg ep \<and> length items < DMMR_MAX_DISCOVERED_PEERS then items @ [ep] else items"
      note st1 = add_peer_internal_ok [OF \<open>list_all (peer_ok cfg) (nd_peers st)\<close> 2(1) [unfolded add_peer_with_node_def]]
      have "length ?items \<le> DMMR_MAX_DISCOVERED_PEERS" "list_all (foreign cfg) ?items"
        using \<open>length items \<le> DMMR_MAX_DISCOVERED_PEERS\<close> \<open>list_all (foreign cfg) items\<close> by auto
      from Suc.IH(2) [OF 2(2) st1(1) this] st1 show ?thesis by simp
    qed
  }
qed auto

section \<open>The peer list round trip\<close>

definition ep_ok :: "peer_endpoint \<Rightarrow> bool" where
  "ep_ok ep \<longleftrightarrow> ep_addr ep \<noteq> [] \<and> length (ep_addr ep) \<le> DMMR_PEER_ADDR_MAX \<and> 0 \<notin> set (ep_addr ep)"

fun add_all :: "cluster_cfg \<Rightarrow> peer_endpoint list \<Rightarrow> 's node \<Rightarrow> 's node run" where
  "add_all cfg [] st = Done st"
| "add_all cfg (ep # eps) st =
     (case add_peer_with_node cfg (Some (ep_addr ep)) (uint (ep_port ep)) (ep_node_id ep) st of
        Done st1 \<Rightarrow> add_all cfg eps st1 | Blocked \<Rightarrow> Blocked | Fault \<Rightarrow> Fault)"

lemma add_all_ok:
  assumes "list_all (peer_ok cfg) (nd_peers st)" and "\<not> peers_locked st"
  shows "\<exists>st'. add_all cfg eps st = Done st' \<and> list_all (peer_ok cfg) (nd_peers st') \<and> nd_dbp st' = nd_dbp st
     \<and> \<not> peers_locked st'"
  using assms
proof (induction eps arbitrary: st)
  case (Cons ep eps)
  from add_peer_unlocked [OF Cons.prems(2)] obtain st1 where
    s: "add_peer_internal cfg (Some (ep_addr ep)) (uint (ep_port ep)) (ep_node_id ep) False st = Done st1" by blast
  note ok = add_peer_internal_ok [OF Cons.prems(1) s]
  from Cons.IH [OF ok(1)] ok(3,4) Cons.prems(2) s show ?case by (simp add: add_peer_with_node_def)
qed simp

lemma unat_addr_len: "length a \<le> DMMR_PEER_ADDR_MAX \<Longrightarrow> unat (of_nat (length a) :: u8) = length a"
  by (simp add: const_defs unsigned_of_nat take_bit_eq_mod)

lemma length_encode_peer: "ep_ok ep \<Longrightarrow> length (encode_peer ep) = 11 + length (ep_addr ep)"
  by (simp add: encode_peer_def ep_ok_def unat_addr_len)

lemma encode_peer_eq:
  "ep_ok ep \<Longrightarrow> encode_peer ep = be_bytes 8 (ep_node_id ep) @ be_bytes 2 (ep_port ep) @ [of_nat (length (ep_addr ep))] @ ep_addr ep"
  by (simp add: encode_peer_def ep_ok_def unat_addr_len codec_simps)

lemma c_string_id: "0 \<notin> set a \<Longrightarrow> c_string a = a"
  by (induction a) (auto simp: c_string_def)

lemma rd_middle: "rd (length pre + off) n (pre @ mid @ post) = (if off + n \<le> length mid then Some (sub off n mid) else rd off n (mid @ post))"
  by (simp add: rd_def sub_def)

lemma parse_entry:
  assumes "ep_ok ep" and "payload = pre @ encode_peer ep @ post" and "length payload \<le> payload_len" and "payload_len = length payload"
  shows "parse_entries cfg payload payload_len (Suc n) (length pre) items st =
     (case add_peer_with_node cfg (Some (ep_addr ep)) (uint (ep_port ep)) (ep_node_id ep) st of
        Done st1 \<Rightarrow> parse_entries cfg payload payload_len n (length (pre @ encode_peer ep))
           (if foreign cfg ep \<and> length items < DMMR_MAX_DISCOVERED_PEERS then items @ [ep] else items) st1
      | Blocked \<Rightarrow> Blocked | Fault \<Rightarrow> Fault)"
proof -
  let ?l = "length (ep_addr ep)"
  have e: "encode_peer ep = be_bytes 8 (ep_node_id ep) @ be_bytes 2 (ep_port ep) @ [of_nat ?l] @ ep_addr ep"
    using encode_peer_eq [OF assms(1)] .
  have len: "payload_len = length pre + 11 + ?l + length post"
    using assms length_encode_peer [OF assms(1)] by simp
  have r: "rd (length pre) 8 payload = Some (be_bytes 8 (ep_node_id ep))"
    "rd (length pre + 8) 2 payload = Some (be_bytes 2 (ep_port ep))"
    "rd (length pre + 10) 1 payload = Some [of_nat ?l]"
    "rd (length pre + 11) ?l payload = Some (ep_addr ep)"
    using len assms(2,4) by (simp_all add: rd_def sub_def e)
  have u: "unat (of_nat ?l :: u8) = ?l" "?l \<noteq> 0" "c_string (ep_addr ep) = ep_addr ep"
    using assms(1) by (simp_all add: ep_ok_def unat_addr_len c_string_id)
  have d: "ntohs (of_le (be_bytes 2 (ep_port ep))) = ep_port ep" "ntohll (of_le (be_bytes 8 (ep_node_id ep))) = ep_node_id ep"
    by (simp_all add: codec_simps)
  have eta: "\<lparr>ep_addr = ep_addr ep, ep_port = ep_port ep, ep_node_id = ep_node_id ep\<rparr> = ep" by simp
  show ?thesis
    using len r u d length_encode_peer [OF assms(1)]
    by (simp add: foreign_def Let_def add.assoc eta cong: run.case_cong)
qed

lemma parse_entries_all:
  assumes "list_all ep_ok eps" and "payload = pre @ concat (map encode_peer eps)"
    and "length items + length eps \<le> DMMR_MAX_DISCOVERED_PEERS"
  shows "parse_entries cfg payload (length payload) (length eps) (length pre) items st =
     (case add_all cfg eps st of
        Done st' \<Rightarrow> Done (0, items @ filter (foreign cfg) eps, st') | Blocked \<Rightarrow> Blocked | Fault \<Rightarrow> Fault)"
  using assms
proof (induction eps arbitrary: pre items st)
  case (Cons ep eps)
  have p: "payload = pre @ encode_peer ep @ concat (map encode_peer eps)"
    "payload = (pre @ encode_peer ep) @ concat (map encode_peer eps)" using Cons.prems(2) by simp_all
  have ok: "ep_ok ep" "list_all ep_ok eps" using Cons.prems(1) by simp_all
  note e = parse_entry [OF ok(1) p(1), of "length payload" cfg "length eps" items st]
  show ?case
  proof (cases "add_peer_with_node cfg (Some (ep_addr ep)) (uint (ep_port ep)) (ep_node_id ep) st")
    case (Done st1)
    let ?items = "if foreign cfg ep then items @ [ep] else items"
    have lt: "length items < DMMR_MAX_DISCOVERED_PEERS" "length ?items + length eps \<le> DMMR_MAX_DISCOVERED_PEERS"
      using Cons.prems(3) by simp_all
    show ?thesis
      using e Done Cons.IH [OF ok(2) p(2), of ?items st1] lt
      by (simp del: parse_entries.simps cong: run.case_cong)
  qed (use e in simp_all)
qed simp

lemma parse_peer_list_all:
  assumes "list_all ep_ok eps" and "length eps \<le> DMMR_MAX_DISCOVERED_PEERS"
  shows "parse_peer_list cfg (Some (peer_list_payload eps)) (length (peer_list_payload eps)) st =
     (case add_all cfg eps st of
        Done st' \<Rightarrow> Done (0, filter (foreign cfg) eps, st') | Blocked \<Rightarrow> Blocked | Fault \<Rightarrow> Fault)"
proof -
  let ?c = "le_bytes 2 (htons (of_nat (length eps)))"
  have n: "unat (ntohs (of_le ?c) :: u16) = length eps"
    using assms(2) by (simp add: codec_simps const_defs unsigned_of_nat take_bit_eq_mod)
  have "rd 0 2 (peer_list_payload eps) = Some ?c" by (simp add: rd_def peer_list_payload_def)
  moreover have "length (peer_list_payload eps) \<ge> 2" by (simp add: peer_list_payload_def)
  ultimately show ?thesis
    using parse_entries_all [OF assms(1), of "peer_list_payload eps" ?c "[]" cfg st] assms(2) n
    by (simp add: parse_peer_list_def peer_list_payload_def cong: run.case_cong)
qed

section \<open>The HELLO exchange\<close>

lemma tx_live_mono: "tx_live m evs \<Longrightarrow> n \<le> m \<Longrightarrow> tx_live n evs"
  by (simp add: tx_live_def)

definition peer_ep :: "peer_conn \<Rightarrow> peer_endpoint" where
  "peer_ep p = \<lparr>ep_addr = pc_addr p, ep_port = pc_port p, ep_node_id = pc_node_id p\<rparr>"

lemma peer_ep_eq: "peer_ep p = e \<longleftrightarrow> pc_addr p = ep_addr e \<and> pc_port p = ep_port e \<and> pc_node_id p = ep_node_id e"
  by (cases e) (auto simp: peer_ep_def)

definition peer_list_msg :: "cluster_cfg \<Rightarrow> peer_endpoint list \<Rightarrow> dmmr_cluster_frame \<times> bytes" where
  "peer_list_msg cfg eps =
     (cluster_header cfg OP_CLUSTER_PEER_LIST FLAG_NONE 0 (length (peer_list_payload eps)) 0 (cfg_node_id cfg) 0,
      peer_list_payload eps)"

lemma length_peer_list_payload:
  "list_all ep_ok eps \<Longrightarrow> length (peer_list_payload eps) = 2 + sum_list (map (\<lambda>ep. 11 + length (ep_addr ep)) eps)"
proof -
  assume "list_all ep_ok eps"
  then have "map (length \<circ> encode_peer) eps = map (\<lambda>ep. 11 + length (ep_addr ep)) eps"
    by (simp add: list_all_iff length_encode_peer)
  then have "sum_list (map (length \<circ> encode_peer) eps) = sum_list (map (\<lambda>ep. 11 + length (ep_addr ep)) eps)"
    by (simp only:)
  then show ?thesis by (simp add: peer_list_payload_def length_concat)
qed

lemma peer_list_bound:
  assumes "list_all ep_ok eps" and "length eps \<le> DMMR_MAX_DISCOVERED_PEERS"
  shows "length (peer_list_payload eps) \<le> 34050"
proof -
  have "sum_list (map (\<lambda>ep. 11 + length (ep_addr ep)) eps) \<le> length eps * 266"
    using assms(1) by (induction eps) (auto simp: ep_ok_def const_defs)
  with assms length_peer_list_payload show ?thesis by (fastforce simp: const_defs)
qed

lemma snapshot_endpoints:
  "list_all (peer_ok cfg) peers \<Longrightarrow> snapshot_peer_endpoints n peers = map peer_ep (take n peers)"
  by (auto simp: snapshot_peer_endpoints_def peer_ep_def peer_ok_def address_ok_def list_all_iff dest!: in_set_takeD)

definition addrs_strings :: "peer_conn list \<Rightarrow> bool" where
  "addrs_strings peers \<longleftrightarrow> (\<forall>p \<in> set peers. 0 \<notin> set (pc_addr p))"

lemma peers_ep_ok:
  "list_all (peer_ok cfg) peers \<Longrightarrow> addrs_strings peers \<Longrightarrow> list_all ep_ok (map peer_ep (take n peers))"
  by (auto simp: list_all_iff peer_ok_def address_ok_def ep_ok_def peer_ep_def addrs_strings_def dest: in_set_takeD)

lemma send_peer_list_live:
  assumes "list_all (peer_ok cfg) (nd_peers st)" and "addrs_strings (nd_peers st)" and "\<not> peers_locked st"
    and "w_mem (nd_world st) 0" and "tx_live 34098 (s_tx s)"
  shows "\<exists>s'. send_peer_list cfg s st = Done (0, s', st\<lparr>nd_world := snd (draw_mem (nd_world st))\<rparr>)
     \<and> s_out s' = s_out s @ cluster_wire (peer_list_msg cfg (map peer_ep (take DMMR_MAX_DISCOVERED_PEERS (nd_peers st))))"
proof -
  define eps where "eps = map peer_ep (take DMMR_MAX_DISCOVERED_PEERS (nd_peers st))"
  have snap: "snapshot_peer_endpoints DMMR_MAX_DISCOVERED_PEERS (nd_peers st) = eps"
    using snapshot_endpoints [OF assms(1)] by (simp add: eps_def)
  have ok: "list_all ep_ok eps" "length eps \<le> DMMR_MAX_DISCOVERED_PEERS"
    using peers_ep_ok [OF assms(1,2)] by (simp_all add: eps_def)
  define total_len where "total_len = 2 + sum_list (map (\<lambda>ep. 8 + 2 + 1 + length (ep_addr ep)) eps)"
  have len: "total_len = length (peer_list_payload eps)" "total_len \<le> 34050"
    using length_peer_list_payload [OF ok(1)] peer_list_bound [OF ok] by (simp_all add: total_len_def)
  have args: "args_ok None 0 (Some (peer_list_payload eps)) total_len" using len by (simp add: args_ok_def const_defs)
  have wire: "(cluster_header cfg OP_CLUSTER_PEER_LIST FLAG_NONE 0 total_len 0 (cfg_node_id cfg) 0,
      args_payload None 0 (Some (peer_list_payload eps)) total_len) = peer_list_msg cfg eps"
    by (simp add: peer_list_msg_def args_payload_def len(1))
  have "length (cluster_wire (peer_list_msg cfg eps)) + 0 \<le> 34098"
    using len by (simp add: length_cluster_wire peer_list_msg_def)
  from tx_live_mono [OF assms(5) this]
  obtain s' where s': "cluster_send_frame cfg OP_CLUSTER_PEER_LIST FLAG_NONE None 0 (Some (peer_list_payload eps))
      total_len 0 (cfg_node_id cfg) 0 s = Some (0, s')" "s_out s' = s_out s @ cluster_wire (peer_list_msg cfg eps)"
    using cluster_send_live [OF args, of cfg OP_CLUSTER_PEER_LIST FLAG_NONE 0 "cfg_node_id cfg" 0 0 s] wire by auto
  have "\<not> total_len > MAX_VALUE_LEN" using len(2) by (simp add: const_defs)
  with s' assms(3,4) show ?thesis
    unfolding send_peer_list_def snap Let_def total_len_def [symmetric] eps_def [symmetric]
    by (simp add: draw_mem_def)
qed

definition hello_msg :: "cluster_cfg \<Rightarrow> dmmr_cluster_frame \<times> bytes" where
  "hello_msg cfg =
     (cluster_header cfg OP_CLUSTER_HELLO FLAG_NONE (length (cluster_advertise_address cfg)) (3 + length (cluster_name cfg))
        0 (cfg_node_id cfg) 0, cluster_advertise_address cfg @ hello_value cfg)"

definition cfg_ok :: "cluster_cfg \<Rightarrow> bool" where
  "cfg_ok cfg \<longleftrightarrow> cluster_advertise_address cfg \<noteq> [] \<and> length (cluster_advertise_address cfg) \<le> DMMR_PEER_ADDR_MAX
     \<and> 0 \<notin> set (cluster_advertise_address cfg) \<and> cluster_advertise_port cfg \<noteq> 0
     \<and> length (cluster_name cfg) \<le> DMMR_CLUSTER_NAME_MAX \<and> 0 \<notin> set (cluster_name cfg) \<and> cfg_node_id cfg \<noteq> 0"

lemma hello_lengths:
  assumes "cfg_ok cfg"
  shows "unat (cf_key_len (fst (hello_msg cfg))) = length (cluster_advertise_address cfg)"
    and "unat (cf_value_len (fst (hello_msg cfg))) = 3 + length (cluster_name cfg)"
proof -
  have "args_ok (Some (cluster_advertise_address cfg)) (length (cluster_advertise_address cfg)) (Some (hello_value cfg))
      (3 + length (cluster_name cfg))" using assms by (simp add: args_ok_def cfg_ok_def const_defs)
  from header_msg_ok(2,3) [OF this]
  show "unat (cf_key_len (fst (hello_msg cfg))) = length (cluster_advertise_address cfg)"
    and "unat (cf_value_len (fst (hello_msg cfg))) = 3 + length (cluster_name cfg)"
    by (simp_all add: hello_msg_def hello_value_def)
qed

lemma hello_parsed:
  assumes "cfg_ok cfg"
  defines "p \<equiv> snd (hello_msg cfg)" and "k \<equiv> length (cluster_advertise_address cfg)"
  shows "rd 0 k p = Some (cluster_advertise_address cfg)"
    and "rd k 2 p = Some (be_bytes 2 (cluster_advertise_port cfg))"
    and "hello_name k (3 + length (cluster_name cfg)) p = Done (Some (cluster_name cfg))"
proof -
  have p: "p = cluster_advertise_address cfg @ be_bytes 2 (cluster_advertise_port cfg) @ [of_nat (length (cluster_name cfg))] @ cluster_name cfg"
    by (simp add: p_def hello_msg_def hello_value_def codec_simps)
  have n: "unat (of_nat (length (cluster_name cfg)) :: u8) = length (cluster_name cfg)"
    using assms(1) by (simp add: cfg_ok_def const_defs unsigned_of_nat take_bit_eq_mod)
  show "rd 0 k p = Some (cluster_advertise_address cfg)" "rd k 2 p = Some (be_bytes 2 (cluster_advertise_port cfg))"
    by (simp_all add: rd_def p k_def sub_def)
  have "rd (k + 2) 1 p = Some [of_nat (length (cluster_name cfg))]" "rd (k + 2 + 1) (length (cluster_name cfg)) p = Some (cluster_name cfg)"
    by (simp_all add: rd_def p k_def sub_def)
  then show "hello_name k (3 + length (cluster_name cfg)) p = Done (Some (cluster_name cfg))"
    using assms(1) n by (simp add: hello_name_def cfg_ok_def c_string_id)
qed

lemma refresh_first_addrs:
  "refresh_first a port node seed now peers = Some peers' \<Longrightarrow> length a \<le> DMMR_PEER_ADDR_MAX \<Longrightarrow>
   pc_addr ` set peers' \<subseteq> insert a (pc_addr ` set peers)"
proof (induction peers arbitrary: peers')
  case (Cons p peers)
  show ?case
  proof (cases "peer_matches a port node p")
    case True
    with Cons.prems show ?thesis by (auto simp: peer_refresh_def)
  next
    case False
    with Cons.prems(1) obtain z where "refresh_first a port node seed now peers = Some z" "peers' = p # z" by auto
    with Cons.IH [OF this(1) Cons.prems(2)] show ?thesis by auto
  qed
qed simp

lemma add_peer_cases:
  assumes "add_peer_internal cfg (Some a) port node seed st = Done st'"
  obtains "nd_peers st' = nd_peers st"
  | now where "length a \<le> DMMR_PEER_ADDR_MAX" "refresh_first a (of_int port) node seed now (nd_peers st) = Some (nd_peers st')"
  | now where "length a \<le> DMMR_PEER_ADDR_MAX" "nd_peers st' = nd_peers st @ [peer_new a (of_int port) node seed now]"
  using assms
  by (auto simp: add_peer_internal_def draw_time_def draw_mem_def split: option.splits if_splits)

lemma add_peer_addrs:
  assumes "add_peer_internal cfg (Some a) port node seed st = Done st'" and "0 \<notin> set a" and "addrs_strings (nd_peers st)"
  shows "addrs_strings (nd_peers st')"
proof -
  from assms(1) have "pc_addr ` set (nd_peers st') \<subseteq> insert a (pc_addr ` set (nd_peers st))"
    by (cases rule: add_peer_cases) (auto dest!: refresh_first_addrs simp: peer_new_def)
  with assms(2,3) show ?thesis by (auto simp: addrs_strings_def)
qed

lemma add_peer_mem:
  "add_peer_internal cfg a port node seed st = Done st' \<Longrightarrow> (\<And>n. w_mem (nd_world st) n) \<Longrightarrow> w_mem (nd_world st') n"
  by (auto simp: add_peer_internal_def draw_mem_def draw_time_def split: option.splits if_splits)

lemma add_peer_registered:
  assumes "list_all (peer_ok cfg) (nd_peers st)" and "w_mem (nd_world st) 0"
    and "add_peer_internal cfg (Some a) port node seed st = Done st'"
    and "1 \<le> port" and "port \<le> 65535" and "a \<noteq> []" and "length a \<le> DMMR_PEER_ADDR_MAX"
    and "\<not> endpoint_is_self cfg a (of_int port) node"
  shows "\<exists>p \<in> set (nd_peers st'). pc_addr p = a \<and> pc_port p = of_int port \<and> (node \<noteq> 0 \<longrightarrow> pc_node_id p = node)"
  using assms refresh_first_ok [OF _ assms(1)] port_nonzero [OF assms(4,5)]
  by (auto simp: add_peer_internal_def draw_time_def draw_mem_def peer_new_def strlcpy_text_def
      split: option.splits if_splits)

lemma peer_list_msg_ok:
  assumes "list_all ep_ok eps" and "length eps \<le> DMMR_MAX_DISCOVERED_PEERS"
  shows "cluster_msg_ok (peer_list_msg cfg eps)" "cf_opcode (fst (peer_list_msg cfg eps)) = OP_CLUSTER_PEER_LIST"
    "unat (cf_value_len (fst (peer_list_msg cfg eps))) = length (peer_list_payload eps)"
    "payload_opt (snd (peer_list_msg cfg eps)) = Some (peer_list_payload eps)"
proof -
  let ?n = "length (peer_list_payload eps)"
  have n: "?n \<le> MAX_VALUE_LEN" "?n > 0" using peer_list_bound [OF assms] by (simp_all add: const_defs peer_list_payload_def)
  then have "args_ok None 0 (Some (peer_list_payload eps)) ?n" by (simp add: args_ok_def)
  from header_msg_ok [OF this] n(2)
  show "cluster_msg_ok (peer_list_msg cfg eps)" "cf_opcode (fst (peer_list_msg cfg eps)) = OP_CLUSTER_PEER_LIST"
    "unat (cf_value_len (fst (peer_list_msg cfg eps))) = ?n"
    "payload_opt (snd (peer_list_msg cfg eps)) = Some (peer_list_payload eps)"
    by (simp_all add: peer_list_msg_def args_payload_def payload_opt_def cluster_header_def)
qed

lemma send_hello_answered:
  assumes cfg: "cfg_ok cfg" and conn: "connect_endpoint (w_net (nd_world st) 0) ep = Some s"
    and live: "tx_live (length (cluster_wire (hello_msg cfg))) (s_tx s)" and mem: "w_mem (nd_world st) 0"
    and stream: "stream_of (s_rx s) = cluster_wire (peer_list_msg srv eps) @ rest"
    and eps: "list_all ep_ok eps" "length eps \<le> DMMR_MAX_DISCOVERED_PEERS"
  shows "\<exists>s'. s_out s' = s_out s @ cluster_wire (hello_msg cfg) \<and> send_hello cfg ep st =
     (case add_all cfg eps (st\<lparr>nd_world := snd (draw_mem (snd (draw_net (nd_world st))))\<rparr>) of
        Done st' \<Rightarrow> Done (0, filter (foreign cfg) eps, Some s', st') | Blocked \<Rightarrow> Blocked | Fault \<Rightarrow> Fault)"
proof -
  let ?a = "cluster_advertise_address cfg" and ?n = "2 + 1 + length (cluster_name cfg)"
  have args: "args_ok (Some ?a) (length ?a) (Some (hello_value cfg)) ?n"
    using cfg by (simp add: args_ok_def cfg_ok_def const_defs)
  have "(cluster_header cfg OP_CLUSTER_HELLO FLAG_NONE (length ?a) ?n 0 (cfg_node_id cfg) 0,
      args_payload (Some ?a) (length ?a) (Some (hello_value cfg)) ?n) = hello_msg cfg"
    by (simp add: hello_msg_def args_payload_def hello_value_def)
  with cluster_send_live [OF args, of cfg OP_CLUSTER_HELLO FLAG_NONE 0 "cfg_node_id cfg" 0 0 s] live
  obtain t e where s1: "cluster_send_frame cfg OP_CLUSTER_HELLO FLAG_NONE (Some ?a) (length ?a) (Some (hello_value cfg)) ?n
      0 (cfg_node_id cfg) 0 s = Some (0, s\<lparr>s_tx := t, s_errno_eintr := e, s_out := s_out s @ cluster_wire (hello_msg cfg)\<rparr>)"
    by auto
  let ?s1 = "s\<lparr>s_tx := t, s_errno_eintr := e, s_out := s_out s @ cluster_wire (hello_msg cfg)\<rparr>"
  note m = peer_list_msg_ok [OF eps, of srv]
  obtain evs where r: "cluster_recv_frame True ?s1
      = Some (Some (fst (peer_list_msg srv eps), Some (peer_list_payload eps)), ?s1\<lparr>s_rx := evs\<rparr>)"
    using cluster_recv_msg [OF m(1), of ?s1 rest] stream m(4) by auto
  let ?st = "st\<lparr>nd_world := snd (draw_mem (snd (draw_net (nd_world st))))\<rparr>"
  have "send_hello cfg ep st = (case parse_peer_list cfg (Some (peer_list_payload eps)) (length (peer_list_payload eps)) ?st of
      Done (rc, items, st3) \<Rightarrow> Done (if rc \<noteq> 0 then - 1 else 0, items, Some ((?s1\<lparr>s_rx := evs\<rparr>)\<lparr>s_open := False\<rparr>), st3)
    | Blocked \<Rightarrow> Blocked | Fault \<Rightarrow> Fault)"
    unfolding send_hello_def using conn s1 r mem m(2,3)
    by (simp add: draw_net_def draw_mem_def cong: run.case_cong)
  then show ?thesis
    unfolding parse_peer_list_all [OF eps]
    by (intro exI [of _ "(?s1\<lparr>s_rx := evs\<rparr>)\<lparr>s_open := False\<rparr>"]) (simp split: run.splits)
qed

lemma handle_hello_eq:
  assumes "cfg_ok cli"
  shows "handle_cluster_hello srv t (fst (hello_msg cli)) (Some (snd (hello_msg cli))) st =
      (if cluster_name srv \<noteq> [] \<and> cluster_name srv \<noteq> cluster_name cli then Done (- 1, t, st)
       else case add_peer_with_node srv (Some (cluster_advertise_address cli)) (uint (cluster_advertise_port cli))
                   (cfg_node_id cli) st of
         Done st1 \<Rightarrow> send_peer_list srv t st1 | Blocked \<Rightarrow> Blocked | Fault \<Rightarrow> Fault)"
proof -
  have "cf_node_id (fst (hello_msg cli)) = cfg_node_id cli" by (simp add: hello_msg_def cluster_header_def)
  with hello_lengths [OF assms] hello_parsed [OF assms] assms show ?thesis
    by (simp add: handle_cluster_hello_def Let_def c_string_id codec_simps cfg_ok_def)
qed

lemma send_peer_list_peers: "send_peer_list cfg s st = Done (rc, s', st') \<Longrightarrow> nd_peers st' = nd_peers st"
  by (auto simp: send_peer_list_def Let_def split: if_splits prod.splits option.splits)

text \<open>An endpoint of a list that no other entry of the list shares its node id or its address and port with.\<close>

definition unambiguous :: "peer_endpoint list \<Rightarrow> peer_endpoint \<Rightarrow> bool" where
  "unambiguous eps e \<longleftrightarrow> ep_node_id e \<noteq> 0 \<and> (\<forall>e' \<in> set eps. e' \<noteq> e \<longrightarrow>
     ep_node_id e' \<noteq> ep_node_id e \<and> (ep_addr e', ep_port e') \<noteq> (ep_addr e, ep_port e))"

lemma refresh_first_keeps:
  "refresh_first a port node seed now peers = Some peers' \<Longrightarrow> p \<in> set peers \<Longrightarrow> \<not> peer_matches a port node p \<Longrightarrow>
   p \<in> set peers'"
  by (induction peers arbitrary: peers') (auto split: if_splits)

lemma add_peer_keeps:
  assumes "add_peer_internal cfg (Some a) port node seed st = Done st'" and "p \<in> set (nd_peers st)"
    and "\<not> peer_matches a (of_int port) node p"
  shows "p \<in> set (nd_peers st')"
  using assms(1) by (cases rule: add_peer_cases) (use assms(2,3) refresh_first_keeps in auto)

lemma add_all_registered:
  assumes "add_all cfg eps st = Done st'" and "list_all (peer_ok cfg) (nd_peers st)" and "\<And>n. w_mem (nd_world st) n"
    and "e \<in> set eps \<or> (\<exists>p \<in> set (nd_peers st). peer_ep p = e)"
    and "ep_ok e" and "ep_port e \<noteq> 0" and "foreign cfg e" and "unambiguous eps e"
  shows "\<exists>p \<in> set (nd_peers st'). peer_ep p = e"
  using assms(1-4,8)
proof (induction eps arbitrary: st)
  case (Cons ep eps)
  from Cons.prems(1) obtain st1 where
    add: "add_peer_internal cfg (Some (ep_addr ep)) (uint (ep_port ep)) (ep_node_id ep) False st = Done st1"
    and rest: "add_all cfg eps st1 = Done st'"
    by (auto simp: add_peer_with_node_def split: run.splits)
  have "e \<in> set eps \<or> (\<exists>p \<in> set (nd_peers st1). peer_ep p = e)"
  proof (cases "ep = e")
    case True
    have "uint (ep_port e) \<noteq> 0" using assms(6) by (simp add: uint_0_iff)
    then have "1 \<le> uint (ep_port e)" "uint (ep_port e) \<le> 65535"
      using uint_ge_0 [of "ep_port e"] uint_lt2p [of "ep_port e"] by (linarith, simp)
    from add_peer_registered [OF Cons.prems(2,3) add [unfolded True] this] assms(5,7) Cons.prems(5) show ?thesis
      by (auto simp: ep_ok_def foreign_def unambiguous_def peer_ep_eq)
  next
    case False
    then have "\<not> peer_matches (ep_addr ep) (of_int (uint (ep_port ep))) (ep_node_id ep) p" if "peer_ep p = e" for p
      using Cons.prems(5) that by (auto simp: unambiguous_def peer_matches_def peer_ep_eq)
    with False Cons.prems(4) add_peer_keeps [OF add] show ?thesis by auto
  qed
  moreover have "unambiguous eps e" using Cons.prems(5) by (simp add: unambiguous_def)
  ultimately show ?case
    using Cons.IH [OF rest add_peer_internal_ok(1) [OF Cons.prems(2) add] add_peer_mem [OF add Cons.prems(3)]] by blast
qed auto

lemma send_hello_registers:
  assumes "cfg_ok cfg" and "connect_endpoint (w_net (nd_world st) 0) ep = Some s"
    and "tx_live (length (cluster_wire (hello_msg cfg))) (s_tx s)" and "\<And>n. w_mem (nd_world st) n"
    and "stream_of (s_rx s) = cluster_wire (peer_list_msg srv eps) @ rest"
    and "list_all ep_ok eps" and "length eps \<le> DMMR_MAX_DISCOVERED_PEERS" and "\<forall>e \<in> set eps. ep_port e \<noteq> 0"
    and "list_all (peer_ok cfg) (nd_peers st)" and "\<not> peers_locked st"
  shows "\<exists>s' st'. send_hello cfg ep st = Done (0, filter (foreign cfg) eps, Some s', st')
     \<and> s_out s' = s_out s @ cluster_wire (hello_msg cfg) \<and> list_all (peer_ok cfg) (nd_peers st')
     \<and> (\<forall>e \<in> set eps. foreign cfg e \<and> unambiguous eps e \<longrightarrow> (\<exists>p \<in> set (nd_peers st'). peer_ep p = e))"
proof -
  let ?st = "st\<lparr>nd_world := snd (draw_mem (snd (draw_net (nd_world st))))\<rparr>"
  obtain s' where s': "s_out s' = s_out s @ cluster_wire (hello_msg cfg)" "send_hello cfg ep st =
     (case add_all cfg eps ?st of
        Done st' \<Rightarrow> Done (0, filter (foreign cfg) eps, Some s', st') | Blocked \<Rightarrow> Blocked | Fault \<Rightarrow> Fault)"
    using send_hello_answered [OF assms(1-3) _ assms(5-7)] assms(4) by blast
  obtain st' where st': "add_all cfg eps ?st = Done st'" "list_all (peer_ok cfg) (nd_peers st')"
    using add_all_ok [of cfg ?st eps] assms(9,10) by auto
  have mem: "w_mem (nd_world ?st) n" for n using assms(4) by (simp add: draw_mem_def draw_net_def)
  have "\<exists>p \<in> set (nd_peers st'). peer_ep p = e" if "e \<in> set eps" "foreign cfg e" "unambiguous eps e" for e
    using add_all_registered [OF st'(1) _ mem, of e] that assms(6,8,9) by (auto simp: list_all_iff)
  with s' st' show ?thesis by auto
qed

text \<open>With the lock of the peer list held, an answer that names a usable endpoint is never processed.\<close>

lemma add_all_locked:
  assumes "peers_locked st" and "\<exists>ep \<in> set eps. ep_ok ep \<and> ep_port ep \<noteq> 0 \<and> foreign cfg ep"
  shows "add_all cfg eps st = Blocked"
  using assms
proof (induction eps)
  case (Cons ep eps)
  let ?add = "add_peer_internal cfg (Some (ep_addr ep)) (uint (ep_port ep)) (ep_node_id ep) False st"
  have "?add = Done st \<or> ?add = Blocked"
    using Cons.prems(1) by (auto simp: add_peer_internal_def)
  moreover have "?add = Blocked" if "ep_ok ep" "ep_port ep \<noteq> 0" "foreign cfg ep"
  proof -
    have "1 \<le> uint (ep_port ep)" using that(2) uint_0_iff [of "ep_port ep"] uint_ge_0 [of "ep_port ep"] by linarith
    moreover have "uint (ep_port ep) \<le> 65535" using uint_lt2p [of "ep_port ep"] by simp
    ultimately show ?thesis
      using that Cons.prems(1) by (simp add: add_peer_internal_def ep_ok_def foreign_def)
  qed
  ultimately show ?case using Cons by (fastforce simp: add_peer_with_node_def)
qed simp

section \<open>The reaper\<close>

definition reap_exempt :: "cluster_cfg \<Rightarrow> peer_conn \<Rightarrow> bool" where
  "reap_exempt cfg p \<longleftrightarrow> pc_is_seed p \<or> pc_node_id p = cfg_node_id cfg"

definition reap_keep :: "cluster_cfg \<Rightarrow> int \<Rightarrow> peer_conn \<Rightarrow> bool" where
  "reap_keep cfg now p \<longleftrightarrow> reap_exempt cfg p \<or> \<not> reap_idle now p"

definition reap_mark :: "cluster_cfg \<Rightarrow> int \<Rightarrow> peer_conn \<Rightarrow> peer_conn" where
  "reap_mark cfg now p = (if \<not> reap_exempt cfg p \<and> reap_check now p then p\<lparr>pc_last_healthcheck := now\<rparr> else p)"

lemma reap_walk_result:
  "reap_walk cfg now kept ps st = Done st' \<Longrightarrow>
   nd_peers st' = kept @ map (reap_mark cfg now) (filter (reap_keep cfg now) ps)"
  by (induction cfg now kept ps st rule: reap_walk.induct)
    (auto simp: reap_keep_def reap_mark_def reap_exempt_def split: if_splits run.splits)

lemma reap_walk_returns:
  "(\<And>p. p \<in> set ps \<Longrightarrow> reap_exempt cfg p \<or> reap_idle now p \<or> \<not> reap_check now p) \<Longrightarrow>
   \<exists>st'. reap_walk cfg now kept ps st = Done st' \<and> nd_dbp st' = nd_dbp st"
proof (induction ps arbitrary: kept)
  case (Cons p ps)
  then show ?case using Cons.prems [of p] by (auto simp: reap_exempt_def)
qed simp

section \<open>Properties\<close>

text \<open>C34: reading a peer list is memory safe.  For every payload and every announced length within it, the
  parser returns or waits for the peer list's lock but never reads outside the payload; when it returns, the
  peer list is well-formed, it reports at most 128 endpoints, and none of them is this node.\<close>

theorem parse_peer_list_safe:
  assumes "payload_len \<le> length payload"
  shows "parse_peer_list cfg (Some payload) payload_len st \<noteq> Fault
     \<and> (\<forall>rc items st'. parse_peer_list cfg (Some payload) payload_len st = Done (rc, items, st')
          \<and> list_all (peer_ok cfg) (nd_peers st) \<longrightarrow>
          list_all (peer_ok cfg) (nd_peers st') \<and> length items \<le> 128 \<and> nd_dbp st' = nd_dbp st
          \<and> (\<forall>ep \<in> set items. \<not> endpoint_is_self cfg (ep_addr ep) (ep_port ep) (ep_node_id ep)))"
proof (cases "payload_len < 2")
  case True
  then show ?thesis by (simp add: parse_peer_list_def)
next
  case False
  then have "rd 0 2 payload = Some (sub 0 2 payload)" using assms by (simp add: rd_def)
  then have e: "parse_peer_list cfg (Some payload) payload_len st
      = parse_entries cfg payload payload_len (unat (ntohs (of_le (sub 0 2 payload)) :: u16)) 2 [] st"
    using False by (simp add: parse_peer_list_def)
  define n where "n = unat (ntohs (of_le (sub 0 2 payload)) :: u16)"
  have "parse_entries cfg payload payload_len n 2 [] st \<noteq> Fault" by (rule parse_entries_safe(1) [OF assms])
  moreover have "list_all (peer_ok cfg) (nd_peers st') \<and> length items \<le> 128 \<and> nd_dbp st' = nd_dbp st
      \<and> (\<forall>ep \<in> set items. \<not> endpoint_is_self cfg (ep_addr ep) (ep_port ep) (ep_node_id ep))"
    if "parse_entries cfg payload payload_len n 2 [] st = Done (rc, items, st')" "list_all (peer_ok cfg) (nd_peers st)"
    for rc items st'
  proof -
    have "list_all (peer_ok cfg) (nd_peers st') \<and> length items \<le> DMMR_MAX_DISCOVERED_PEERS
      \<and> list_all (foreign cfg) items \<and> nd_dbp st' = nd_dbp st \<and> peers_locked st' = peers_locked st"
      by (rule parse_entries_safe(2) [OF assms that]) simp_all
    then show ?thesis by (simp add: const_defs list_all_iff [of "foreign cfg"] foreign_def)
  qed
  ultimately show ?thesis unfolding e n_def by blast
qed

text \<open>Peer lists survive the wire.  What one node encodes from up to 128 endpoints with non-empty addresses
  of at most 255 bytes, another decodes to the same endpoints in the same order, leaving out only itself,
  and each of them has been announced to its peer list, which stays well-formed.\<close>

theorem peer_list_roundtrip:
  assumes "list_all ep_ok eps" and "length eps \<le> DMMR_MAX_DISCOVERED_PEERS"
    and "list_all (peer_ok cfg) (nd_peers st)" and "\<not> peers_locked st"
  shows "\<exists>st'. parse_peer_list cfg (Some (peer_list_payload eps)) (length (peer_list_payload eps)) st
       = Done (0, filter (\<lambda>ep. \<not> endpoint_is_self cfg (ep_addr ep) (ep_port ep) (ep_node_id ep)) eps, st')
     \<and> add_all cfg eps st = Done st' \<and> list_all (peer_ok cfg) (nd_peers st')"
proof -
  have "filter (foreign cfg) eps = filter (\<lambda>ep. \<not> endpoint_is_self cfg (ep_addr ep) (ep_port ep) (ep_node_id ep)) eps"
    by (rule filter_cong) (simp_all add: foreign_def)
  with add_all_ok [OF assms(3,4), of eps] parse_peer_list_all [OF assms(1,2), of cfg st] show ?thesis by auto
qed

text \<open>C35: a \<open>HELLO\<close> introduces two nodes to each other, and only within one cluster.  When the server has no
  cluster name or the client's name is the same, the server registers the client under its advertised address, port
  and node id and answers with (the first 128 of) its peers.  A client that has sent the \<open>HELLO\<close> and reads this
  answer reports exactly the listed endpoints other than itself, and in its peer list every one of them is registered
  that has a node id and shares neither it nor its address with another entry of the list.  When the names
  differ the server registers nothing and answers nothing.\<close>

theorem hello_exchange:
  assumes "cfg_ok cli" and "list_all (peer_ok srv) (nd_peers st)" and "addrs_strings (nd_peers st)"
    and "\<not> peers_locked st" and "\<And>n. w_mem (nd_world st) n" and "tx_live 34098 (s_tx t)"
    and "\<not> endpoint_is_self srv (cluster_advertise_address cli) (cluster_advertise_port cli) (cfg_node_id cli)"
    and "connect_endpoint (w_net (nd_world ct) 0) ep = Some s"
    and "tx_live (length (cluster_wire (hello_msg cli))) (s_tx s)" and "\<And>n. w_mem (nd_world ct) n"
    and "list_all (peer_ok cli) (nd_peers ct)" and "\<not> peers_locked ct"
  shows "if cluster_name srv = [] \<or> cluster_name srv = cluster_name cli
     then \<exists>t' st' answer. handle_cluster_hello srv t (fst (hello_msg cli)) (Some (snd (hello_msg cli))) st = Done (0, t', st')
       \<and> (\<exists>p \<in> set (nd_peers st'). pc_addr p = cluster_advertise_address cli \<and> pc_port p = cluster_advertise_port cli
            \<and> pc_node_id p = cfg_node_id cli)
       \<and> list_all (peer_ok srv) (nd_peers st')
       \<and> s_out t' = s_out t @ answer
       \<and> answer = cluster_wire (peer_list_msg srv (map peer_ep (take 128 (nd_peers st'))))
       \<and> (stream_of (s_rx s) = answer \<longrightarrow>
            (let eps = map peer_ep (take 128 (nd_peers st')) in
             \<exists>s' ct'. send_hello cli ep ct = Done (0, filter (foreign cli) eps, Some s', ct')
               \<and> s_out s' = s_out s @ cluster_wire (hello_msg cli) \<and> list_all (peer_ok cli) (nd_peers ct')
               \<and> (\<forall>e \<in> set eps. foreign cli e \<and> unambiguous eps e \<longrightarrow> (\<exists>p \<in> set (nd_peers ct'). peer_ep p = e))))
     else handle_cluster_hello srv t (fst (hello_msg cli)) (Some (snd (hello_msg cli))) st = Done (- 1, t, st)"
proof -
  let ?a = "cluster_advertise_address cli" and ?port = "cluster_advertise_port cli" and ?node = "cfg_node_id cli"
  have a: "?a \<noteq> []" "length ?a \<le> DMMR_PEER_ADDR_MAX" "0 \<notin> set ?a" "?port \<noteq> 0" "?node \<noteq> 0"
    using assms(1) by (simp_all add: cfg_ok_def)
  have port: "1 \<le> uint ?port" "uint ?port \<le> 65535" "(of_int (uint ?port) :: u16) = ?port"
  proof -
    have "uint ?port \<noteq> 0" using a(4) by (simp add: uint_0_iff)
    then show "1 \<le> uint ?port" using uint_ge_0 [of ?port] by linarith
    show "uint ?port \<le> 65535" using uint_lt2p [of ?port] by simp
  qed simp
  note eq = handle_hello_eq [OF assms(1), of srv t st]
  show ?thesis
  proof (cases "cluster_name srv = [] \<or> cluster_name srv = cluster_name cli")
    case False
    with eq show ?thesis by simp
  next
    case True
    from add_peer_unlocked [OF assms(4)] obtain st1 where
      st1: "add_peer_internal srv (Some ?a) (uint ?port) ?node False st = Done st1" by blast
    note ok = add_peer_internal_ok [OF assms(2) st1]
    have reg: "\<exists>p \<in> set (nd_peers st1). pc_addr p = ?a \<and> pc_port p = ?port \<and> pc_node_id p = ?node"
      using add_peer_registered [OF assms(2,5) st1 port(1,2) a(1,2)] assms(7) port(3) a(5) by auto
    from send_peer_list_live [OF ok(1) add_peer_addrs [OF st1 a(3) assms(3)] _ add_peer_mem [OF st1 assms(5)] assms(6)]
    obtain t' where "send_peer_list srv t st1 = Done (0, t', st1\<lparr>nd_world := snd (draw_mem (nd_world st1))\<rparr>)"
      "s_out t' = s_out t @ cluster_wire (peer_list_msg srv (map peer_ep (take DMMR_MAX_DISCOVERED_PEERS (nd_peers st1))))"
      using ok(3) assms(4) by auto
    moreover define eps where "eps = map peer_ep (take 128 (nd_peers st1))"
    moreover have "list_all ep_ok eps" "length eps \<le> DMMR_MAX_DISCOVERED_PEERS" "\<forall>e \<in> set eps. ep_port e \<noteq> 0"
      using peers_ep_ok [OF ok(1) add_peer_addrs [OF st1 a(3) assms(3)], of 128] ok(1)
      by (auto simp: eps_def const_defs peer_ep_def peer_ok_def address_ok_def list_all_iff dest: in_set_takeD)
    from send_hello_registers [OF assms(1,8-10) _ this assms(11,12), of srv "[]"]
    have "stream_of (s_rx s) = cluster_wire (peer_list_msg srv eps) \<longrightarrow>
       (\<exists>s' ct'. send_hello cli ep ct = Done (0, filter (foreign cli) eps, Some s', ct')
               \<and> s_out s' = s_out s @ cluster_wire (hello_msg cli) \<and> list_all (peer_ok cli) (nd_peers ct')
               \<and> (\<forall>e \<in> set eps. foreign cli e \<and> unambiguous eps e \<longrightarrow> (\<exists>p \<in> set (nd_peers ct'). peer_ep p = e)))"
      by simp
    ultimately show ?thesis
      using True eq st1 ok reg
      by (intro exI [of _ t'] exI [of _ "st1\<lparr>nd_world := snd (draw_mem (nd_world st1))\<rparr>"]
          exI [of _ "cluster_wire (peer_list_msg srv eps)"] | simp add: add_peer_with_node_def const_defs)+
  qed
qed

text \<open>Seeds are read as they are written.  \<open>host:port\<close> and \<open>[host]:port\<close> in decimal are parsed to that host
  and port, for every port from 1 to 65535 and every non-empty host of at most 255 bytes (not starting with a
  bracket in the first form, which may contain colons, and without a closing bracket in the second); port 0
  and ports above 65535 are refused.\<close>

theorem parse_seed_roundtrip:
  assumes "host \<noteq> []" and "length host \<le> DMMR_PEER_ADDR_MAX" and "port < 2 ^ 63"
  shows "(hd host \<noteq> 91 \<longrightarrow> parse_seed (Some (host @ [58] @ dec_digits port)) =
            (if 1 \<le> port \<and> port \<le> 65535 then Some \<lparr>ep_addr = host, ep_port = of_nat port, ep_node_id = 0\<rparr> else None))
     \<and> (93 \<notin> set host \<longrightarrow> parse_seed (Some ([91] @ host @ [93, 58] @ dec_digits port)) =
            (if 1 \<le> port \<and> port \<le> 65535 then Some \<lparr>ep_addr = host, ep_port = of_nat port, ep_node_id = 0\<rparr> else None))"
proof -
  have "58 \<notin> set (dec_digits port)"
    using dec_digits_digits [of port] by (auto simp: is_digit_def)
  then have c: "strrchr 58 (host @ 58 # dec_digits port) = Some (length host)" by (rule strrchr_last)
  have n: "strtol 10 (dec_digits port) = (False, int port, [])" using assms(3) strtol_dec by simp
  have "parse_seed (Some (host @ 58 # dec_digits port)) =
      (if 1 \<le> port \<and> port \<le> 65535 then Some \<lparr>ep_addr = host, ep_port = of_nat port, ep_node_id = 0\<rparr> else None)"
    if "hd host \<noteq> 91"
    using that assms(1,2) c n by (auto simp: parse_seed_def)
  moreover have "parse_seed (Some (91 # host @ 93 # 58 # dec_digits port)) =
      (if 1 \<le> port \<and> port \<le> 65535 then Some \<lparr>ep_addr = host, ep_port = of_nat port, ep_node_id = 0\<rparr> else None)"
    if "93 \<notin> set host"
    using strchr_first [OF that, of "58 # dec_digits port"] assms(1,2) n by (auto simp: parse_seed_def)
  ultimately show ?thesis by simp
qed

text \<open>The reaper retires exactly the idle peers.  A pass that returns has removed precisely the peers that
  are neither static nor this node, have nothing waiting, and showed no activity for more than 300 seconds;
  all others are still there in their order, changed at most in the time of their last health check.  A pass
  in which no peer is due for a health check returns.\<close>

theorem reaper_evicts_idle:
  assumes "\<not> peers_locked st"
  defines "now \<equiv> w_time (nd_world st) 0"
  shows "(\<forall>st'. reaper_pass cfg st = Done st' \<longrightarrow>
      map (\<lambda>p. p\<lparr>pc_last_healthcheck := 0\<rparr>) (nd_peers st') =
        map (\<lambda>p. p\<lparr>pc_last_healthcheck := 0\<rparr>)
          (filter (\<lambda>p. pc_is_seed p \<or> pc_node_id p = cfg_node_id cfg \<or> pc_outbox_count p \<noteq> 0
                     \<or> now - pc_last_activity p \<le> 300) (nd_peers st)))
     \<and> ((\<forall>p \<in> set (nd_peers st). pc_stale_count p = 0) \<longrightarrow> (\<exists>st'. reaper_pass cfg st = Done st'))"
proof -
  let ?w = "snd (draw_time (nd_world st))"
  have e: "reaper_pass cfg st = reap_walk cfg now [] (nd_peers st) (st\<lparr>nd_world := ?w\<rparr>)"
    using assms(1) by (simp add: reaper_pass_def draw_time_def now_def)
  have k: "filter (\<lambda>p. pc_is_seed p \<or> pc_node_id p = cfg_node_id cfg \<or> pc_outbox_count p \<noteq> 0
      \<or> now - pc_last_activity p \<le> 300) ps = filter (reap_keep cfg now) ps" for ps
    by (rule filter_cong) (auto simp: reap_keep_def reap_exempt_def reap_idle_def const_defs)
  have m: "(\<lambda>p. p\<lparr>pc_last_healthcheck := 0\<rparr>) \<circ> reap_mark cfg now = (\<lambda>p. p\<lparr>pc_last_healthcheck := 0\<rparr>)"
    by (auto simp: reap_mark_def)
  have "reap_exempt cfg p \<or> reap_idle now p \<or> \<not> reap_check now p" if "pc_stale_count p = 0" for p
    using that by (simp add: reap_check_def)
  then have "(\<forall>p \<in> set (nd_peers st). pc_stale_count p = 0) \<longrightarrow>
      (\<exists>st'. reap_walk cfg now [] (nd_peers st) (st\<lparr>nd_world := ?w\<rparr>) = Done st')"
    using reap_walk_returns [of "nd_peers st" cfg now "[]" "st\<lparr>nd_world := ?w\<rparr>"] by blast
  moreover have "map (\<lambda>p. p\<lparr>pc_last_healthcheck := 0\<rparr>) (nd_peers st') =
      map (\<lambda>p. p\<lparr>pc_last_healthcheck := 0\<rparr>) (filter (reap_keep cfg now) (nd_peers st))"
    if "reap_walk cfg now [] (nd_peers st) (st\<lparr>nd_world := ?w\<rparr>) = Done st'" for st'
    using reap_walk_result [OF that] by (simp add: m)
  ultimately show ?thesis unfolding e k by blast
qed

text \<open>C36: a health check can stop the reaper for ever.  The reaper holds the lock of the peer list while it
  sends \<open>HELLO\<close> to a stale peer; if that peer answers with a list that names any usable endpoint other than
  this node, the parser asks for the same lock and neither ever returns, with the list locked.\<close>

theorem reaper_health_check_deadlocks:
  assumes "cfg_ok cfg" and "\<not> peers_locked st" and "nd_peers st = p # ps"
    and "\<not> pc_is_seed p" and "pc_node_id p \<noteq> cfg_node_id cfg" and "length (pc_addr p) \<le> DMMR_PEER_ADDR_MAX"
    and "\<not> reap_idle (w_time (nd_world st) 0) p" and "reap_check (w_time (nd_world st) 0) p"
    and "connect_endpoint (w_net (nd_world st) 0) (peer_ep p) = Some s" and "w_mem (nd_world st) 0"
    and "tx_live (length (cluster_wire (hello_msg cfg))) (s_tx s)"
    and "stream_of (s_rx s) = cluster_wire (peer_list_msg srv eps) @ rest"
    and "list_all ep_ok eps" and "length eps \<le> DMMR_MAX_DISCOVERED_PEERS"
    and "\<exists>ep \<in> set eps. ep_port ep \<noteq> 0 \<and> \<not> endpoint_is_self cfg (ep_addr ep) (ep_port ep) (ep_node_id ep)"
  shows "reaper_pass cfg st = Blocked"
proof -
  let ?w = "snd (draw_time (nd_world st))"
  let ?st = "st\<lparr>nd_world := ?w, nd_peers := p # ps, peers_locked := True\<rparr>"
  have "\<exists>ep \<in> set eps. ep_ok ep \<and> ep_port ep \<noteq> 0 \<and> foreign cfg ep"
    using assms(13,15) by (auto simp: foreign_def list_all_iff)
  then have "add_all cfg eps (?st\<lparr>nd_world := snd (draw_mem (snd (draw_net (nd_world ?st))))\<rparr>) = Blocked"
    by (intro add_all_locked) simp_all
  moreover have "connect_endpoint (w_net (nd_world ?st) 0) (peer_ep p) = Some s" "w_mem (nd_world ?st) 0"
    using assms(9,10) by (simp_all add: draw_time_def)
  ultimately have "send_hello cfg (peer_ep p) ?st = Blocked"
    using send_hello_answered [of cfg ?st "peer_ep p" s srv eps rest] assms(1,11-14) by auto
  then show ?thesis
    using assms(2-8) by (simp add: reaper_pass_def draw_time_def peer_ep_def)
qed

section \<open>Instances\<close>

theorem parse_peer_list_safe_witness:
  "parse_peer_list demo_cfg (Some [0, 9, 1, 2, 3]) 4 demo_node \<noteq> Fault"
  using parse_peer_list_safe [of 4 "[0, 9, 1, 2, 3]" demo_cfg demo_node] by simp

definition demo_eps :: "peer_endpoint list" where
  "demo_eps = [\<lparr>ep_addr = cstr ''c'', ep_port = 9, ep_node_id = 6\<rparr>, \<lparr>ep_addr = cstr ''10.0.0.1'', ep_port = 9081, ep_node_id = 7\<rparr>]"

lemma demo_eps_ok: "list_all ep_ok demo_eps" "length demo_eps \<le> DMMR_MAX_DISCOVERED_PEERS"
  by (simp_all add: demo_eps_def ep_ok_def const_defs)

lemma demo_unlocked: "\<not> peers_locked demo_node" "w_mem (nd_world demo_node) n"
  by (simp_all add: demo_node_def demo_world_def)

theorem peer_list_roundtrip_witness:
  "\<exists>st'. parse_peer_list demo_cfg (Some (peer_list_payload demo_eps)) (length (peer_list_payload demo_eps)) demo_node
     = Done (0, [\<lparr>ep_addr = cstr ''c'', ep_port = 9, ep_node_id = 6\<rparr>], st')"
  using peer_list_roundtrip [OF demo_eps_ok demo_node_ok demo_unlocked(1)]
  by (auto simp: demo_eps_def endpoint_is_self_def demo_cfg_def)

definition big_sock :: "bytes \<Rightarrow> sock" where
  "big_sock bs = (wire_sock bs)\<lparr>s_tx := replicate 40000 (TxTake 1)\<rparr>"

lemma big_sock_simps [simp]:
  "bs \<noteq> [] \<Longrightarrow> stream_of (s_rx (big_sock bs)) = bs" "bs \<noteq> [] \<Longrightarrow> stream_end (s_rx (big_sock bs)) = EndEof"
  "s_out (big_sock bs) = []" "s_open (big_sock bs)" "n \<le> 40000 \<Longrightarrow> tx_live n (s_tx (big_sock bs))"
  by (simp_all add: big_sock_def tx_live_def)

lemma demo_cfg_ok: "cfg_ok demo_cfg"
  by (simp add: cfg_ok_def demo_cfg_def const_defs)

definition demo_peer_cfg :: cluster_cfg where
  "demo_peer_cfg = demo_cfg\<lparr>cluster_advertise_address := cstr ''10.0.0.2'', cfg_node_id := 8\<rparr>"

lemma demo_peer_cfg_ok: "cfg_ok demo_peer_cfg"
  by (simp add: cfg_ok_def demo_peer_cfg_def demo_cfg_def const_defs)

definition hello_answer :: bytes where
  "hello_answer = (case handle_cluster_hello demo_cfg (big_sock []) (fst (hello_msg demo_peer_cfg))
       (Some (snd (hello_msg demo_peer_cfg))) demo_node of Done (rc, t, st) \<Rightarrow> s_out t | _ \<Rightarrow> [])"

definition demo_caller :: "(bytes \<rightharpoonup> bytes) node" where
  "demo_caller = demo_node\<lparr>nd_peers := [], nd_world := demo_world\<lparr>w_net := (\<lambda>n host port. Some [(True, Some (big_sock hello_answer))])\<rparr>\<rparr>"

definition demo_seed_ep :: peer_endpoint where
  "demo_seed_ep = \<lparr>ep_addr = cstr ''10.0.0.1'', ep_port = 9081, ep_node_id = 0\<rparr>"

text \<open>A caller that knows nobody learns of the server's peer.\<close>

theorem hello_exchange_witness:
  "\<exists>t' st' items s' ct'. handle_cluster_hello demo_cfg (big_sock []) (fst (hello_msg demo_peer_cfg)) (Some (snd (hello_msg demo_peer_cfg))) demo_node
       = Done (0, t', st')
     \<and> (\<exists>p \<in> set (nd_peers st'). pc_addr p = cstr ''10.0.0.2'' \<and> pc_node_id p = 8)
     \<and> send_hello demo_peer_cfg demo_seed_ep demo_caller = Done (0, items, Some s', ct')
     \<and> (\<exists>p \<in> set (nd_peers ct'). peer_ep p = \<lparr>ep_addr = cstr ''a'', ep_port = 1, ep_node_id = 5\<rparr>)"
proof -
  let ?e = "\<lparr>ep_addr = cstr ''a'', ep_port = 1, ep_node_id = 5\<rparr>"
  have str: "addrs_strings (nd_peers demo_node)"
    by (simp add: addrs_strings_def demo_node_def peer_new_def strlcpy_text_def const_defs)
  have self: "\<not> endpoint_is_self demo_cfg (cluster_advertise_address demo_peer_cfg) (cluster_advertise_port demo_peer_cfg)
      (cfg_node_id demo_peer_cfg)" by (simp add: endpoint_is_self_def demo_cfg_def demo_peer_cfg_def)
  have name: "cluster_name demo_cfg = cluster_name demo_peer_cfg" by (simp add: demo_peer_cfg_def)
  have adv: "cluster_advertise_address demo_peer_cfg = cstr ''10.0.0.2''" "cfg_node_id demo_peer_cfg = 8"
    "cluster_advertise_port demo_peer_cfg = 9081"
    by (simp_all add: demo_peer_cfg_def demo_cfg_def)
  have caller: "connect_endpoint (w_net (nd_world demo_caller) 0) demo_seed_ep = Some (big_sock hello_answer)"
    "w_mem (nd_world demo_caller) n" "list_all (peer_ok demo_peer_cfg) (nd_peers demo_caller)" "\<not> peers_locked demo_caller" for n
    by (simp_all add: demo_caller_def connect_endpoint_def demo_world_def demo_node_def)
  have live: "tx_live (length (cluster_wire (hello_msg demo_peer_cfg))) (s_tx (big_sock hello_answer))"
    by (rule big_sock_simps) (simp add: length_cluster_wire hello_msg_def demo_peer_cfg_def demo_cfg_def hello_value_def)
  have tx: "tx_live 34098 (s_tx (big_sock []))" by simp
  have "cluster_name demo_cfg = [] \<or> cluster_name demo_cfg = cluster_name demo_peer_cfg" using name by simp
  note h = hello_exchange [OF demo_peer_cfg_ok demo_node_ok str demo_unlocked(1) demo_unlocked(2) tx self caller(1) live caller(2-4),
      unfolded if_P [OF this]]
  then obtain t' st' answer where srv: "handle_cluster_hello demo_cfg (big_sock []) (fst (hello_msg demo_peer_cfg))
         (Some (snd (hello_msg demo_peer_cfg))) demo_node = Done (0, t', st')"
    and reg: "\<exists>p \<in> set (nd_peers st'). pc_addr p = cluster_advertise_address demo_peer_cfg
       \<and> pc_port p = cluster_advertise_port demo_peer_cfg \<and> pc_node_id p = cfg_node_id demo_peer_cfg"
    and ans: "s_out t' = s_out (big_sock []) @ answer"
      "answer = cluster_wire (peer_list_msg demo_cfg (map peer_ep (take 128 (nd_peers st'))))"
    and cli: "stream_of (s_rx (big_sock hello_answer)) = answer \<longrightarrow>
            (let eps = map peer_ep (take 128 (nd_peers st')) in
             \<exists>s' ct'. send_hello demo_peer_cfg demo_seed_ep demo_caller = Done (0, filter (foreign demo_peer_cfg) eps, Some s', ct')
               \<and> s_out s' = s_out (big_sock hello_answer) @ cluster_wire (hello_msg demo_peer_cfg)
               \<and> list_all (peer_ok demo_peer_cfg) (nd_peers ct')
               \<and> (\<forall>e \<in> set eps. foreign demo_peer_cfg e \<and> unambiguous eps e \<longrightarrow> (\<exists>p \<in> set (nd_peers ct'). peer_ep p = e)))"
    by blast
  have "hello_answer = answer" using ans(1) by (simp add: hello_answer_def srv)
  moreover have "answer \<noteq> []" unfolding ans(2) by (rule cluster_wire_nonempty)
  ultimately have stream: "stream_of (s_rx (big_sock hello_answer)) = answer" using big_sock_simps(1) by blast
  have "\<exists>now st1. add_peer_with_node demo_cfg (Some (cstr ''10.0.0.2'')) (uint (9081 :: u16)) 8 demo_node = Done st1
      \<and> nd_peers st1 = nd_peers demo_node @ [peer_new (cstr ''10.0.0.2'') 9081 8 False now]"
    by (simp add: add_peer_with_node_def add_peer_internal_def demo_node_def demo_cfg_def endpoint_is_self_def
        draw_time_def draw_mem_def demo_world_def peer_matches_def peer_new_def const_defs strlcpy_text_def)
  then obtain now where "nd_peers st' = nd_peers demo_node @ [peer_new (cstr ''10.0.0.2'') 9081 8 False now]"
    using srv name handle_hello_eq [OF demo_peer_cfg_ok, of demo_cfg "big_sock []" demo_node]
      send_peer_list_peers [of demo_cfg "big_sock []" _ 0 t' st']
    by (auto simp: adv simp del: cstr_Cons)
  then have eps: "map peer_ep (take 128 (nd_peers st')) = [?e, \<lparr>ep_addr = cstr ''b'', ep_port = 1, ep_node_id = 0\<rparr>,
      \<lparr>ep_addr = cstr ''10.0.0.2'', ep_port = 9081, ep_node_id = 8\<rparr>]"
    by (simp add: demo_node_def peer_new_def peer_ep_def strlcpy_text_def const_defs)
  have "foreign demo_peer_cfg ?e" "unambiguous (map peer_ep (take 128 (nd_peers st'))) ?e"
    unfolding eps by (simp_all add: foreign_def endpoint_is_self_def demo_peer_cfg_def demo_cfg_def unambiguous_def)
  with cli stream eps obtain s' ct' items where "send_hello demo_peer_cfg demo_seed_ep demo_caller = Done (0, items, Some s', ct')"
    "\<exists>p \<in> set (nd_peers ct'). peer_ep p = ?e" by (auto simp: Let_def simp del: cstr_Cons)
  with srv reg adv show ?thesis by (simp del: cstr_Cons) blast
qed

theorem parse_seed_roundtrip_witness:
  "parse_seed (Some (cstr ''db1'' @ [58] @ dec_digits 9081)) = Some \<lparr>ep_addr = cstr ''db1'', ep_port = 9081, ep_node_id = 0\<rparr>
   \<and> parse_seed (Some ([91] @ cstr ''::1'' @ [93, 58] @ dec_digits 70000)) = None"
  using parse_seed_roundtrip [of "cstr ''db1''" 9081] parse_seed_roundtrip [of "cstr ''::1''" 70000]
  by (simp add: const_defs)

theorem reaper_evicts_idle_witness:
  "(\<exists>st'. reaper_pass demo_cfg (demo_node\<lparr>nd_world := demo_world\<lparr>w_time := (\<lambda>n. 1000)\<rparr>\<rparr>) = Done st' \<and> nd_peers st' = [])"
proof -
  let ?st = "demo_node\<lparr>nd_world := demo_world\<lparr>w_time := (\<lambda>n. 1000)\<rparr>\<rparr>"
  have "\<not> peers_locked ?st" "\<forall>p \<in> set (nd_peers ?st). pc_stale_count p = 0"
    "filter (\<lambda>p. pc_is_seed p \<or> pc_node_id p = cfg_node_id demo_cfg \<or> pc_outbox_count p \<noteq> 0
       \<or> w_time (nd_world ?st) 0 - pc_last_activity p \<le> 300) (nd_peers ?st) = []"
    by (simp_all add: demo_node_def peer_new_def demo_cfg_def)
  with reaper_evicts_idle [of ?st demo_cfg] show ?thesis by auto
qed

definition stale_peer :: peer_conn where
  "stale_peer = (peer_new (cstr ''b'') 1 5 False 900)\<lparr>pc_stale_count := 1\<rparr>"

definition stale_node :: "(bytes \<rightharpoonup> bytes) node" where
  "stale_node = demo_node\<lparr>nd_peers := [stale_peer], nd_world := demo_world\<lparr>w_time := (\<lambda>n. 1000),
     w_net := (\<lambda>n host port. Some [(True, Some (big_sock (cluster_wire (peer_list_msg demo_peer_cfg demo_eps))))])\<rparr>\<rparr>"

theorem reaper_health_check_deadlocks_witness: "reaper_pass demo_cfg stale_node = Blocked"
proof -
  let ?wire = "cluster_wire (peer_list_msg demo_peer_cfg demo_eps)"
  have n: "\<not> peers_locked stale_node" "nd_peers stale_node = [stale_peer]" "\<not> pc_is_seed stale_peer"
    "pc_node_id stale_peer \<noteq> cfg_node_id demo_cfg" "length (pc_addr stale_peer) \<le> DMMR_PEER_ADDR_MAX"
    "\<not> reap_idle (w_time (nd_world stale_node) 0) stale_peer" "reap_check (w_time (nd_world stale_node) 0) stale_peer"
    "connect_endpoint (w_net (nd_world stale_node) 0) (peer_ep stale_peer) = Some (big_sock ?wire)"
    "w_mem (nd_world stale_node) 0"
    by (simp_all add: stale_node_def stale_peer_def demo_node_def demo_world_def peer_new_def demo_cfg_def
        reap_idle_def reap_check_def connect_endpoint_def strlcpy_text_def const_defs)
  have "length (cluster_wire (hello_msg demo_cfg)) \<le> 40000"
    by (simp add: length_cluster_wire hello_msg_def hello_value_def demo_cfg_def)
  then have t: "tx_live (length (cluster_wire (hello_msg demo_cfg))) (s_tx (big_sock ?wire))" by simp
  have s: "stream_of (s_rx (big_sock ?wire)) = ?wire @ []" by simp
  have "\<exists>ep \<in> set demo_eps. ep_port ep \<noteq> 0 \<and> \<not> endpoint_is_self demo_cfg (ep_addr ep) (ep_port ep) (ep_node_id ep)"
    by (simp add: demo_eps_def endpoint_is_self_def demo_cfg_def)
  from reaper_health_check_deadlocks [OF demo_cfg_ok n t s demo_eps_ok this] show ?thesis .
qed

end
