(* ===== verification/Dmmr_Sender.thy ===== *)
theory Dmmr_Sender
  imports Dmmr_Peers
begin

text \<open>
  The sender thread of a peer (\<open>peer_sender_thread\<close> of \<open>dmmr_cluster.c\<close>): connecting with backoff,
  authenticating, and draining the outbox, interleaved with the threads that fill the outbox, refresh the
  peer or mark it for removal.  Each step of the thread is one of its critical sections with the system calls
  around it; the program counter says where the thread is.  \<open>None\<close> is a system call that never returns.
\<close>

section \<open>The thread\<close>

datatype sender_pc = S_Top | S_Outbox | S_Send outbox_msg | S_Exit

definition backoff_double :: "u32 \<Rightarrow> u32" where
  "backoff_double b = (if b * 2 < PEER_RETRY_MAX then b * 2 else PEER_RETRY_MAX)"

text \<open>Ensuring a connection: \<open>True\<close> falls through to the authentication, \<open>False\<close> starts over.\<close>

definition sender_connect :: "cluster_cfg \<Rightarrow> sha256_ctx \<Rightarrow> peer_conn \<Rightarrow> world \<Rightarrow> (bool \<times> peer_conn \<times> world) option" where
  "sender_connect cfg ctx p w =
     (case pc_fd p of
        Some s \<Rightarrow> Some (True, p, if pc_authenticated p then snd (draw_micros w) else w)
      | None \<Rightarrow>
          let (now, w1) = draw_time w in
          if now < pc_next_retry p then Some (False, p, w1)
          else let (net, w2) = draw_net w1 in
            (case connect_endpoint_simple net (pc_addr p) (pc_port p) of
               None \<Rightarrow>
                 let b = backoff_double (pc_retry_backoff p) in
                 Some (False, p\<lparr>pc_retry_backoff := b, pc_next_retry := now + int (unat b)\<rparr>, w2)
             | Some s \<Rightarrow>
                 let p1 = p\<lparr>pc_fd := Some s, pc_retry_backoff := PEER_RETRY_BASE, pc_last_activity := now,
                            pc_authenticated := False, pc_auth_expire_at := 0\<rparr>;
                     (nonce_a, w3) = draw_nonce w2; (mem_ok, w4) = draw_mem w3 in
                 (case cluster_handshake_client cfg ctx nonce_a mem_ok s of
                    None \<Rightarrow> None
                  | Some (rc, expire, s') \<Rightarrow>
                      if rc \<noteq> 0
                      then Some (False, p1\<lparr>pc_fd := None, pc_authenticated := False, pc_auth_expire_at := 0\<rparr>, w4)
                      else let (now2, w5) = draw_time w4 in
                        Some (True, p1\<lparr>pc_fd := Some s', pc_authenticated := True,
                                pc_auth_expire_at := (case expire of None \<Rightarrow> 0 | Some e \<Rightarrow> e),
                                pc_last_activity := now2\<rparr>, w5))))"

definition auth_fail :: "peer_conn \<Rightarrow> world \<Rightarrow> peer_conn \<times> world" where
  "auth_fail p w =
     (let b = backoff_double (pc_retry_backoff p); (now, w1) = draw_time w in
      (p\<lparr>pc_fd := None, pc_authenticated := False, pc_auth_expire_at := 0, pc_retry_backoff := b,
         pc_next_retry := now + int (unat b), pc_stale_count := pc_stale_count p + 1\<rparr>, w1))"

text \<open>The authentication block: \<open>True\<close> falls through to the outbox.  On a closed descriptor the first
  \<open>send\<close> fails.\<close>

definition sender_auth :: "cluster_cfg \<Rightarrow> sha256_ctx \<Rightarrow> peer_conn \<Rightarrow> world \<Rightarrow> (bool \<times> peer_conn \<times> world) option" where
  "sender_auth cfg ctx p w =
     (let (stale, w1) = (if \<not> pc_authenticated p then (True, w)
                         else let (now, w') = draw_micros w in (now \<ge> pc_auth_expire_at p, w')) in
      if \<not> stale then Some (True, p, w1)
      else let (nonce_a, w2) = draw_nonce w1; (mem_ok, w3) = draw_mem w2 in
        (case pc_fd p of
           None \<Rightarrow> (case auth_fail p w3 of (p', w') \<Rightarrow> Some (False, p', w'))
         | Some s \<Rightarrow>
             (case auth_exchange cfg ctx nonce_a mem_ok s of
                None \<Rightarrow> None
              | Some (None, s') \<Rightarrow> (case auth_fail p w3 of (p', w') \<Rightarrow> Some (False, p', w'))
              | Some (Some expire_at, s') \<Rightarrow>
                  let (now, w4) = draw_time w3 in
                  Some (False, p\<lparr>pc_fd := Some s', pc_authenticated := True, pc_auth_expire_at := expire_at,
                          pc_last_activity := now, pc_retry_backoff := PEER_RETRY_BASE\<rparr>, w4))))"

definition sender_top :: "cluster_cfg \<Rightarrow> sha256_ctx \<Rightarrow> peer_conn \<Rightarrow> world \<Rightarrow> (sender_pc \<times> peer_conn \<times> world) option" where
  "sender_top cfg ctx p w =
     (let (running, w1) = draw_running w in
      if \<not> pc_active p \<or> \<not> running then Some (S_Exit, p, w1)
      else case sender_connect cfg ctx p w1 of
        None \<Rightarrow> None
      | Some (False, p1, w2) \<Rightarrow> Some (S_Top, p1, w2)
      | Some (True, p1, w2) \<Rightarrow>
          (case sender_auth cfg ctx p1 w2 of
             None \<Rightarrow> None
           | Some (False, p2, w3) \<Rightarrow> Some (S_Top, p2, w3)
           | Some (True, p2, w3) \<Rightarrow> Some (S_Outbox, p2, w3)))"

text \<open>Taking the head of the outbox; while it is empty the thread keeps waiting.\<close>

definition sender_take :: "peer_conn \<Rightarrow> world \<Rightarrow> sender_pc \<times> peer_conn \<times> world" where
  "sender_take p w =
     (let (running, w1) = draw_running w in
      if pc_outbox_count p = 0 \<and> pc_active p \<and> running then (S_Outbox, p, w1)
      else if \<not> pc_active p \<or> \<not> running then (S_Exit, p, w1)
      else case pc_outbox p of
        [] \<Rightarrow> (S_Top, p, w1)
      | msg # rest \<Rightarrow>
          let (now, w2) = draw_time w1 in
          if now - om_enqueued_at msg > OUTBOX_MSG_TTL
          then (S_Top, p\<lparr>pc_outbox := remove1 msg (pc_outbox p), pc_outbox_count := pc_outbox_count p - 1\<rparr>, w2)
          else (S_Send msg, p, w2))"

definition send_msg :: "cluster_cfg \<Rightarrow> outbox_msg \<Rightarrow> sock \<Rightarrow> (int \<times> sock) option" where
  "send_msg cfg msg s =
     cluster_send_frame cfg (om_opcode msg) (om_flags msg) (Some (om_key msg)) (unat (om_key_len msg))
       (om_value msg) (unat (om_value_len msg)) (om_timestamp msg) (om_node_id msg) (om_expire_at msg) s"

definition sender_send :: "cluster_cfg \<Rightarrow> outbox_msg \<Rightarrow> peer_conn \<Rightarrow> world \<Rightarrow> (bool \<times> peer_conn \<times> world) option" where
  "sender_send cfg msg p w =
     (let (now, w1) = draw_time w;
          fail = p\<lparr>pc_fd := None, pc_authenticated := False, pc_auth_expire_at := 0,
                   pc_next_retry := now + int (unat (pc_retry_backoff p)),
                   pc_retry_backoff := backoff_double (pc_retry_backoff p),
                   pc_stale_count := pc_stale_count p + 1\<rparr> in
      case pc_fd p of
        None \<Rightarrow> Some (False, fail, w1)
      | Some s \<Rightarrow>
          (case send_msg cfg msg s of
             None \<Rightarrow> None
           | Some (rc, s') \<Rightarrow>
               if rc = 0
               then Some (True, p\<lparr>pc_fd := Some s', pc_last_activity := now,
                      pc_outbox := remove1 msg (pc_outbox p), pc_outbox_count := pc_outbox_count p - 1\<rparr>, w1)
               else Some (False, fail, w1)))"

definition sender_exit :: "peer_conn \<Rightarrow> peer_conn" where
  "sender_exit p = p\<lparr>pc_fd := None\<rparr>"

section \<open>Interleaving\<close>

text \<open>A peer with its sender thread.  Beside the state stands what an observer of the outbox and of the connection
  sees: the messages accepted into the outbox (\<open>pr_in\<close>), the messages that left it (\<open>pr_out\<close>) with what happened to each,
  the sends the thread reported as failed (\<open>pr_failed\<close>) and the clock at the last look at the outbox (\<open>pr_seen\<close>).
  \<open>Sent t bs\<close>: the message was looked at at time \<open>t\<close> and the bytes \<open>bs\<close> went on the connection; \<open>Expired t\<close>: it was looked
  at at time \<open>t\<close> and dropped.\<close>

datatype fate = Sent int bytes | Expired int

record peer_run =
  pr_pc :: sender_pc
  pr_peer :: peer_conn
  pr_seen :: int
  pr_in :: "outbox_msg list"
  pr_out :: "(outbox_msg \<times> fate) list"
  pr_failed :: "(outbox_msg \<times> bytes) list"

definition peer_start :: "peer_conn \<Rightarrow> peer_run" where
  "peer_start p = \<lparr>pr_pc = S_Top, pr_peer = p, pr_seen = 0, pr_in = [], pr_out = [], pr_failed = []\<rparr>"

text \<open>The bytes one send of a message adds to the peer's connection, whatever it reports.\<close>

definition bytes_put :: "cluster_cfg \<Rightarrow> outbox_msg \<Rightarrow> peer_conn \<Rightarrow> bytes" where
  "bytes_put cfg msg p =
     (case pc_fd p of
        None \<Rightarrow> []
      | Some s \<Rightarrow> (case send_msg cfg msg s of None \<Rightarrow> [] | Some (rc, s') \<Rightarrow> drop (length (s_out s)) (s_out s')))"

definition take_time :: "world \<Rightarrow> int" where
  "take_time w = fst (draw_time (snd (draw_running w)))"

inductive peer_step :: "cluster_cfg \<Rightarrow> sha256_ctx \<Rightarrow> peer_run \<Rightarrow> peer_run \<Rightarrow> bool"
  for cfg :: cluster_cfg and ctx :: sha256_ctx where
  step_top: "pr_pc r = S_Top \<Longrightarrow> sender_top cfg ctx (pr_peer r) w = Some (pc, p, w') \<Longrightarrow>
     peer_step cfg ctx r (r\<lparr>pr_pc := pc, pr_peer := p\<rparr>)"
| step_wait: "pr_pc r = S_Outbox \<Longrightarrow> sender_take (pr_peer r) w = (pc, p, w') \<Longrightarrow> pc_outbox p = pc_outbox (pr_peer r) \<Longrightarrow>
     peer_step cfg ctx r (r\<lparr>pr_pc := pc, pr_peer := p, pr_seen := take_time w\<rparr>)"
| step_expire: "pr_pc r = S_Outbox \<Longrightarrow> sender_take (pr_peer r) w = (pc, p, w') \<Longrightarrow> pc_outbox p \<noteq> pc_outbox (pr_peer r) \<Longrightarrow>
     peer_step cfg ctx r (r\<lparr>pr_pc := pc, pr_peer := p, pr_seen := take_time w,
       pr_out := pr_out r @ [(hd (pc_outbox (pr_peer r)), Expired (take_time w))]\<rparr>)"
| step_sent: "pr_pc r = S_Send msg \<Longrightarrow> sender_send cfg msg (pr_peer r) w = Some (ok, p, w') \<Longrightarrow>
     pc_outbox p \<noteq> pc_outbox (pr_peer r) \<Longrightarrow>
     peer_step cfg ctx r (r\<lparr>pr_pc := S_Top, pr_peer := p,
       pr_out := pr_out r @ [(hd (pc_outbox (pr_peer r)), Sent (pr_seen r) (bytes_put cfg msg (pr_peer r)))]\<rparr>)"
| step_unsent: "pr_pc r = S_Send msg \<Longrightarrow> sender_send cfg msg (pr_peer r) w = Some (ok, p, w') \<Longrightarrow>
     pc_outbox p = pc_outbox (pr_peer r) \<Longrightarrow>
     peer_step cfg ctx r (r\<lparr>pr_pc := S_Top, pr_peer := p,
       pr_failed := pr_failed r @ [(msg, bytes_put cfg msg (pr_peer r))]\<rparr>)"
| step_push: "msg_ok msg \<Longrightarrow> p = outbox_push msg (pr_peer r) \<Longrightarrow>
     peer_step cfg ctx r (r\<lparr>pr_peer := p,
       pr_in := pr_in r @ (if pc_outbox p = pc_outbox (pr_peer r) then [] else [msg])\<rparr>)"
| step_refresh: "a \<noteq> [] \<Longrightarrow> length a \<le> DMMR_PEER_ADDR_MAX \<Longrightarrow> port \<noteq> 0 \<Longrightarrow> \<not> endpoint_is_self cfg a port node \<Longrightarrow>
     peer_step cfg ctx r (r\<lparr>pr_peer := peer_refresh a port node seed now (pr_peer r)\<rparr>)"
| step_reap: "pc_outbox_count (pr_peer r) = 0 \<Longrightarrow>
     peer_step cfg ctx r (r\<lparr>pr_peer := (pr_peer r)\<lparr>pc_active := False, pc_fd := None\<rparr>\<rparr>)"

inductive_cases peer_stepE: "peer_step cfg ctx r r'"

section \<open>What the steps keep\<close>

lemma backoff_bounds:
  "PEER_RETRY_BASE \<le> b \<Longrightarrow> b \<le> PEER_RETRY_MAX \<Longrightarrow>
   PEER_RETRY_BASE \<le> backoff_double b \<and> backoff_double b \<le> PEER_RETRY_MAX"
proof -
  assume "PEER_RETRY_BASE \<le> b" "b \<le> PEER_RETRY_MAX"
  then have "unat (b * 2) = unat b * 2" "1 \<le> unat b"
    by (simp_all add: const_defs word_le_nat_alt unat_word_ariths)
  then show ?thesis by (simp add: backoff_double_def const_defs word_le_nat_alt word_less_nat_alt)
qed

text \<open>The fields of a peer the connection part of the thread leaves alone.\<close>

definition same_queue :: "peer_conn \<Rightarrow> peer_conn \<Rightarrow> bool" where
  "same_queue p q \<longleftrightarrow> pc_outbox q = pc_outbox p \<and> pc_outbox_count q = pc_outbox_count p \<and> pc_addr q = pc_addr p
     \<and> pc_port q = pc_port p \<and> pc_node_id q = pc_node_id p \<and> pc_active q = pc_active p \<and> pc_is_seed q = pc_is_seed p"

lemma same_queue_trans: "same_queue p q \<Longrightarrow> same_queue q r \<Longrightarrow> same_queue p r"
  by (simp add: same_queue_def)

lemma auth_fail_keeps:
  assumes "backoff_ok p"
  shows "same_queue p (fst (auth_fail p w)) \<and> backoff_ok (fst (auth_fail p w))"
  using assms backoff_bounds [of "pc_retry_backoff p"]
  by (simp add: auth_fail_def same_queue_def backoff_ok_def Let_def case_prod_beta)

lemma sender_connect_keeps:
  assumes "sender_connect cfg ctx p w = Some (b, q, w')" and "backoff_ok p"
  shows "same_queue p q \<and> backoff_ok q"
  using assms backoff_bounds [of "pc_retry_backoff p"] backoff_bounds [of PEER_RETRY_BASE]
  by (auto simp: sender_connect_def same_queue_def backoff_ok_def Let_def const_defs
      split: option.splits prod.splits if_splits)

lemma sender_auth_keeps:
  assumes "sender_auth cfg ctx p w = Some (b, q, w')" and "backoff_ok p"
  shows "same_queue p q \<and> backoff_ok q"
proof -
  have f: "same_queue p x \<and> backoff_ok x" if "auth_fail p v = (x, v')" for x v v'
    using auth_fail_keeps [OF assms(2), of v] that by simp
  obtain stale w1 where st: "(if \<not> pc_authenticated p then (True, w)
      else let (now, w') = draw_micros w in (now \<ge> pc_auth_expire_at p, w')) = (stale, w1)" by fastforce
  obtain nonce w2 mem w3 where d: "draw_nonce w1 = (nonce, w2)" "draw_mem w2 = (mem, w3)" by fastforce
  have "same_queue p p" by (simp add: same_queue_def)
  then show ?thesis
    using assms unfolding sender_auth_def st
    by (auto simp: d dest!: f split: option.splits prod.splits if_splits)
      (auto simp: same_queue_def backoff_ok_def const_defs)
qed

lemma sender_top_keeps:
  assumes "sender_top cfg ctx p w = Some (pc, q, w')" and "backoff_ok p"
  shows "same_queue p q \<and> backoff_ok q \<and> (\<forall>m. pc \<noteq> S_Send m)"
proof -
  obtain run w1 where w1: "draw_running w = (run, w1)" by fastforce
  consider "q = p" "pc = S_Exit"
    | b p1 w2 where "sender_connect cfg ctx p w1 = Some (b, p1, w2)" "q = p1" "pc = S_Top"
    | p1 w2 c w3 where "sender_connect cfg ctx p w1 = Some (True, p1, w2)"
        "sender_auth cfg ctx p1 w2 = Some (c, q, w3)" "pc = S_Top \<or> pc = S_Outbox"
    using assms(1) w1 by (auto simp: sender_top_def split: option.splits prod.splits if_splits bool.splits)
  then show ?thesis
  proof cases
    case 1
    then show ?thesis using assms(2) by (simp add: same_queue_def)
  next
    case 2
    then show ?thesis using sender_connect_keeps assms(2) by blast
  next
    case 3
    then show ?thesis
      using sender_connect_keeps [OF 3(1) assms(2)] sender_auth_keeps [OF 3(2)] same_queue_trans by auto
  qed
qed

lemma outbox_ok_tl:
  assumes "outbox_ok p" and "pc_outbox p = m # rest"
  shows "outbox_ok (p\<lparr>pc_outbox := rest, pc_outbox_count := pc_outbox_count p - 1\<rparr>)"
  using assms by (simp add: outbox_ok_def)

text \<open>The cases of taking a message.\<close>

lemma sender_take_cases:
  assumes "sender_take p w = (pc, q, w')" and "outbox_ok p"
  obtains (wait) "q = p" "pc = S_Outbox \<or> pc = S_Exit"
  | (expired) m rest where "pc_outbox p = m # rest" "pc = S_Top"
      "q = p\<lparr>pc_outbox := rest, pc_outbox_count := pc_outbox_count p - 1\<rparr>"
      "fst (draw_time (snd (draw_running w))) - om_enqueued_at m > OUTBOX_MSG_TTL"
  | (take) m rest where "pc_outbox p = m # rest" "pc = S_Send m" "q = p"
      "fst (draw_time (snd (draw_running w))) - om_enqueued_at m \<le> OUTBOX_MSG_TTL"
  using assms
  by (cases "pc_outbox p")
    (auto simp: sender_take_def Let_def case_prod_beta outbox_ok_def split: if_splits list.splits)

lemma sender_send_cases:
  assumes "sender_send cfg m p w = Some (sent, q, w')"
  obtains (sent) s s' now where "sent" "pc_fd p = Some s" "send_msg cfg m s = Some (0, s')"
      "q = p\<lparr>pc_fd := Some s', pc_last_activity := now, pc_outbox := remove1 m (pc_outbox p),
             pc_outbox_count := pc_outbox_count p - 1\<rparr>"
  | (failed) now where "\<not> sent" "q = p\<lparr>pc_fd := None, pc_authenticated := False, pc_auth_expire_at := 0,
                   pc_next_retry := now + int (unat (pc_retry_backoff p)),
                   pc_retry_backoff := backoff_double (pc_retry_backoff p),
                   pc_stale_count := pc_stale_count p + 1\<rparr>"
  using assms
  by (auto simp: sender_send_def Let_def case_prod_beta split: option.splits if_splits)

section \<open>Sending\<close>

definition msg_value :: "outbox_msg \<Rightarrow> bytes" where
  "msg_value m = (if om_value_len m = 0 then [] else the (om_value m))"

definition msg_frame :: "cluster_cfg \<Rightarrow> outbox_msg \<Rightarrow> dmmr_cluster_frame \<times> bytes" where
  "msg_frame cfg m =
     (cluster_header cfg (om_opcode m) (om_flags m) (length (om_key m)) (length (msg_value m)) (om_timestamp m)
        (om_node_id m) (om_expire_at m), om_key m @ msg_value m)"

lemma msg_ok_lengths:
  assumes "msg_ok m"
  shows "unat (om_key_len m) = length (om_key m)" "unat (om_value_len m) = length (msg_value m)"
    "length (msg_value m) \<le> MAX_VALUE_LEN"
  using assms by (auto simp: msg_ok_def msg_value_def)

lemma msg_args:
  assumes "msg_ok m"
  shows "args_ok (Some (om_key m)) (unat (om_key_len m)) (om_value m) (unat (om_value_len m))"
    and "args_payload (Some (om_key m)) (unat (om_key_len m)) (om_value m) (unat (om_value_len m)) = om_key m @ msg_value m"
proof -
  note l = msg_ok_lengths(1,2) [OF assms]
  show "args_ok (Some (om_key m)) (unat (om_key_len m)) (om_value m) (unat (om_value_len m))"
    using assms by (cases "om_value_len m = 0") (auto simp: args_ok_def msg_ok_def)
  show "args_payload (Some (om_key m)) (unat (om_key_len m)) (om_value m) (unat (om_value_len m)) = om_key m @ msg_value m"
  proof (cases "om_value_len m = 0")
    case True
    with l show ?thesis by (cases "om_value m") (simp_all add: args_payload_def msg_value_def)
  next
    case False
    with assms obtain v where "om_value m = Some v" "length v = unat (om_value_len m)" by (auto simp: msg_ok_def)
    with l False show ?thesis by (simp add: args_payload_def msg_value_def)
  qed
qed

lemma msg_frame_args:
  assumes "msg_ok m"
  shows "msg_frame cfg m = (cluster_header cfg (om_opcode m) (om_flags m) (unat (om_key_len m)) (unat (om_value_len m))
      (om_timestamp m) (om_node_id m) (om_expire_at m),
      args_payload (Some (om_key m)) (unat (om_key_len m)) (om_value m) (unat (om_value_len m)))"
  by (simp only: msg_args(2) [OF assms]) (simp only: msg_frame_def msg_ok_lengths [OF assms])

lemma send_msg_live:
  assumes "msg_ok m" and "tx_live (length (cluster_wire (msg_frame cfg m)) + k) (s_tx s)"
  shows "\<exists>evs e. send_msg cfg m s
     = Some (0, s\<lparr>s_tx := evs, s_errno_eintr := e, s_out := s_out s @ cluster_wire (msg_frame cfg m)\<rparr>) \<and> tx_live k evs"
  using cluster_send_live [OF msg_args(1) [OF assms(1)]] assms(2) msg_frame_args [OF assms(1), of cfg]
  by (simp only: send_msg_def)

lemma msg_frame_ok:
  assumes "msg_ok m"
  shows "cluster_msg_ok (msg_frame cfg m)" "unat (cf_key_len (fst (msg_frame cfg m))) = length (om_key m)"
    "unat (cf_value_len (fst (msg_frame cfg m))) = length (msg_value m)"
proof -
  have l: "length (om_key m) \<le> MAX_KEY_LEN" "length (msg_value m) \<le> MAX_VALUE_LEN"
    using assms msg_ok_lengths(3) [OF assms] by (simp_all add: msg_ok_def)
  have a: "args_ok (Some (om_key m)) (length (om_key m)) (Some (msg_value m)) (length (msg_value m))"
    using l by (simp add: args_ok_def)
  show "cluster_msg_ok (msg_frame cfg m)" "unat (cf_key_len (fst (msg_frame cfg m))) = length (om_key m)"
    "unat (cf_value_len (fst (msg_frame cfg m))) = length (msg_value m)"
    using header_msg_ok [OF a] by (simp_all add: msg_frame_def args_payload_def)
qed

text \<open>A send adds a prefix of the message's frame to the connection, and the whole frame exactly when it reports success.\<close>

lemma send_msg_put:
  assumes "msg_ok m" and "send_msg cfg m s = Some (rc, s')"
  shows "\<exists>rest. cluster_wire (msg_frame cfg m) = drop (length (s_out s)) (s_out s') @ rest \<and> (rc = 0 \<longleftrightarrow> rest = [])"
proof -
  obtain ps where "send_msg cfg m s = send_parts ps s" "concat ps = cluster_wire (msg_frame cfg m)"
    using cluster_send_parts [OF msg_args(1) [OF assms(1)], of cfg "om_opcode m" "om_flags m" "om_timestamp m"
        "om_node_id m" "om_expire_at m" s]
    by (auto simp: send_msg_def msg_frame_args [OF assms(1)])
  with send_parts_prefix [of ps s rc s'] assms(2) show ?thesis by auto
qed

section \<open>The invariant\<close>

definition fate_ok :: "cluster_cfg \<Rightarrow> outbox_msg \<times> fate \<Rightarrow> bool" where
  "fate_ok cfg e \<longleftrightarrow>
     (case snd e of
        Sent t bs \<Rightarrow> bs = cluster_wire (msg_frame cfg (fst e)) \<and> t - om_enqueued_at (fst e) \<le> 120
      | Expired t \<Rightarrow> 120 < t - om_enqueued_at (fst e))"

definition partly_put :: "cluster_cfg \<Rightarrow> outbox_msg \<times> bytes \<Rightarrow> bool" where
  "partly_put cfg e \<longleftrightarrow> (\<exists>rest. rest \<noteq> [] \<and> cluster_wire (msg_frame cfg (fst e)) = snd e @ rest)"

definition run_inv :: "cluster_cfg \<Rightarrow> peer_run \<Rightarrow> bool" where
  "run_inv cfg r \<longleftrightarrow> peer_ok cfg (pr_peer r) \<and> pr_in r = map fst (pr_out r) @ pc_outbox (pr_peer r)
     \<and> list_all (fate_ok cfg) (pr_out r) \<and> list_all (partly_put cfg) (pr_failed r)
     \<and> (\<forall>m. pr_pc r = S_Send m \<longrightarrow>
          (\<exists>rest. pc_outbox (pr_peer r) = m # rest) \<and> pr_seen r - om_enqueued_at m \<le> 120)"

lemma sender_send_put:
  assumes "sender_send cfg m p w = Some (ok, q, w')" and "pc_outbox p = m # rest" and "msg_ok m"
  shows "if pc_outbox q \<noteq> pc_outbox p then bytes_put cfg m p = cluster_wire (msg_frame cfg m) else partly_put cfg (m, bytes_put cfg m p)"
  using assms(1)
proof (cases rule: sender_send_cases)
  case (sent s s' now)
  with send_msg_put [OF assms(3) sent(3)] assms(2) show ?thesis by (auto simp: bytes_put_def)
next
  case (failed now)
  then have "pc_outbox q = pc_outbox p" by simp
  moreover have "partly_put cfg (m, bytes_put cfg m p)"
    using assms(1) failed(1) send_msg_put [OF assms(3), of cfg]
    by (fastforce simp: sender_send_def bytes_put_def partly_put_def Let_def case_prod_beta split: option.splits if_splits)
  ultimately show ?thesis by simp
qed

lemma same_queue_ok:
  "same_queue p q \<Longrightarrow> backoff_ok q \<Longrightarrow> peer_ok cfg p \<Longrightarrow> peer_ok cfg q"
  by (simp add: same_queue_def peer_ok_def address_ok_def outbox_ok_def)

lemma run_inv_start: "peer_ok cfg p \<Longrightarrow> pc_outbox p = [] \<Longrightarrow> run_inv cfg (peer_start p)"
  by (simp add: run_inv_def peer_start_def)

lemma run_inv_step:
  assumes "peer_step cfg ctx r r'" and "run_inv cfg r"
  shows "run_inv cfg r'"
  using assms
proof cases
  case (step_top w pc p w')
  have "backoff_ok (pr_peer r)" using assms(2) by (simp add: run_inv_def peer_ok_def)
  from sender_top_keeps [OF step_top(3) this] assms(2) step_top same_queue_ok [of "pr_peer r" p cfg] show ?thesis
    by (auto simp: run_inv_def same_queue_def)
next
  case (step_wait w pc p w')
  have ok: "outbox_ok (pr_peer r)" using assms(2) by (simp add: run_inv_def peer_ok_def)
  from step_wait(3) ok show ?thesis
    by (cases rule: sender_take_cases) (use assms(2) step_wait in \<open>auto simp: run_inv_def take_time_def const_defs\<close>)
next
  case (step_expire w pc p w')
  have ok: "outbox_ok (pr_peer r)" using assms(2) by (simp add: run_inv_def peer_ok_def)
  from step_expire(3) ok show ?thesis
    by (cases rule: sender_take_cases)
      (use assms(2) step_expire outbox_ok_tl [OF ok] in
        \<open>auto simp: run_inv_def peer_ok_def address_ok_def backoff_ok_def fate_ok_def take_time_def const_defs\<close>)
next
  case (step_sent msg w ok p w')
  then obtain rest where rest: "pc_outbox (pr_peer r) = msg # rest" and seen: "pr_seen r - om_enqueued_at msg \<le> 120"
    using assms(2) by (auto simp: run_inv_def)
  have ok: "outbox_ok (pr_peer r)" using assms(2) by (simp add: run_inv_def peer_ok_def)
  then have "msg_ok msg" using rest by (simp add: outbox_ok_def)
  from sender_send_put [OF step_sent(3) rest this] step_sent(4) seen
  have "fate_ok cfg (msg, Sent (pr_seen r) (bytes_put cfg msg (pr_peer r)))" by (simp add: fate_ok_def)
  with step_sent(3) show ?thesis
    by (cases rule: sender_send_cases)
      (use assms(2) step_sent rest ok in
        \<open>auto simp: run_inv_def peer_ok_def address_ok_def backoff_ok_def outbox_ok_def\<close>)
next
  case (step_unsent msg w ok p w')
  then obtain rest where rest: "pc_outbox (pr_peer r) = msg # rest" using assms(2) by (auto simp: run_inv_def)
  then have "msg_ok msg" using assms(2) by (simp add: run_inv_def peer_ok_def outbox_ok_def)
  from sender_send_put [OF step_unsent(3) rest this] step_unsent(4)
  have "partly_put cfg (msg, bytes_put cfg msg (pr_peer r))" by simp
  with step_unsent(3) show ?thesis
    by (cases rule: sender_send_cases)
      (use assms(2) step_unsent rest backoff_bounds [of "pc_retry_backoff (pr_peer r)"] in
        \<open>auto simp: run_inv_def peer_ok_def address_ok_def backoff_ok_def outbox_ok_def\<close>)
next
  case (step_push msg p)
  with assms(2) push_ok [of msg cfg "pr_peer r"] show ?thesis
    by (auto simp: run_inv_def outbox_push_def)
next
  case (step_refresh a port node seed now)
  with assms(2) refresh_ok [of cfg "pr_peer r" a port node seed now] show ?thesis
    by (auto simp: run_inv_def peer_refresh_def)
next
  case step_reap
  with assms(2) show ?thesis
    by (auto simp: run_inv_def peer_ok_def address_ok_def backoff_ok_def outbox_ok_def)
qed

lemma run_inv_reach: "(peer_step cfg ctx)\<^sup>*\<^sup>* r r' \<Longrightarrow> run_inv cfg r \<Longrightarrow> run_inv cfg r'"
  by (induction rule: rtranclp_induct) (auto intro: run_inv_step)

lemma sender_send_live:
  assumes "pc_fd p = Some s" and "pc_outbox p = m # rest" and "msg_ok m"
    and "tx_live (length (cluster_wire (msg_frame cfg m)) + k) (s_tx s)"
  shows "\<exists>s' p' w'. sender_send cfg m p w = Some (True, p', w') \<and> pc_fd p' = Some s' \<and> pc_outbox p' = rest
     \<and> s_out s' = s_out s @ cluster_wire (msg_frame cfg m) \<and> tx_live k (s_tx s') \<and> s_rx s' = s_rx s
     \<and> p' = p\<lparr>pc_fd := Some s', pc_last_activity := fst (draw_time w), pc_outbox := rest,
               pc_outbox_count := pc_outbox_count p - 1\<rparr> \<and> w' = snd (draw_time w)"
  using send_msg_live [OF assms(3,4)] assms(1,2)
  by (auto simp: sender_send_def case_prod_beta)

section \<open>Properties\<close>

text \<open>C15: the outbox of a peer is a bounded FIFO queue under every interleaving of its sender with the threads
  that broadcast, refresh the peer or retire it.  What was accepted is, in order, what left the outbox followed by what
  still waits.  A message leaves it in two ways only: its complete frame was put on the connection, and it was at
  most 120 seconds old when it was taken, or it was dropped when it was older than that.  A send after which the
  message stays for a retry put at most a proper prefix of the frame on its connection, so no connection carries a
  frame twice for one accepted message.  At most 256 messages wait, the counter is the length of the list, and the
  retry delay stays between 1 and 30 seconds.\<close>

theorem outbox_fifo:
  assumes "peer_ok cfg p" and "pc_outbox p = []" and "(peer_step cfg ctx)\<^sup>*\<^sup>* (peer_start p) r"
  shows "pr_in r = map fst (pr_out r) @ pc_outbox (pr_peer r)
     \<and> (\<forall>m t bs. (m, Sent t bs) \<in> set (pr_out r) \<longrightarrow>
          bs = cluster_wire (msg_frame cfg m) \<and> t - om_enqueued_at m \<le> 120)
     \<and> (\<forall>m t. (m, Expired t) \<in> set (pr_out r) \<longrightarrow> 120 < t - om_enqueued_at m)
     \<and> (\<forall>m bs. (m, bs) \<in> set (pr_failed r) \<longrightarrow> (\<exists>rest. rest \<noteq> [] \<and> cluster_wire (msg_frame cfg m) = bs @ rest))
     \<and> pc_outbox_count (pr_peer r) = int (length (pc_outbox (pr_peer r))) \<and> length (pc_outbox (pr_peer r)) \<le> 256
     \<and> 1 \<le> unat (pc_retry_backoff (pr_peer r)) \<and> unat (pc_retry_backoff (pr_peer r)) \<le> 30"
proof -
  have inv: "run_inv cfg r" using run_inv_reach [OF assms(3) run_inv_start [OF assms(1,2)]] .
  then have "list_all (fate_ok cfg) (pr_out r)" "list_all (partly_put cfg) (pr_failed r)"
    by (simp_all add: run_inv_def)
  then have "(m, Sent t bs) \<in> set (pr_out r) \<Longrightarrow> bs = cluster_wire (msg_frame cfg m) \<and> t - om_enqueued_at m \<le> 120"
    and "(m, Expired t) \<in> set (pr_out r) \<Longrightarrow> 120 < t - om_enqueued_at m"
    and "(m, bs) \<in> set (pr_failed r) \<Longrightarrow> \<exists>rest. rest \<noteq> [] \<and> cluster_wire (msg_frame cfg m) = bs @ rest" for m t bs
    by (fastforce simp: list_all_iff fate_ok_def partly_put_def)+
  then show ?thesis
    using inv by (auto simp: run_inv_def peer_ok_def outbox_ok_def backoff_ok_def const_defs word_le_nat_alt)
qed

text \<open>One round of the sender delivers the oldest message.  For a peer that is connected, authenticated
  and not expired, whose oldest message is younger than 120 seconds and whose connection keeps accepting
  bytes, the thread goes through its checks without touching the connection, puts exactly the frame of that
  message on it, and takes that message off the outbox.\<close>

theorem sender_round_delivers:
  assumes "pc_fd p = Some s" and "pc_active p" and "pc_authenticated p" and "outbox_ok p"
    and "pc_outbox p = m # rest"
    and "w_running w 0" and "w_running w 1" and "timespec_micros (w_clock w 1) < pc_auth_expire_at p"
    and "w_time w 0 - om_enqueued_at m \<le> 120"
    and "tx_live (length (cluster_wire (msg_frame cfg m))) (s_tx s)"
  shows "\<exists>w1 w2 w3 p' s'. sender_top cfg ctx p w = Some (S_Outbox, p, w1)
     \<and> sender_take p w1 = (S_Send m, p, w2)
     \<and> sender_send cfg m p w2 = Some (True, p', w3)
     \<and> pc_fd p' = Some s' \<and> s_out s' = s_out s @ cluster_wire (msg_frame cfg m)
     \<and> pc_outbox p' = rest \<and> pc_outbox_count p' = int (length rest)"
proof -
  have m: "msg_ok m" and cnt: "pc_outbox_count p = int (length rest) + 1"
    using assms(4,5) by (simp_all add: outbox_ok_def)
  define w1 where "w1 = w\<lparr>w_running := (\<lambda>n. w_running w (Suc n)), w_clock := (\<lambda>n. w_clock w (Suc (Suc n)))\<rparr>"
  have top: "sender_top cfg ctx p w = Some (S_Outbox, p, w1)"
    using assms(1-3,6,8)
    by (simp add: sender_top_def sender_connect_def sender_auth_def draw_running_def draw_micros_def w1_def not_le)
  obtain w2 where take: "sender_take p w1 = (S_Send m, p, w2)"
    using assms(2,5,7,9) cnt
    by (simp add: sender_take_def draw_running_def draw_time_def w1_def const_defs)
  from sender_send_live [OF assms(1,5) m, of cfg 0 w2] assms(10) obtain s' p' w3 where
    "sender_send cfg m p w2 = Some (True, p', w3)" "pc_fd p' = Some s'" "pc_outbox p' = rest"
    "s_out s' = s_out s @ cluster_wire (msg_frame cfg m)"
    "p' = p\<lparr>pc_fd := Some s', pc_last_activity := fst (draw_time w2), pc_outbox := rest,
            pc_outbox_count := pc_outbox_count p - 1\<rparr>" by auto
  with top take cnt show ?thesis by (intro exI conjI) (assumption | simp)+
qed

definition demo_msg :: outbox_msg where
  "demo_msg = sync_msg [1] (Some [2, 3]) 2 5 7 9 FLAG_NONE 0"

lemma demo_msg_ok [simp]: "msg_ok demo_msg"
  unfolding demo_msg_def by (rule sync_msg_ok) (simp_all add: const_defs)

definition demo_peer :: peer_conn where
  "demo_peer = peer_new (cstr ''b'') 1 5 False 0"

lemma demo_peer_ok: "peer_ok demo_cfg demo_peer" "pc_outbox demo_peer = []"
  by (simp_all add: demo_peer_def demo_cfg_def peer_ok_def address_ok_def outbox_ok_def backoff_ok_def peer_new_def
      endpoint_is_self_def const_defs strlcpy_text_def)

definition demo_sending :: peer_conn where
  "demo_sending = demo_peer\<lparr>pc_fd := Some (wire_sock []), pc_authenticated := True, pc_auth_expire_at := 9000000,
     pc_outbox := [demo_msg], pc_outbox_count := 1\<rparr>"

definition demo_linked :: peer_conn where
  "demo_linked = demo_peer\<lparr>pc_fd := Some (wire_sock []), pc_authenticated := True, pc_auth_expire_at := 9000000\<rparr>"

lemma demo_linked_ok: "peer_ok demo_cfg demo_linked" "pc_outbox demo_linked = []"
  "outbox_push demo_msg demo_linked = demo_sending"
  using demo_peer_ok
  by (simp_all add: demo_linked_def demo_sending_def peer_ok_def address_ok_def outbox_ok_def backoff_ok_def)
    (simp add: outbox_push_def demo_peer_def peer_new_def const_defs)

lemma demo_round:
  "\<exists>w w1 w2 w3 p'. sender_top demo_cfg demo_ctx demo_sending w = Some (S_Outbox, demo_sending, w1)
     \<and> sender_take demo_sending w1 = (S_Send demo_msg, demo_sending, w2)
     \<and> sender_send demo_cfg demo_msg demo_sending w2 = Some (True, p', w3) \<and> pc_outbox p' = []
     \<and> s_out (the (pc_fd p')) = cluster_wire (msg_frame demo_cfg demo_msg)"
proof -
  have f: "pc_fd demo_sending = Some (wire_sock [])" "pc_active demo_sending" "pc_authenticated demo_sending"
    "outbox_ok demo_sending" "pc_outbox demo_sending = [demo_msg]" "w_running demo_world 0" "w_running demo_world 1"
    "timespec_micros (w_clock demo_world 1) < pc_auth_expire_at demo_sending"
    "w_time demo_world 0 - om_enqueued_at demo_msg \<le> 120"
    by (simp_all add: demo_sending_def demo_peer_def peer_new_def outbox_ok_def demo_world_def timespec_micros_def
        const_defs) (simp add: demo_msg_def sync_msg_def)
  have "length (cluster_wire (msg_frame demo_cfg demo_msg)) \<le> 4096"
    by (simp add: length_cluster_wire msg_frame_def demo_msg_def sync_msg_def msg_value_def)
  then have "tx_live (length (cluster_wire (msg_frame demo_cfg demo_msg))) (s_tx (wire_sock []))" by simp
  from sender_round_delivers [OF f this, of demo_ctx] show ?thesis by fastforce
qed

text \<open>A message is accepted, taken and sent.\<close>

theorem outbox_fifo_witness:
  "\<exists>r t. (peer_step demo_cfg demo_ctx)\<^sup>*\<^sup>* (peer_start demo_linked) r \<and> pr_in r = [demo_msg]
     \<and> pc_outbox (pr_peer r) = [] \<and> pr_out r = [(demo_msg, Sent t (cluster_wire (msg_frame demo_cfg demo_msg)))]"
proof -
  obtain w w1 w2 w3 p' where d: "sender_top demo_cfg demo_ctx demo_sending w = Some (S_Outbox, demo_sending, w1)"
    "sender_take demo_sending w1 = (S_Send demo_msg, demo_sending, w2)"
    "sender_send demo_cfg demo_msg demo_sending w2 = Some (True, p', w3)" "pc_outbox p' = []"
    using demo_round by blast
  have o: "pc_outbox demo_sending = [demo_msg]" by (simp add: demo_sending_def)
  let ?step = "peer_step demo_cfg demo_ctx"
  let ?r1 = "(peer_start demo_linked)\<lparr>pr_peer := demo_sending, pr_in := [demo_msg]\<rparr>"
  let ?r3 = "?r1\<lparr>pr_pc := S_Send demo_msg, pr_seen := take_time w1\<rparr>"
  let ?bs = "bytes_put demo_cfg demo_msg demo_sending"
  let ?r4 = "?r3\<lparr>pr_pc := S_Top, pr_peer := p', pr_out := [(demo_msg, Sent (take_time w1) ?bs)]\<rparr>"
  have s1: "?step (peer_start demo_linked) ?r1"
    using step_push [OF demo_msg_ok, of demo_sending "peer_start demo_linked" demo_cfg demo_ctx]
    by (simp add: peer_start_def o demo_linked_ok(2,3))
  have s2: "?step ?r1 (?r1\<lparr>pr_pc := S_Outbox\<rparr>)"
    using step_top [of ?r1 demo_cfg demo_ctx, OF _ _] d(1) by (simp add: peer_start_def)
  have s3: "?step (?r1\<lparr>pr_pc := S_Outbox\<rparr>) ?r3"
    using step_wait [of "?r1\<lparr>pr_pc := S_Outbox\<rparr>" w1] d(2) by (simp add: peer_start_def)
  have s4: "?step ?r3 ?r4"
    using step_sent [of ?r3 demo_msg demo_cfg w2 True p' w3 demo_ctx] d(3,4) o by (simp add: peer_start_def)
  have r: "?step\<^sup>*\<^sup>* (peer_start demo_linked) ?r4"
    using s1 s2 s3 s4 by (meson converse_rtranclp_into_rtranclp rtranclp.rtrancl_refl)
  from outbox_fifo [OF demo_linked_ok(1,2) r] have "?bs = cluster_wire (msg_frame demo_cfg demo_msg)" by simp
  with r d(4) show ?thesis by (intro exI [of _ ?r4] exI [of _ "take_time w1"]) (simp add: peer_start_def)
qed

theorem sender_round_delivers_witness:
  "\<exists>w2 p' w3. sender_send demo_cfg demo_msg demo_sending w2 = Some (True, p', w3) \<and> pc_outbox p' = []
     \<and> s_out (the (pc_fd p')) = cluster_wire (msg_frame demo_cfg demo_msg)"
  using demo_round by blast

end
