(* ===== verification/Dmmr_Cluster.thy ===== *)
theory Dmmr_Cluster
  imports Dmmr_Hello Dmmr_Sender
begin

unbundle bit_operations_syntax

text \<open>
  Serving and using cluster connections (\<open>dmmr_cluster.c\<close>): snapshots from both sides, replicated records, and
  \<open>handle_cluster_connection\<close>.  The loops read one message after the other and end because every message
  takes bytes off the connection.
\<close>

section \<open>Snapshots\<close>

definition send_snapshot_item :: "cluster_cfg \<Rightarrow> db_record \<Rightarrow> sock \<Rightarrow> (bool \<times> sock) option" where
  "send_snapshot_item cfg record s =
     (case cluster_send_frame cfg OP_SYNC (if r_tombstone record then FLAG_TOMBSTONE else FLAG_NONE)
             (Some (r_key record)) (length (r_key record)) (r_value record) (r_value_len record)
             (r_timestamp record) (r_node_id record) (r_expire_at record) s of
        None \<Rightarrow> None
      | Some (rc, s') \<Rightarrow> Some (rc = 0, s'))"

definition send_control :: "cluster_cfg \<Rightarrow> u16 \<Rightarrow> sock \<Rightarrow> (int \<times> sock) option" where
  "send_control cfg opcode s = cluster_send_frame cfg opcode FLAG_NONE None 0 None 0 0 (cfg_node_id cfg) 0 s"

definition send_snapshot :: "cluster_cfg \<Rightarrow> sock \<Rightarrow> 's node \<Rightarrow> (int \<times> sock \<times> 's node) run" where
  "send_snapshot cfg s st =
     (case send_control cfg OP_CLUSTER_SYNC_BEGIN s of
        None \<Rightarrow> Blocked
      | Some (rc, s1) \<Rightarrow>
          if rc \<noteq> 0 then Done (- 1, s1, st)
          else let ((cursor_ok, evs), w1) = draw_cursor (nd_world st); st1 = st\<lparr>nd_world := w1\<rparr> in
            (case db_snapshot_foreach (send_snapshot_item cfg) cursor_ok evs (nd_dbp st1) s1 of
               None \<Rightarrow> Blocked
             | Some (r, s2) \<Rightarrow>
                 if r \<noteq> DMMR_DB_APPLIED then Done (- 1, s2, st1)
                 else (case send_control cfg OP_CLUSTER_SYNC_END s2 of
                         None \<Rightarrow> Blocked
                       | Some (rc, s3) \<Rightarrow> Done (rc, s3, st1))))"

text \<open>The call of \<open>db_apply_record\<close> for a received \<open>OP_SYNC\<close> frame.  A payload that \<open>cluster_recv_frame\<close> returns has exactly
  \<open>key_len + value_len\<close> bytes (lemma \<open>cluster_recv_wf\<close>), so the key and the value read here lie inside it.\<close>

definition apply_frame :: "'s bdb \<Rightarrow> dmmr_cluster_frame \<Rightarrow> bytes option \<Rightarrow> 's node \<Rightarrow> db_result \<times> 's node" where
  "apply_frame B frame payload st =
     (let key_len = unat (cf_key_len frame); value_len = unat (cf_value_len frame);
          (mem_ok, w1) = draw_mem (nd_world st);
          (rc, dbp') = db_apply_record B mem_ok (map_option (take key_len) payload) (cf_timestamp frame)
             (cf_node_id frame) (cf_expire_at frame) (cf_flags frame AND FLAG_TOMBSTONE \<noteq> 0)
             (if value_len > 0 then map_option (drop key_len) payload else None) value_len (nd_dbp st)
      in (rc, st\<lparr>nd_dbp := dbp', nd_world := w1\<rparr>))"

lemma cluster_recv_term:
  "cluster_recv_frame m s = Some (Some (f, p), s') \<Longrightarrow> rx_measure (s_rx s') < rx_measure (s_rx s)"
  by (rule cluster_recv_measure(1))

function snapshot_loop :: "'s bdb \<Rightarrow> cluster_cfg \<Rightarrow> bool \<Rightarrow> sock \<Rightarrow> 's node \<Rightarrow> (int \<times> sock \<times> 's node) run" where
  "snapshot_loop B cfg saw_begin s st =
     (let (running, w1) = draw_running (nd_world st) in
      if \<not> running then Done (- 1, s, st\<lparr>nd_world := w1\<rparr>)
      else let (mem_ok, w2) = draw_mem w1; st2 = st\<lparr>nd_world := w2\<rparr> in
        (case cluster_recv_frame mem_ok s of
           None \<Rightarrow> Blocked
         | Some (None, s1) \<Rightarrow> Done (- 1, s1, st2)
         | Some (Some (frame, payload), s1) \<Rightarrow>
             if authenticate_cluster_frame cfg frame \<noteq> 0 then Done (- 1, s1, st2)
             else if cf_opcode frame = OP_CLUSTER_SYNC_BEGIN then snapshot_loop B cfg True s1 st2
             else if cf_opcode frame = OP_SYNC \<and> saw_begin then
               (case apply_frame B frame payload st2 of
                  (rc, st3) \<Rightarrow> if rc = DMMR_DB_ERROR then Done (- 1, s1, st3) else snapshot_loop B cfg saw_begin s1 st3)
             else if cf_opcode frame = OP_CLUSTER_SYNC_END \<and> saw_begin then Done (0, s1, st2)
             else Done (- 1, s1, st2)))"
  by pat_completeness auto
termination
  by (relation "measure (\<lambda>(B, cfg, saw, s, st). rx_measure (s_rx s))") (auto dest: cluster_recv_term)

declare snapshot_loop.simps [simp del]

definition request_snapshot ::
  "'s bdb \<Rightarrow> cluster_cfg \<Rightarrow> sha256_ctx \<Rightarrow> peer_endpoint \<Rightarrow> 's node \<Rightarrow> (int \<times> sock option \<times> 's node) run" where
  "request_snapshot B cfg ctx endpoint st =
     (let (net, w1) = draw_net (nd_world st) in
      case connect_endpoint net endpoint of
        None \<Rightarrow> Done (- 1, None, st\<lparr>nd_world := w1\<rparr>)
      | Some s \<Rightarrow>
          let (nonce_a, w2) = draw_nonce w1; (mem_ok, w3) = draw_mem w2; st3 = st\<lparr>nd_world := w3\<rparr> in
          (case cluster_handshake_client cfg ctx nonce_a mem_ok s of
             None \<Rightarrow> Blocked
           | Some (rc, expire, s1) \<Rightarrow>
               if rc \<noteq> 0 then Done (- 1, Some (s1\<lparr>s_open := False\<rparr>), st3)
               else (case send_control cfg OP_CLUSTER_SYNC_REQUEST s1 of
                       None \<Rightarrow> Blocked
                     | Some (rc, s2) \<Rightarrow>
                         if rc \<noteq> 0 then Done (- 1, Some (s2\<lparr>s_open := False\<rparr>), st3)
                         else (case snapshot_loop B cfg False s2 st3 of
                                 Done (rc, s3, st4) \<Rightarrow> Done (rc, Some (s3\<lparr>s_open := False\<rparr>), st4)
                               | Blocked \<Rightarrow> Blocked
                               | Fault \<Rightarrow> Fault))))"

section \<open>Serving a connection\<close>

definition handle_cluster_sync :: "'s bdb \<Rightarrow> dmmr_cluster_frame \<Rightarrow> bytes option \<Rightarrow> 's node \<Rightarrow> int \<times> 's node" where
  "handle_cluster_sync B frame payload st =
     (if cf_node_id frame = 0 \<or> cf_key_len frame = 0 \<or> payload = None then (- 1, st)
      else case apply_frame B frame payload st of
        (rc, st') \<Rightarrow> (if rc = DMMR_DB_ERROR then - 1 else 0, st'))"

text \<open>The answer to \<open>OP_AUTH_REQUEST\<close> and the wait for \<open>OP_AUTH_OK\<close>: \<open>Some expire_at\<close> for a session, \<open>None\<close> to
  leave the loop.\<close>

definition conn_auth ::
  "cluster_cfg \<Rightarrow> sha256_ctx \<Rightarrow> dmmr_cluster_frame \<Rightarrow> bytes option \<Rightarrow> sock \<Rightarrow> 's node \<Rightarrow>
     (u64 option \<times> sock \<times> 's node) run" where
  "conn_auth cfg ctx frame payload s st =
     (if unat (cf_value_len frame) < 8 then Done (None, s, st)
      else case rd (unat (cf_key_len frame)) 8 (payload_bytes payload) of
        None \<Rightarrow> Fault
      | Some nonce_a \<Rightarrow>
          let (nonce_b, w1) = draw_nonce (nd_world st); (now, w2) = draw_micros w1; (mem_ok, w3) = draw_mem w2;
              expire_at = now + AUTH_TTL_MICROS; st3 = st\<lparr>nd_world := w3\<rparr> in
          (case auth_answer cfg ctx nonce_a nonce_b expire_at s of
             None \<Rightarrow> Blocked
           | Some (rc, s1) \<Rightarrow>
               if rc \<noteq> 0 then Done (None, s1, st3)
               else (case cluster_recv_frame mem_ok s1 of
                       None \<Rightarrow> Blocked
                     | Some (None, s2) \<Rightarrow> Done (None, s2, st3)
                     | Some (Some (frame2, payload2), s2) \<Rightarrow>
                         if cf_opcode frame2 \<noteq> OP_AUTH_OK then Done (None, s2, st3)
                         else Done (Some expire_at, s2, st3))))"

text \<open>The \<open>switch\<close> over the opcodes of a session.\<close>

definition conn_dispatch ::
  "'s bdb \<Rightarrow> cluster_cfg \<Rightarrow> dmmr_cluster_frame \<Rightarrow> bytes option \<Rightarrow> sock \<Rightarrow> 's node \<Rightarrow> (sock \<times> 's node) run" where
  "conn_dispatch B cfg frame payload s st =
     (if cf_opcode frame = OP_CLUSTER_SYNC_REQUEST then
        if cf_node_id frame \<noteq> 0 \<and> cf_key_len frame = 0 \<and> cf_value_len frame = 0 then
          (case send_snapshot cfg s st of
             Done (rc, s', st') \<Rightarrow> Done (s', st') | Blocked \<Rightarrow> Blocked | Fault \<Rightarrow> Fault)
        else Done (s, st)
      else if cf_opcode frame = OP_SYNC then Done (s, snd (handle_cluster_sync B frame payload st))
      else Done (s, st))"

lemma send_control_rx: "send_control cfg op s = Some (rc, s') \<Longrightarrow> s_rx s' = s_rx s \<and> s_open s' = s_open s"
  unfolding send_control_def by (rule cluster_send_rx)

lemma snapshot_item_rx: "send_snapshot_item cfg r s = Some (ok, s') \<Longrightarrow> s_rx s' = s_rx s \<and> s_open s' = s_open s"
  by (auto simp: send_snapshot_item_def dest!: cluster_send_rx split: option.splits)

lemma snapshot_walk_rx:
  "snapshot_walk (send_snapshot_item cfg) evs s = Some (r, s') \<Longrightarrow> s_rx s' = s_rx s \<and> s_open s' = s_open s"
  by (induction "send_snapshot_item cfg" evs s rule: snapshot_walk.induct)
    (fastforce split: if_splits option.splits dest: snapshot_item_rx)+

lemma send_snapshot_rx:
  "send_snapshot cfg s st = Done (rc, s', st') \<Longrightarrow> s_rx s' = s_rx s \<and> s_open s' = s_open s \<and> nd_dbp st' = nd_dbp st
     \<and> nd_peers st' = nd_peers st"
  by (auto simp: send_snapshot_def db_snapshot_foreach_def Let_def dest!: send_control_rx snapshot_walk_rx
      split: option.splits prod.splits if_splits)

lemma dispatch_rx: "conn_dispatch B cfg f p s st = Done (s', st') \<Longrightarrow> s_rx s' = s_rx s \<and> s_open s' = s_open s"
  by (auto simp: conn_dispatch_def dest!: send_snapshot_rx split: if_splits run.splits prod.splits)

lemma conn_auth_rx:
  assumes "conn_auth cfg ctx f p s st = Done (r, s', st')"
  shows "r \<noteq> None \<Longrightarrow> rx_measure (s_rx s') < rx_measure (s_rx s)" and "nd_dbp st' = nd_dbp st" and "nd_peers st' = nd_peers st"
  using assms
  by (auto simp: conn_auth_def Let_def auth_answer_def dest!: cluster_send_rx cluster_recv_term
      split: option.splits prod.splits if_splits)

function handle_cluster_connection ::
  "'s bdb \<Rightarrow> cluster_cfg \<Rightarrow> sha256_ctx \<Rightarrow> bool \<Rightarrow> u64 \<Rightarrow> sock \<Rightarrow> 's node \<Rightarrow> (sock \<times> 's node) run" where
  "handle_cluster_connection B cfg ctx authenticated auth_expire_at s st =
     (let (running, w1) = draw_running (nd_world st) in
      if \<not> running then Done (s\<lparr>s_open := False\<rparr>, st\<lparr>nd_world := w1\<rparr>)
      else let (mem_ok, w2) = draw_mem w1; st2 = st\<lparr>nd_world := w2\<rparr> in
        (case cluster_recv_frame mem_ok s of
           None \<Rightarrow> Blocked
         | Some (None, s1) \<Rightarrow> Done (s1\<lparr>s_open := False\<rparr>, st2)
         | Some (Some (frame, payload), s1) \<Rightarrow>
             if cluster_secret cfg \<noteq> [] \<and> cf_opcode frame = OP_CLUSTER_HELLO then
               (case handle_cluster_hello cfg s1 frame payload st2 of
                  Done (rc, s2, st3) \<Rightarrow> Done (s2\<lparr>s_open := False\<rparr>, st3) | Blocked \<Rightarrow> Blocked | Fault \<Rightarrow> Fault)
             else if cluster_secret cfg \<noteq> [] \<and> \<not> authenticated then
               (if cf_opcode frame = OP_AUTH_REQUEST then
                  (case conn_auth cfg ctx frame payload s1 st2 of
                     Done (None, s2, st3) \<Rightarrow> Done (s2\<lparr>s_open := False\<rparr>, st3)
                   | Done (Some expire_at, s2, st3) \<Rightarrow> handle_cluster_connection B cfg ctx True expire_at s2 st3
                   | Blocked \<Rightarrow> Blocked
                   | Fault \<Rightarrow> Fault)
                else Done (s1\<lparr>s_open := False\<rparr>, st2))
             else let (expired, w3) = (if cluster_secret cfg \<noteq> [] then (let (now, w) = draw_micros w2 in (now \<ge> auth_expire_at, w))
                                       else (False, w2)); st3 = st2\<lparr>nd_world := w3\<rparr> in
               if expired \<or> authenticate_cluster_frame cfg frame \<noteq> 0 then Done (s1\<lparr>s_open := False\<rparr>, st3)
               else (case conn_dispatch B cfg frame payload s1 st3 of
                       Done (s2, st4) \<Rightarrow> handle_cluster_connection B cfg ctx authenticated auth_expire_at s2 st4
                     | Blocked \<Rightarrow> Blocked
                     | Fault \<Rightarrow> Fault)))"
  by pat_completeness auto
termination
  by (relation "measure (\<lambda>(B, cfg, ctx, a, e, s, st). rx_measure (s_rx s))")
    (auto dest!: cluster_recv_term dispatch_rx conn_auth_rx(1) split: if_splits)

declare handle_cluster_connection.simps [simp del]

section \<open>A store that does not fail\<close>

definition update_ok :: "bytes \<times> lww_rec \<Rightarrow> bool" where
  "update_ok u \<longleftrightarrow> key_ok (fst u) \<and> length (l_value (snd u)) \<le> MAX_VALUE_LEN \<and> (l_tomb (snd u) \<longrightarrow> l_value (snd u) = [])"

lemma apply_reliable:
  assumes "bdb_reliable B" and "db_wf B s" and "update_ok (k, r)"
  shows "fst (db_apply_record B True (Some k) (l_ts r) (l_node r) (l_expire r) (l_tomb r) (Some (l_value r))
     (length (l_value r)) (Some s)) \<noteq> DMMR_DB_ERROR"
proof -
  obtain s' where put: "bdb_put B s k (record_image (l_ts r) (l_node r) (l_expire r) (l_tomb r) (l_value r)) = (True, s')"
    using assms(1) by (metis bdb_reliable_def prod.collapse)
  show ?thesis
    using assms put
    by (cases "bdb_get B s k")
      (auto simp: db_apply_record_def put_record_locked_def update_ok_def key_ok_def db_wf_def bdb_reliable_def)
qed

lemma deliver_reliable:
  assumes "bdb_contract B" and "bdb_reliable B" and "db_wf B s" and "list_all update_ok us"
  shows "\<exists>s'. db_deliver B us (Some s) = Some (Some s') \<and> db_view B s' = lww_run (db_view B s) us \<and> db_wf B s'"
proof -
  have "\<exists>dbp. db_deliver B us (Some s) = Some dbp"
    using assms(3,4)
  proof (induction us arbitrary: s)
    case (Cons u us)
    obtain k r where u: "u = (k, r)" by fastforce
    obtain rc dbp where ap: "db_apply_record B True (Some k) (l_ts r) (l_node r) (l_expire r) (l_tomb r)
        (Some (l_value r)) (length (l_value r)) (Some s) = (rc, dbp)" by fastforce
    with apply_reliable [OF assms(2) Cons.prems(1), of k r] Cons.prems(2) u have rc: "rc \<noteq> DMMR_DB_ERROR" by simp
    from db_apply_view [OF assms(1) ap rc] Cons.prems(1) obtain s1 where "dbp = Some s1" "db_wf B s1" by auto
    with Cons.IH [of s1] Cons.prems(2) ap rc u show ?case by simp
  qed simp
  with db_deliver_view [OF assms(1)] assms(3) show ?thesis by fastforce
qed

lemma lww_run_distinct:
  assumes "distinct (map fst us)"
  shows "lww_run m us k = (case map_of us k of None \<Rightarrow> m k | Some r \<Rightarrow> lww_merge rec_wins (m k) r)"
proof -
  have "map snd (filter (\<lambda>u. fst u = k) us) = (case map_of us k of None \<Rightarrow> [] | Some r \<Rightarrow> [r])"
    using assms
  proof (induction us)
    case (Cons u us)
    then have "map_of us (fst u) = None" by (simp add: map_of_eq_None_iff)
    with Cons show ?case by (cases u) auto
  qed simp
  then show ?thesis by (simp add: lww_run_key split: option.splits)
qed

section \<open>Replicated records on the wire\<close>

text \<open>The update an outbox message stands for.\<close>

definition msg_update :: "outbox_msg \<Rightarrow> bytes \<times> lww_rec" where
  "msg_update m = (om_key m, \<lparr>l_ts = om_timestamp m, l_node = om_node_id m, l_expire = om_expire_at m,
     l_tomb = (om_flags m AND FLAG_TOMBSTONE \<noteq> 0), l_value = msg_value m\<rparr>)"

definition steady :: "world \<Rightarrow> bool" where
  "steady w \<longleftrightarrow> (\<forall>n. w_mem w n \<and> w_running w n)"

lemma steady_draws [simp]:
  "steady w \<Longrightarrow> fst (draw_mem w)" "steady w \<Longrightarrow> steady (snd (draw_mem w))"
  "steady w \<Longrightarrow> fst (draw_running w)" "steady w \<Longrightarrow> steady (snd (draw_running w))"
  "steady (snd (draw_micros w)) = steady w" "steady (snd (draw_nonce w)) = steady w"
  "w_clock (snd (draw_mem w)) = w_clock w" "w_clock (snd (draw_running w)) = w_clock w"
  "w_clock (snd (draw_nonce w)) = w_clock w" "w_clock (snd (draw_micros w)) = (\<lambda>n. w_clock w (Suc n))"
  "fst (draw_micros w) = timespec_micros (w_clock w 0)"
  by (simp_all add: steady_def draw_mem_def draw_running_def draw_micros_def draw_nonce_def)

lemma cursor_draws [simp]:
  "w_cursor (snd (draw_mem w)) = w_cursor w" "w_cursor (snd (draw_running w)) = w_cursor w"
  "w_cursor (snd (draw_nonce w)) = w_cursor w" "w_cursor (snd (draw_micros w)) = w_cursor w"
  "steady (snd (draw_cursor w)) = steady w"
  by (simp_all add: draw_mem_def draw_running_def draw_nonce_def draw_micros_def draw_cursor_def steady_def)

lemma steady_running: "steady w \<Longrightarrow> \<exists>w1. draw_running w = (True, w1) \<and> steady w1 \<and> w_clock w1 = w_clock w"
  by (simp add: draw_running_def steady_def)

lemma steady_mem: "steady w \<Longrightarrow> \<exists>w1. draw_mem w = (True, w1) \<and> steady w1 \<and> w_clock w1 = w_clock w"
  by (simp add: draw_mem_def steady_def)

text \<open>The world some draws later.\<close>

definition later :: "world \<Rightarrow> world \<Rightarrow> bool" where
  "later w w' \<longleftrightarrow> steady w' \<and> (\<exists>j. w_clock w' = (\<lambda>n. w_clock w (n + j)))"

lemma later_refl [simp]: "later w w \<longleftrightarrow> steady w"
  by (auto simp: later_def intro: exI [of _ 0])

lemma later_trans: "later w w1 \<Longrightarrow> later w1 w2 \<Longrightarrow> later w w2"
  by (auto simp: later_def add.assoc)

lemma later_draws:
  "later w w1 \<Longrightarrow> later w (snd (draw_mem w1))" "later w w1 \<Longrightarrow> later w (snd (draw_running w1))"
  "later w w1 \<Longrightarrow> later w (snd (draw_nonce w1))"
  by (simp_all add: later_def)

lemma later_micros: "later w w1 \<Longrightarrow> later w (snd (draw_micros w1))"
  unfolding later_def by (elim conjE exE) (auto intro!: exI [of _ "Suc _"])

lemma apply_value_none:
  "db_apply_record B m k ts node ex tomb None 0 dbp = db_apply_record B m k ts node ex tomb (Some []) 0 dbp"
  by (cases k; cases dbp) (simp_all add: db_apply_record_def)

lemma msg_frame_fields [simp]:
  "cf_opcode (fst (msg_frame cfg m)) = om_opcode m" "cf_flags (fst (msg_frame cfg m)) = om_flags m"
  "cf_timestamp (fst (msg_frame cfg m)) = om_timestamp m" "cf_node_id (fst (msg_frame cfg m)) = om_node_id m"
  "cf_expire_at (fst (msg_frame cfg m)) = om_expire_at m" "snd (msg_frame cfg m) = om_key m @ msg_value m"
  "cf_cluster_id (fst (msg_frame cfg m)) = cluster_id_of (cluster_name cfg)"
  by (simp_all add: msg_frame_def cluster_header_def)

lemma apply_msg:
  assumes "msg_ok m" and "steady (nd_world st)"
    and "db_deliver B (msg_update m # us) (nd_dbp st) = Some dbp'"
  shows "\<exists>rc st'. apply_frame B (fst (msg_frame cfg m)) (payload_opt (snd (msg_frame cfg m))) st = (rc, st')
     \<and> rc \<noteq> DMMR_DB_ERROR \<and> db_deliver B us (nd_dbp st') = Some dbp' \<and> nd_world st' = snd (draw_mem (nd_world st))
     \<and> nd_peers st' = nd_peers st"
proof -
  note l = msg_frame_ok(2,3) [OF assms(1), of cfg]
  have p: "payload_opt (snd (msg_frame cfg m)) = Some (om_key m @ msg_value m)"
    using assms(1) by (simp add: payload_opt_def msg_ok_def)
  let ?v = "if length (msg_value m) > 0 then Some (msg_value m) else None"
  have v: "db_apply_record B True (Some (om_key m)) (om_timestamp m) (om_node_id m) (om_expire_at m)
      (om_flags m AND FLAG_TOMBSTONE \<noteq> 0) ?v (length (msg_value m)) (nd_dbp st)
    = db_apply_record B True (Some (om_key m)) (om_timestamp m) (om_node_id m) (om_expire_at m)
      (om_flags m AND FLAG_TOMBSTONE \<noteq> 0) (Some (msg_value m)) (length (msg_value m)) (nd_dbp st)"
    by (cases "msg_value m") (simp_all add: apply_value_none)
  obtain rc dbp1 where ap: "db_apply_record B True (Some (om_key m)) (om_timestamp m) (om_node_id m) (om_expire_at m)
      (om_flags m AND FLAG_TOMBSTONE \<noteq> 0) (Some (msg_value m)) (length (msg_value m)) (nd_dbp st) = (rc, dbp1)"
    by fastforce
  have "apply_frame B (fst (msg_frame cfg m)) (payload_opt (snd (msg_frame cfg m))) st
      = (rc, st\<lparr>nd_dbp := dbp1, nd_world := snd (draw_mem (nd_world st))\<rparr>)"
    unfolding apply_frame_def p l using v ap assms(2)
    by (simp add: case_prod_beta cong: if_cong)
  with assms(3) ap show ?thesis by (auto simp: msg_update_def split: if_splits)
qed

definition same_cluster :: "cluster_cfg \<Rightarrow> cluster_cfg \<Rightarrow> bool" where
  "same_cluster a b \<longleftrightarrow> cluster_name a = cluster_name b \<and> (cluster_name a = [] \<or> dmmr_fnv1a_32 (cluster_name a) \<noteq> 0)"

lemma authenticate_same:
  assumes "same_cluster cfg cli" and "cf_cluster_id f = cluster_id_of (cluster_name cli)"
  shows "authenticate_cluster_frame cfg f = 0"
  using assms by (auto simp: same_cluster_def authenticate_cluster_frame_def check_cluster_id_def cluster_id_of_def)

lemma recv_eof:
  assumes "stream_of (s_rx s) = []" and "stream_end (s_rx s) = EndEof"
  shows "\<exists>evs. cluster_recv_frame m s = Some (None, s\<lparr>s_rx := evs\<rparr>)"
proof -
  have "map_option fst (recv_full 4 s) = Some (0, [])"
    using recv_full_outcome [of 4 s] assms by (simp add: recv_outcome_def)
  then obtain evs where "recv_full 4 s = Some ((0, []), s\<lparr>s_rx := evs\<rparr>)"
    by (auto simp: recv_full_def split: option.splits)
  then show ?thesis by (intro exI [of _ evs]) (simp add: cluster_recv_frame_def)
qed

section \<open>Sessions\<close>

text \<open>One iteration of the connection loop in an authenticated session.\<close>

lemma connection_frame:
  assumes "cluster_secret cfg \<noteq> []" and "steady (nd_world st)"
    and "cluster_recv_frame True s = Some (Some (frame, payload), s1)" and "cf_opcode frame \<noteq> OP_CLUSTER_HELLO"
    and "timespec_micros (w_clock (nd_world st) 0) < e" and "authenticate_cluster_frame cfg frame = 0"
  shows "handle_cluster_connection B cfg ctx True e s st =
     (case conn_dispatch B cfg frame payload s1
             (st\<lparr>nd_world := snd (draw_micros (snd (draw_mem (snd (draw_running (nd_world st))))))\<rparr>) of
        Done (s2, st4) \<Rightarrow> handle_cluster_connection B cfg ctx True e s2 st4 | Blocked \<Rightarrow> Blocked | Fault \<Rightarrow> Fault)"
proof -
  obtain w1 where d1: "draw_running (nd_world st) = (True, w1)" "steady w1" "w_clock w1 = w_clock (nd_world st)"
    using steady_running [OF assms(2)] by blast
  obtain w2 where d2: "draw_mem w1 = (True, w2)" "w_clock w2 = w_clock (nd_world st)"
    using steady_mem [OF d1(2)] d1(3) by auto
  obtain w3 where d3: "draw_micros w2 = (timespec_micros (w_clock (nd_world st) 0), w3)"
    using d2(2) by (simp add: draw_micros_def)
  have "(e \<le> timespec_micros (w_clock (nd_world st) 0)) = False" using assms(5) by (simp add: not_le)
  note d = d1(1) d2(1) d3 this
  show ?thesis
    by (subst handle_cluster_connection.simps) (simp add: d assms(1,3,4,6) Let_def)
qed

lemma connection_eof:
  assumes "steady (nd_world st)" and "stream_of (s_rx s) = []" and "stream_end (s_rx s) = EndEof"
  shows "\<exists>s' st'. handle_cluster_connection B cfg ctx a e s st = Done (s', st') \<and> nd_dbp st' = nd_dbp st
     \<and> nd_peers st' = nd_peers st \<and> s_out s' = s_out s \<and> \<not> s_open s' \<and> later (nd_world st) (nd_world st')"
proof -
  obtain w1 w2 where d: "draw_running (nd_world st) = (True, w1)" "draw_mem w1 = (True, w2)"
    using steady_running [OF assms(1)] steady_mem by blast
  have "later (nd_world st) w2"
    using later_draws(1) [OF later_draws(2), of "nd_world st" "nd_world st"] assms(1) d by simp
  obtain evs where "cluster_recv_frame True s = Some (None, s\<lparr>s_rx := evs\<rparr>)" using recv_eof [OF assms(2,3)] by blast
  with \<open>later (nd_world st) w2\<close> show ?thesis by (subst handle_cluster_connection.simps) (simp add: d)
qed

definition sync_ok :: "outbox_msg \<Rightarrow> bool" where
  "sync_ok m \<longleftrightarrow> msg_ok m \<and> om_opcode m = OP_SYNC \<and> om_node_id m \<noteq> 0"

lemma dispatch_sync:
  assumes "sync_ok m" and "steady (nd_world st)"
    and "db_deliver B (msg_update m # us) (nd_dbp st) = Some dbp'"
  shows "\<exists>st'. conn_dispatch B cfg (fst (msg_frame cli m)) (payload_opt (snd (msg_frame cli m))) s st = Done (s, st')
     \<and> db_deliver B us (nd_dbp st') = Some dbp' \<and> nd_world st' = snd (draw_mem (nd_world st)) \<and> nd_peers st' = nd_peers st"
proof -
  have m: "msg_ok m" using assms(1) by (simp add: sync_ok_def)
  obtain rc st' where a: "apply_frame B (fst (msg_frame cli m)) (payload_opt (snd (msg_frame cli m))) st = (rc, st')"
    "db_deliver B us (nd_dbp st') = Some dbp'" "nd_world st' = snd (draw_mem (nd_world st))" "nd_peers st' = nd_peers st"
    using apply_msg [OF m assms(2,3), of cli] by blast
  have p: "payload_opt (snd (msg_frame cli m)) = Some (om_key m @ msg_value m)"
    using m by (simp add: msg_ok_def payload_opt_def)
  have "cf_key_len (fst (msg_frame cli m)) \<noteq> 0"
    using msg_frame_ok(2) [OF m, of cli] m by (auto simp: msg_ok_def)
  moreover have "OP_SYNC \<noteq> OP_CLUSTER_SYNC_REQUEST" by (simp add: const_defs)
  ultimately show ?thesis
    using assms(1) a unfolding p by (simp add: conn_dispatch_def handle_cluster_sync_def sync_ok_def)
qed

lemma session_steps:
  assumes "cluster_secret cfg \<noteq> []" and "same_cluster cfg cli" and "list_all sync_ok msgs"
    and "steady (nd_world st)" and "\<And>n. timespec_micros (w_clock (nd_world st) n) < e"
    and "stream_of (s_rx s) = concat (map (\<lambda>m. cluster_wire (msg_frame cli m)) msgs)"
    and "db_deliver B (map msg_update msgs) (nd_dbp st) = Some dbp'"
  shows "\<exists>evs st'. handle_cluster_connection B cfg ctx True e s st = handle_cluster_connection B cfg ctx True e (s\<lparr>s_rx := evs\<rparr>) st'
     \<and> stream_of evs = [] \<and> stream_end evs = stream_end (s_rx s) \<and> nd_dbp st' = dbp' \<and> later (nd_world st) (nd_world st')"
  using assms(3-7)
proof (induction msgs arbitrary: s st)
  case Nil
  then show ?case by (intro exI [of _ "s_rx s"] exI [of _ st]) simp
next
  case (Cons m msgs)
  have m: "sync_ok m" "cluster_msg_ok (msg_frame cli m)" "OP_SYNC \<noteq> OP_CLUSTER_HELLO"
    using Cons.prems(1) msg_frame_ok(1) by (auto simp: sync_ok_def const_defs)
  obtain evs where r: "cluster_recv_frame True s
      = Some (Some (fst (msg_frame cli m), payload_opt (snd (msg_frame cli m))), s\<lparr>s_rx := evs\<rparr>)"
    and st: "stream_of evs = concat (map (\<lambda>m. cluster_wire (msg_frame cli m)) msgs)" "stream_end evs = stream_end (s_rx s)"
    using cluster_recv_msg [OF m(2), of s] Cons.prems(4) by fastforce
  let ?st = "st\<lparr>nd_world := snd (draw_micros (snd (draw_mem (snd (draw_running (nd_world st))))))\<rparr>"
  have w: "steady (nd_world ?st)" using Cons.prems(2) by simp
  obtain st' where d: "conn_dispatch B cfg (fst (msg_frame cli m)) (payload_opt (snd (msg_frame cli m))) (s\<lparr>s_rx := evs\<rparr>) ?st
      = Done (s\<lparr>s_rx := evs\<rparr>, st')" "db_deliver B (map msg_update msgs) (nd_dbp st') = Some dbp'"
      "nd_world st' = snd (draw_mem (nd_world ?st))"
    using dispatch_sync [OF m(1) w, of B "map msg_update msgs" dbp' cfg cli] Cons.prems(5) by auto
  have "cf_opcode (fst (msg_frame cli m)) \<noteq> OP_CLUSTER_HELLO" using m(1,3) by (simp add: sync_ok_def)
  from connection_frame [OF assms(1) Cons.prems(2) r this Cons.prems(3)
      authenticate_same [OF assms(2) msg_frame_fields(7)], of B ctx] d(1)
  have step: "handle_cluster_connection B cfg ctx True e s st = handle_cluster_connection B cfg ctx True e (s\<lparr>s_rx := evs\<rparr>) st'"
    by simp
  have tail: "list_all sync_ok msgs" "steady (nd_world st')" "timespec_micros (w_clock (nd_world st') n) < e" for n
    using Cons.prems(1-3) d(3) w by simp_all
  have "later (nd_world st) (nd_world st')"
    using Cons.prems(2) unfolding d(3) by (simp add: later_draws later_micros)
  moreover from Cons.IH [OF tail, of "s\<lparr>s_rx := evs\<rparr>"] st(1) d(2) obtain evs' st''
    where "handle_cluster_connection B cfg ctx True e (s\<lparr>s_rx := evs\<rparr>) st' = handle_cluster_connection B cfg ctx True e (s\<lparr>s_rx := evs'\<rparr>) st''"
      "stream_of evs' = []" "stream_end evs' = stream_end evs" "nd_dbp st'' = dbp'" "later (nd_world st') (nd_world st'')"
    by auto
  ultimately show ?case
    using step st(2) later_trans by (intro exI [of _ evs'] exI [of _ st'']) auto
qed

text \<open>The opening of a session by the server.\<close>

lemma conn_auth_opens:
  assumes "length (sha_data ctx) = 64" and "steady (nd_world st)" and "tx_live (96 + k) (s_tx s)"
    and "stream_of (s_rx s) = cluster_wire (auth_ok_msg cli) @ rest"
  defines "nonce_b \<equiv> generate_nonce (w_entropy (nd_world st) 0)"
    and "expire_at \<equiv> timespec_micros (w_clock (nd_world st) 0) + AUTH_TTL_MICROS"
  shows "\<exists>s' st'. conn_auth cfg ctx (fst (auth_request_msg cli nonce_a)) (payload_opt (snd (auth_request_msg cli nonce_a))) s st
       = Done (Some expire_at, s', st')
     \<and> s_out s' = s_out s @ cluster_wire (auth_response_msg cfg (be_bytes 8 nonce_a) nonce_b expire_at)
     \<and> stream_of (s_rx s') = rest \<and> stream_end (s_rx s') = stream_end (s_rx s)
     \<and> nd_dbp st' = nd_dbp st \<and> nd_peers st' = nd_peers st \<and> tx_live k (s_tx s')
     \<and> nd_world st' = snd (draw_mem (snd (draw_micros (snd (draw_nonce (nd_world st))))))"
proof -
  let ?m = "auth_request_msg cli nonce_a"
  have p: "payload_opt (snd ?m) = Some (be_bytes 8 nonce_a)" by (simp add: payload_opt_def length_0_conv [symmetric] del: length_0_conv)
  have rd: "rd 0 8 (be_bytes 8 nonce_a) = Some (be_bytes 8 nonce_a)" by (simp add: rd_def sub_def)
  obtain t e where a: "auth_answer cfg ctx (be_bytes 8 nonce_a) nonce_b expire_at s = Some (0, s\<lparr>s_tx := t, s_errno_eintr := e,
      s_out := s_out s @ cluster_wire (auth_response_msg cfg (be_bytes 8 nonce_a) nonce_b expire_at)\<rparr>)"
      "tx_live k t"
    using auth_answer_sends [of k s ctx cfg "be_bytes 8 nonce_a" nonce_b expire_at] assms(1,3) by auto
  let ?s1 = "s\<lparr>s_tx := t, s_errno_eintr := e,
      s_out := s_out s @ cluster_wire (auth_response_msg cfg (be_bytes 8 nonce_a) nonce_b expire_at)\<rparr>"
  obtain evs where r: "cluster_recv_frame True ?s1 = Some (Some (fst (auth_ok_msg cli), payload_opt (snd (auth_ok_msg cli))), ?s1\<lparr>s_rx := evs\<rparr>)"
    "stream_of evs = rest" "stream_end evs = stream_end (s_rx s)"
    using cluster_recv_msg [of "auth_ok_msg cli" ?s1 rest] assms(4) by auto
  obtain w1 where d1: "draw_nonce (nd_world st) = (nonce_b, w1)" "w_clock w1 = w_clock (nd_world st)" "steady w1"
    using assms(2) by (simp add: nonce_b_def draw_nonce_def steady_def)
  obtain w2 where d2: "draw_micros w1 = (timespec_micros (w_clock (nd_world st) 0), w2)" "steady w2"
    using d1(2,3) by (simp add: draw_micros_def steady_def)
  obtain w3 where d3: "draw_mem w2 = (True, w3)" using steady_mem [OF d2(2)] by blast
  note d = d1(1) d2(1) d3
  have "conn_auth cfg ctx (fst ?m) (payload_opt (snd ?m)) s st
      = Done (Some expire_at, ?s1\<lparr>s_rx := evs\<rparr>, st\<lparr>nd_world := w3\<rparr>)"
    unfolding conn_auth_def p using a(1) r(1) rd by (simp add: d expire_at_def [symmetric])
  with r(2,3) a(2) show ?thesis by (simp add: d)
qed

section \<open>Snapshots on the wire\<close>

definition control_msg :: "cluster_cfg \<Rightarrow> u16 \<Rightarrow> dmmr_cluster_frame \<times> bytes" where
  "control_msg cfg op = (cluster_header cfg op FLAG_NONE 0 0 0 (cfg_node_id cfg) 0, [])"

lemma control_msg_ok [simp]:
  "cluster_msg_ok (control_msg cfg op)" "cf_opcode (fst (control_msg cfg op)) = op" "snd (control_msg cfg op) = []"
  "cf_cluster_id (fst (control_msg cfg op)) = cluster_id_of (cluster_name cfg)"
  "cf_node_id (fst (control_msg cfg op)) = cfg_node_id cfg" "cf_key_len (fst (control_msg cfg op)) = 0"
  "cf_value_len (fst (control_msg cfg op)) = 0"
  by (simp_all add: cluster_msg_ok_def control_msg_def cluster_header_def const_defs)

lemma send_control_live:
  assumes "tx_live (48 + k) (s_tx s)"
  shows "\<exists>s'. send_control cfg op s = Some (0, s') \<and> s_out s' = s_out s @ cluster_wire (control_msg cfg op)
     \<and> tx_live k (s_tx s') \<and> s_rx s' = s_rx s"
  using cluster_send_live [of None 0 None 0 cfg op FLAG_NONE 0 "cfg_node_id cfg" 0 k s] assms
  by (auto simp: send_control_def args_ok_def args_payload_def control_msg_def length_cluster_wire)

text \<open>A stored row as the message the snapshot sends for it.\<close>

definition row_msg :: "bytes \<times> bytes \<Rightarrow> outbox_msg" where
  "row_msg row = (let r = snapshot_record (fst row) (snd row) in
     \<lparr>om_opcode = OP_SYNC, om_flags = (if r_tombstone r then FLAG_TOMBSTONE else FLAG_NONE), om_key = fst row,
      om_key_len = of_nat (length (fst row)), om_value = r_value r, om_value_len = of_nat (r_value_len r),
      om_timestamp = r_timestamp r, om_node_id = r_node_id r, om_expire_at = r_expire_at r, om_enqueued_at = 0\<rparr>)"

definition row_ok :: "bytes \<times> bytes \<Rightarrow> bool" where
  "row_ok row \<longleftrightarrow> entry_is_valid (snd row) \<and> key_ok (fst row)"

lemma row_value_len:
  assumes "row_ok row"
  shows "r_value_len (snapshot_record (fst row) (snd row)) \<le> MAX_VALUE_LEN"
    and "r_value_len (snapshot_record (fst row) (snd row)) > 0 \<Longrightarrow>
      \<exists>v. r_value (snapshot_record (fst row) (snd row)) = Some v \<and> length v = r_value_len (snapshot_record (fst row) (snd row))"
  using assms
  by (auto simp: row_ok_def snapshot_record_def entry_is_valid_def Let_def split: if_splits)

lemma row_lengths:
  assumes "row_ok row"
  shows "unat (of_nat (length (fst row)) :: u32) = length (fst row)"
    and "unat (of_nat (r_value_len (snapshot_record (fst row) (snd row))) :: u32) = r_value_len (snapshot_record (fst row) (snd row))"
  using assms row_value_len(1) [OF assms]
  by (simp_all add: row_ok_def key_ok_def const_defs unsigned_of_nat take_bit_eq_mod)

lemma row_msg_ok:
  assumes "row_ok row"
  shows "msg_ok (row_msg row)"
  using assms row_value_len [OF assms] row_lengths [OF assms]
  by (cases "r_value_len (snapshot_record (fst row) (snd row)) = 0")
    (auto simp: msg_ok_def row_msg_def row_ok_def key_ok_def Let_def)

lemma row_update:
  assumes "row_ok row"
  shows "msg_update (row_msg row) = (fst row, rec_of_data (snd row))"
proof -
  let ?r = "snapshot_record (fst row) (snd row)"
  have v: "msg_value (row_msg row) = (case r_value ?r of None \<Rightarrow> [] | Some v \<Rightarrow> v)"
  proof (cases "r_value_len ?r = 0")
    case True
    moreover from True have "r_value ?r = None" by (simp add: snapshot_record_def Let_def)
    ultimately show ?thesis by (simp add: msg_value_def row_msg_def Let_def)
  next
    case False
    with row_lengths(2) [OF assms] have "(of_nat (r_value_len ?r) :: u32) \<noteq> 0" by (metis unat_0)
    with False row_value_len(2) [OF assms] show ?thesis by (auto simp: msg_value_def row_msg_def Let_def)
  qed
  have t: "r_tombstone ?r \<Longrightarrow> msg_value (row_msg row) = []"
    unfolding v using assms by (auto simp: row_ok_def snapshot_record_def entry_is_valid_def Let_def split: if_splits)
  have f: "(om_flags (row_msg row) AND FLAG_TOMBSTONE \<noteq> 0) = r_tombstone ?r"
    by (simp add: row_msg_def Let_def const_defs)
  have "rec_of_data (snd row) = mk_rec (r_timestamp ?r) (r_node_id ?r) (r_expire_at ?r) (r_tombstone ?r) (msg_value (row_msg row))"
    unfolding v using snapshot_record_rec [of "snd row" "fst row"] assms by (simp add: row_ok_def)
  with f t show ?thesis by (auto simp: msg_update_def mk_rec_def row_msg_def Let_def)
qed

lemma snapshot_item_msg:
  assumes "row_ok row"
  shows "send_snapshot_item cfg (snapshot_record (fst row) (snd row)) s
     = map_option (\<lambda>(rc, s'). (rc = 0, s')) (send_msg cfg (row_msg row) s)"
proof -
  have "r_key (snapshot_record (fst row) (snd row)) = fst row" by (simp add: snapshot_record_def Let_def)
  then show ?thesis
    unfolding send_snapshot_item_def send_msg_def
    by (simp add: row_msg_def Let_def row_lengths [OF assms] split: option.split)
qed

abbreviation msgs_wire :: "cluster_cfg \<Rightarrow> outbox_msg list \<Rightarrow> bytes" where
  "msgs_wire cfg msgs \<equiv> concat (map (\<lambda>m. cluster_wire (msg_frame cfg m)) msgs)"

lemma snapshot_walk_sends:
  assumes "list_all row_ok rows" and "tx_live (length (msgs_wire cfg (map row_msg rows)) + k) (s_tx s)"
  shows "\<exists>s'. snapshot_walk (send_snapshot_item cfg) (map (\<lambda>(key, data). CurRow key data True) rows @ CurEnd # evs) s
       = Some (DMMR_DB_APPLIED, s')
     \<and> s_out s' = s_out s @ msgs_wire cfg (map row_msg rows) \<and> tx_live k (s_tx s')"
  using assms
proof (induction rows arbitrary: s)
  case (Cons row rows)
  have ok: "row_ok row" "list_all row_ok rows" using Cons.prems(1) by simp_all
  obtain t e where s1: "send_msg cfg (row_msg row) s = Some (0, s\<lparr>s_tx := t, s_errno_eintr := e,
        s_out := s_out s @ cluster_wire (msg_frame cfg (row_msg row))\<rparr>)"
    and live: "tx_live (length (msgs_wire cfg (map row_msg rows)) + k) t"
    using send_msg_live [OF row_msg_ok [OF ok(1)], of cfg "length (msgs_wire cfg (map row_msg rows)) + k" s] Cons.prems(2)
    by (auto simp: add.assoc)
  let ?s1 = "s\<lparr>s_tx := t, s_errno_eintr := e, s_out := s_out s @ cluster_wire (msg_frame cfg (row_msg row))\<rparr>"
  have "send_snapshot_item cfg (snapshot_record (fst row) (snd row)) s = Some (True, ?s1)"
    using snapshot_item_msg [OF ok(1), of cfg s] s1 by simp
  moreover have "entry_is_valid (snd row)" "\<not> (length (fst row) = 0 \<or> length (fst row) > MAX_KEY_LEN)"
    using ok(1) by (auto simp: row_ok_def key_ok_def)
  ultimately show ?case
    using Cons.IH [OF ok(2), of ?s1] live by (cases row) auto
qed simp

lemma send_snapshot_live:
  assumes "list_all row_ok rows" and "nd_dbp st \<noteq> None"
    and "w_cursor (nd_world st) 0 = (True, map (\<lambda>(key, data). CurRow key data True) rows @ CurEnd # evs)"
    and "tx_live (96 + length (msgs_wire cfg (map row_msg rows))) (s_tx s)"
  shows "\<exists>s' st'. send_snapshot cfg s st = Done (0, s', st') \<and> nd_dbp st' = nd_dbp st \<and> nd_peers st' = nd_peers st
     \<and> nd_world st' = snd (draw_cursor (nd_world st))
     \<and> s_out s' = s_out s @ cluster_wire (control_msg cfg OP_CLUSTER_SYNC_BEGIN) @ msgs_wire cfg (map row_msg rows)
         @ cluster_wire (control_msg cfg OP_CLUSTER_SYNC_END)"
proof -
  let ?n = "length (msgs_wire cfg (map row_msg rows))"
  have a: "96 + ?n = 48 + (?n + 48)" by simp
  obtain s1 where s1: "send_control cfg OP_CLUSTER_SYNC_BEGIN s = Some (0, s1)"
    "s_out s1 = s_out s @ cluster_wire (control_msg cfg OP_CLUSTER_SYNC_BEGIN)" "tx_live (?n + 48) (s_tx s1)"
    using send_control_live [of "?n + 48" s cfg OP_CLUSTER_SYNC_BEGIN] assms(4) unfolding a by blast
  obtain s2 where s2: "snapshot_walk (send_snapshot_item cfg) (map (\<lambda>(key, data). CurRow key data True) rows @ CurEnd # evs) s1
      = Some (DMMR_DB_APPLIED, s2)" "s_out s2 = s_out s1 @ msgs_wire cfg (map row_msg rows)" "tx_live 48 (s_tx s2)"
    using snapshot_walk_sends [OF assms(1) s1(3)] by blast
  obtain s3 where s3: "send_control cfg OP_CLUSTER_SYNC_END s2 = Some (0, s3)"
    "s_out s3 = s_out s2 @ cluster_wire (control_msg cfg OP_CLUSTER_SYNC_END)"
    using send_control_live [of 0 s2 cfg OP_CLUSTER_SYNC_END] s2(3) by auto
  show ?thesis
    using s1 s2 s3 assms(2,3) by (simp add: send_snapshot_def draw_cursor_def db_snapshot_foreach_def)
qed

text \<open>Reading a snapshot.\<close>

lemma snapshot_loop_step:
  assumes "steady (nd_world st)" and "cluster_msg_ok m" and "stream_of (s_rx s) = cluster_wire m @ rest"
    and "authenticate_cluster_frame cfg (fst m) = 0"
  shows "\<exists>evs w2. stream_of evs = rest \<and> steady w2 \<and> snapshot_loop B cfg saw s st =
     (if cf_opcode (fst m) = OP_CLUSTER_SYNC_BEGIN then snapshot_loop B cfg True (s\<lparr>s_rx := evs\<rparr>) (st\<lparr>nd_world := w2\<rparr>)
      else if cf_opcode (fst m) = OP_SYNC \<and> saw then
        (case apply_frame B (fst m) (payload_opt (snd m)) (st\<lparr>nd_world := w2\<rparr>) of
           (rc, st3) \<Rightarrow> if rc = DMMR_DB_ERROR then Done (- 1, s\<lparr>s_rx := evs\<rparr>, st3)
                        else snapshot_loop B cfg saw (s\<lparr>s_rx := evs\<rparr>) st3)
      else if cf_opcode (fst m) = OP_CLUSTER_SYNC_END \<and> saw then Done (0, s\<lparr>s_rx := evs\<rparr>, st\<lparr>nd_world := w2\<rparr>)
      else Done (- 1, s\<lparr>s_rx := evs\<rparr>, st\<lparr>nd_world := w2\<rparr>))"
proof -
  obtain w1 w2 where d: "draw_running (nd_world st) = (True, w1)" "draw_mem w1 = (True, w2)" "steady w2"
    using steady_running [OF assms(1)] steady_mem by blast
  obtain evs where r: "cluster_recv_frame True s = Some (Some (fst m, payload_opt (snd m)), s\<lparr>s_rx := evs\<rparr>)"
    "stream_of evs = rest" using cluster_recv_msg [OF assms(2,3)] by blast
  show ?thesis
    by (intro exI [of _ evs] exI [of _ w2] conjI r(2) d(3)) (subst snapshot_loop.simps, simp add: d r(1) assms(4) Let_def)
qed

lemma snapshot_loop_rows:
  assumes "same_cluster cfg srv" and "list_all msg_ok msgs" and "list_all (\<lambda>m. om_opcode m = OP_SYNC) msgs"
    and "steady (nd_world st)"
    and "stream_of (s_rx s) = msgs_wire srv msgs @ cluster_wire (control_msg srv OP_CLUSTER_SYNC_END) @ rest"
    and "db_deliver B (map msg_update msgs) (nd_dbp st) = Some dbp'"
  shows "\<exists>s' st'. snapshot_loop B cfg True s st = Done (0, s', st') \<and> nd_dbp st' = dbp' \<and> s_out s' = s_out s
     \<and> stream_of (s_rx s') = rest"
  using assms(2-)
proof (induction msgs arbitrary: s st)
  case Nil
  have "OP_CLUSTER_SYNC_END \<noteq> OP_CLUSTER_SYNC_BEGIN" "OP_CLUSTER_SYNC_END \<noteq> OP_SYNC" by (simp_all add: const_defs)
  with snapshot_loop_step [OF Nil(3), of "control_msg srv OP_CLUSTER_SYNC_END" s rest cfg B True] Nil
    authenticate_same [OF assms(1), of "fst (control_msg srv OP_CLUSTER_SYNC_END)"]
  show ?case by auto
next
  case (Cons m msgs)
  have m: "msg_ok m" "om_opcode m = OP_SYNC" "OP_SYNC \<noteq> OP_CLUSTER_SYNC_BEGIN" using Cons.prems(1,2) by (simp_all add: const_defs)
  let ?rest = "msgs_wire srv msgs @ cluster_wire (control_msg srv OP_CLUSTER_SYNC_END) @ rest"
  have "stream_of (s_rx s) = cluster_wire (msg_frame srv m) @ ?rest" using Cons.prems(4) by simp
  from snapshot_loop_step [OF Cons.prems(3) msg_frame_ok(1) [OF m(1)] this authenticate_same [OF assms(1)], of B True]
  obtain evs w2 where st: "stream_of evs = ?rest" "steady w2" and l: "snapshot_loop B cfg True s st =
        (case apply_frame B (fst (msg_frame srv m)) (payload_opt (snd (msg_frame srv m))) (st\<lparr>nd_world := w2\<rparr>) of
           (rc, st3) \<Rightarrow> if rc = DMMR_DB_ERROR then Done (- 1, s\<lparr>s_rx := evs\<rparr>, st3)
                        else snapshot_loop B cfg True (s\<lparr>s_rx := evs\<rparr>) st3)"
    using m(2,3) by auto
  obtain rc st' where "apply_frame B (fst (msg_frame srv m)) (payload_opt (snd (msg_frame srv m))) (st\<lparr>nd_world := w2\<rparr>) = (rc, st')"
    "rc \<noteq> DMMR_DB_ERROR" "db_deliver B (map msg_update msgs) (nd_dbp st') = Some dbp'" "nd_world st' = snd (draw_mem w2)"
    using apply_msg [OF m(1), of "st\<lparr>nd_world := w2\<rparr>" B "map msg_update msgs" dbp' srv] Cons.prems(5) st(2) by auto
  with l have "snapshot_loop B cfg True s st = snapshot_loop B cfg True (s\<lparr>s_rx := evs\<rparr>) st'"
    "db_deliver B (map msg_update msgs) (nd_dbp st') = Some dbp'" "steady (nd_world st')" using st(2) by auto
  with Cons.IH [of st' "s\<lparr>s_rx := evs\<rparr>"] Cons.prems(1,2) st(1) show ?case by simp
qed

lemma snapshot_loop_reads:
  assumes "same_cluster cfg srv" and "list_all row_ok rows" and "steady (nd_world st)"
    and "stream_of (s_rx s) = cluster_wire (control_msg srv OP_CLUSTER_SYNC_BEGIN) @ msgs_wire srv (map row_msg rows)
           @ cluster_wire (control_msg srv OP_CLUSTER_SYNC_END) @ rest"
    and "db_deliver B (map (\<lambda>row. (fst row, rec_of_data (snd row))) rows) (nd_dbp st) = Some dbp'"
  shows "\<exists>s' st'. snapshot_loop B cfg False s st = Done (0, s', st') \<and> nd_dbp st' = dbp' \<and> s_out s' = s_out s
     \<and> stream_of (s_rx s') = rest"
proof -
  have u: "map msg_update (map row_msg rows) = map (\<lambda>row. (fst row, rec_of_data (snd row))) rows"
    using assms(2) by (simp add: list_all_iff row_update)
  have ms: "list_all msg_ok (map row_msg rows)" "list_all (\<lambda>m. om_opcode m = OP_SYNC) (map row_msg rows)"
    using assms(2) by (auto simp: list_all_iff row_msg_ok) (simp add: row_msg_def Let_def)
  from snapshot_loop_step [OF assms(3) _ assms(4), of cfg B False]
    authenticate_same [OF assms(1), of "fst (control_msg srv OP_CLUSTER_SYNC_BEGIN)"]
  obtain evs w2 where "stream_of evs = msgs_wire srv (map row_msg rows) @ cluster_wire (control_msg srv OP_CLUSTER_SYNC_END) @ rest"
    "steady w2" "snapshot_loop B cfg False s st = snapshot_loop B cfg True (s\<lparr>s_rx := evs\<rparr>) (st\<lparr>nd_world := w2\<rparr>)" by auto
  moreover have "db_deliver B (map msg_update (map row_msg rows)) (nd_dbp st) = Some dbp'"
    using assms(5) by (simp only: u)
  ultimately show ?thesis
    using snapshot_loop_rows [OF assms(1) ms, of "st\<lparr>nd_world := w2\<rparr>" "s\<lparr>s_rx := evs\<rparr>" rest B dbp']
    by (simp del: map_map)
qed

section \<open>A snapshot from both ends\<close>

text \<open>What the successive calls of a cursor return on a store nobody writes to: each stored pair once.\<close>

definition cursor_lists :: "'s bdb \<Rightarrow> 's \<Rightarrow> (bytes \<times> bytes) list \<Rightarrow> bool" where
  "cursor_lists B d rows \<longleftrightarrow> distinct (map fst rows) \<and> (\<forall>k data. (k, data) \<in> set rows \<longleftrightarrow> bdb_get B d k = GetOk data)"

definition keys_ok :: "'s bdb \<Rightarrow> 's \<Rightarrow> bool" where
  "keys_ok B d \<longleftrightarrow> (\<forall>k data. bdb_get B d k = GetOk data \<longrightarrow> key_ok k)"

definition merged :: "lww_rec option \<Rightarrow> lww_rec option \<Rightarrow> lww_rec option" where
  "merged mine theirs = (case theirs of None \<Rightarrow> mine | Some r \<Rightarrow> lww_merge rec_wins mine r)"

abbreviation row_updates :: "(bytes \<times> bytes) list \<Rightarrow> (bytes \<times> lww_rec) list" where
  "row_updates rows \<equiv> map (\<lambda>row. (fst row, rec_of_data (snd row))) rows"

abbreviation snapshot_wire :: "cluster_cfg \<Rightarrow> (bytes \<times> bytes) list \<Rightarrow> bytes" where
  "snapshot_wire srv rows \<equiv> cluster_wire (control_msg srv OP_CLUSTER_SYNC_BEGIN) @ msgs_wire srv (map row_msg rows)
     @ cluster_wire (control_msg srv OP_CLUSTER_SYNC_END)"

lemma cursor_rows_ok: "cursor_lists B d rows \<Longrightarrow> db_wf B d \<Longrightarrow> keys_ok B d \<Longrightarrow> list_all row_ok rows"
  by (auto simp: cursor_lists_def db_wf_def keys_ok_def row_ok_def list_all_iff)

lemma row_update_ok: "row_ok row \<Longrightarrow> update_ok (fst row, rec_of_data (snd row))"
  by (auto simp: update_ok_def row_ok_def rec_of_data_def entry_is_valid_def Let_def sub_def split: if_splits)

lemma cursor_lists_view:
  assumes "cursor_lists B d rows"
  shows "map_of (row_updates rows) = db_view B d"
proof
  fix k
  have dist: "distinct (map fst (row_updates rows))" using assms by (simp add: cursor_lists_def o_def)
  show "map_of (row_updates rows) k = db_view B d k"
  proof (cases "bdb_get B d k")
    case (GetOk data)
    then have "(k, data) \<in> set rows" using assms by (simp add: cursor_lists_def)
    then have "(k, rec_of_data data) \<in> set (row_updates rows)" by force
    with map_of_is_SomeI [OF dist this] GetOk show ?thesis by (simp add: db_view_def)
  qed (use assms in \<open>auto simp: db_view_def cursor_lists_def map_of_eq_None_iff\<close>)
qed

lemma snapshot_merges:
  assumes "bdb_contract B" and "bdb_reliable B" and "db_wf B d" and "cursor_lists A e rows" and "list_all row_ok rows"
  shows "\<exists>d'. db_deliver B (row_updates rows) (Some d) = Some (Some d') \<and> db_wf B d'
     \<and> (\<forall>k. db_view B d' k = merged (db_view B d k) (db_view A e k))"
proof -
  have "list_all update_ok (row_updates rows)" using assms(5) row_update_ok by (auto simp: list_all_iff)
  from deliver_reliable [OF assms(1-3) this] obtain d' where
    d': "db_deliver B (row_updates rows) (Some d) = Some (Some d')" "db_wf B d'"
    "db_view B d' = lww_run (db_view B d) (row_updates rows)" by blast
  have "distinct (map fst (row_updates rows))" using assms(4) by (simp add: cursor_lists_def o_def)
  from lww_run_distinct [OF this] d' show ?thesis
    unfolding cursor_lists_view [OF assms(4)] by (simp add: merged_def)
qed

text \<open>The server's side: the session is opened and the request answered.\<close>

lemma snapshot_session:
  assumes "cluster_secret srv \<noteq> []" and "length (sha_data ctx) = 64" and "same_cluster srv cli" and "cfg_node_id cli \<noteq> 0"
    and "list_all row_ok rows" and "nd_dbp st \<noteq> None" and "steady (nd_world st)"
    and "w_cursor (nd_world st) 0 = (True, map (\<lambda>(key, data). CurRow key data True) rows @ CurEnd # evs)"
    and "tx_live (192 + length (msgs_wire srv (map row_msg rows))) (s_tx t)"
    and "\<And>n. timespec_micros (w_clock (nd_world st) n) < timespec_micros (w_clock (nd_world st) 0) + AUTH_TTL_MICROS"
    and "stream_of (s_rx t) = cluster_wire (auth_request_msg cli nonce_a) @ cluster_wire (auth_ok_msg cli)
           @ cluster_wire (control_msg cli OP_CLUSTER_SYNC_REQUEST)"
    and "stream_end (s_rx t) = EndEof"
  shows "\<exists>t' st' nonce_b expire_at. handle_cluster_connection B srv ctx False 0 t st = Done (t', st')
     \<and> nd_dbp st' = nd_dbp st
     \<and> s_out t' = s_out t @ cluster_wire (auth_response_msg srv (be_bytes 8 nonce_a) nonce_b expire_at) @ snapshot_wire srv rows"
proof -
  let ?req = "auth_request_msg cli nonce_a" and ?n = "96 + length (msgs_wire srv (map row_msg rows))"
  let ?sync = "control_msg cli OP_CLUSTER_SYNC_REQUEST"
  obtain w1 where d1: "draw_running (nd_world st) = (True, w1)" "steady w1" "w_clock w1 = w_clock (nd_world st)"
    using steady_running [OF assms(7)] by blast
  obtain w2 where d2: "draw_mem w1 = (True, w2)" "steady w2" "w_clock w2 = w_clock (nd_world st)"
    using steady_mem [OF d1(2)] d1(3) by auto
  have cur: "w_cursor w2 = w_cursor (nd_world st)"
    using cursor_draws(1) [of w1] cursor_draws(2) [of "nd_world st"] d1(1) d2(1) by simp
  obtain evs1 where r: "cluster_recv_frame True t = Some (Some (fst ?req, payload_opt (snd ?req)), t\<lparr>s_rx := evs1\<rparr>)"
    "stream_of evs1 = cluster_wire (auth_ok_msg cli) @ cluster_wire ?sync" "stream_end evs1 = EndEof"
    using cluster_recv_msg [OF auth_msgs_ok(1) assms(11)] assms(12) by auto
  let ?t1 = "t\<lparr>s_rx := evs1\<rparr>" and ?st = "st\<lparr>nd_world := w2\<rparr>"
  define e where "e = timespec_micros (w_clock (nd_world st) 0) + AUTH_TTL_MICROS"
  have live: "tx_live (96 + ?n) (s_tx ?t1)" using assms(9) by (simp add: add.assoc)
  obtain t2 st2 nonce_b where a: "conn_auth srv ctx (fst ?req) (payload_opt (snd ?req)) ?t1 ?st = Done (Some e, t2, st2)"
    "s_out t2 = s_out t @ cluster_wire (auth_response_msg srv (be_bytes 8 nonce_a) nonce_b e)"
    "stream_of (s_rx t2) = cluster_wire ?sync @ []" "stream_end (s_rx t2) = EndEof" "nd_dbp st2 = nd_dbp st"
    "nd_world st2 = snd (draw_mem (snd (draw_micros (snd (draw_nonce w2)))))" "tx_live ?n (s_tx t2)"
    using conn_auth_opens [OF assms(2), of ?st ?n ?t1 cli "cluster_wire ?sync" srv nonce_a] d2 live r(2,3)
    by (auto simp: e_def)
  have "OP_AUTH_REQUEST \<noteq> OP_CLUSTER_HELLO" by (simp add: const_defs)
  then have c: "handle_cluster_connection B srv ctx False 0 t st = handle_cluster_connection B srv ctx True e t2 st2"
    using a(1) by (subst handle_cluster_connection.simps) (simp add: d1(1) d2(1) r(1) assms(1))
  have w: "steady (nd_world st2)" "timespec_micros (w_clock (nd_world st2) 0) < e"
    "w_cursor (nd_world st2) = w_cursor (nd_world st)"
    using d2 a(6) assms(10) cur by (simp_all add: e_def)
  obtain evs2 where r2: "cluster_recv_frame True t2 = Some (Some (fst ?sync, payload_opt (snd ?sync)), t2\<lparr>s_rx := evs2\<rparr>)"
    "stream_of evs2 = []" "stream_end evs2 = EndEof"
    using cluster_recv_msg [OF control_msg_ok(1) a(3)] a(4) by auto
  let ?st3 = "st2\<lparr>nd_world := snd (draw_micros (snd (draw_mem (snd (draw_running (nd_world st2))))))\<rparr>"
  obtain t3 st3 where s3: "send_snapshot srv (t2\<lparr>s_rx := evs2\<rparr>) ?st3 = Done (0, t3, st3)" "nd_dbp st3 = nd_dbp st"
    "nd_world st3 = snd (draw_cursor (nd_world ?st3))" "s_out t3 = s_out t2 @ snapshot_wire srv rows"
    using send_snapshot_live [OF assms(5), of ?st3 evs srv "t2\<lparr>s_rx := evs2\<rparr>"] assms(6,8) a(5,7) w(3) by auto
  have disp: "conn_dispatch B srv (fst ?sync) (payload_opt (snd ?sync)) (t2\<lparr>s_rx := evs2\<rparr>) ?st3 = Done (t3, st3)"
    using s3(1) assms(4) by (simp add: conn_dispatch_def)
  have "cf_opcode (fst ?sync) \<noteq> OP_CLUSTER_HELLO" by (simp add: const_defs)
  from connection_frame [OF assms(1) w(1) r2(1) this w(2) authenticate_same [OF assms(3)], of B ctx] disp
  have "handle_cluster_connection B srv ctx True e t2 st2 = handle_cluster_connection B srv ctx True e t3 st3" by simp
  moreover have "steady (nd_world st3)" using s3(3) w(1) by simp
  moreover have "stream_of (s_rx t3) = []" "stream_end (s_rx t3) = EndEof"
    using send_snapshot_rx [OF s3(1)] r2(2,3) by simp_all
  ultimately show ?thesis
    using connection_eof [of st3 t3 B srv ctx True e] c s3(2,4) a(2) by auto
qed

text \<open>The joining node's side.\<close>

lemma request_snapshot_reads:
  assumes "cluster_secret cfg \<noteq> []" and "length (sha_data ctx) = 64" and "cluster_secret srv = cluster_secret cfg"
    and "same_cluster cfg srv" and "connect_endpoint (w_net (nd_world st) 0) ep = Some s" and "steady (nd_world st)"
    and "tx_live 152 (s_tx s)" and "nonce_a = fst (draw_nonce (snd (draw_net (nd_world st))))" and "list_all row_ok rows"
    and "stream_of (s_rx s) = cluster_wire (auth_response_msg srv (be_bytes 8 nonce_a) nonce_b expire_at) @ snapshot_wire srv rows"
    and "db_deliver B (row_updates rows) (nd_dbp st) = Some dbp'"
  shows "\<exists>s' st'. request_snapshot B cfg ctx ep st = Done (0, Some s', st') \<and> nd_dbp st' = dbp' \<and> stream_of (s_rx s') = []
     \<and> s_out s' = s_out s @ cluster_wire (auth_request_msg cfg nonce_a) @ cluster_wire (auth_ok_msg cfg)
         @ cluster_wire (control_msg cfg OP_CLUSTER_SYNC_REQUEST) \<and> \<not> s_open s'"
proof -
  obtain w1 where d1: "draw_net (nd_world st) = (w_net (nd_world st) 0, w1)" "steady w1"
    using assms(6) by (simp add: draw_net_def steady_def)
  obtain w2 where d2: "draw_nonce w1 = (nonce_a, w2)" "steady w2"
    using assms(8) d1 steady_draws(6) [of w1] by (cases "draw_nonce w1") simp
  obtain w3 where d3: "draw_mem w2 = (True, w3)" "steady w3" using steady_mem [OF d2(2)] by blast
  obtain s1 where s1: "auth_exchange cfg ctx nonce_a True s = Some (Some expire_at, s1)"
    "s_out s1 = s_out s @ cluster_wire (auth_request_msg cfg nonce_a) @ cluster_wire (auth_ok_msg cfg)"
    "stream_of (s_rx s1) = snapshot_wire srv rows" "tx_live (48 + 0) (s_tx s1)"
    using auth_exchange_accepts [OF assms(2) _ assms(3,10), of 48] assms(7) by auto
  obtain s2 where s2: "send_control cfg OP_CLUSTER_SYNC_REQUEST s1 = Some (0, s2)"
    "s_out s2 = s_out s1 @ cluster_wire (control_msg cfg OP_CLUSTER_SYNC_REQUEST)" "s_rx s2 = s_rx s1"
    using send_control_live [OF s1(4)] by blast
  have "stream_of (s_rx s2) = cluster_wire (control_msg srv OP_CLUSTER_SYNC_BEGIN) @ msgs_wire srv (map row_msg rows)
      @ cluster_wire (control_msg srv OP_CLUSTER_SYNC_END) @ []" using s1(3) s2(3) by simp
  from snapshot_loop_reads [OF assms(4,9) _ this, of "st\<lparr>nd_world := w3\<rparr>" B dbp'] d3(2) assms(11)
  obtain s3 st3 where "snapshot_loop B cfg False s2 (st\<lparr>nd_world := w3\<rparr>) = Done (0, s3, st3)" "nd_dbp st3 = dbp'"
    "s_out s3 = s_out s2" "stream_of (s_rx s3) = []" by auto
  then show ?thesis
    unfolding request_snapshot_def cluster_handshake_client_def
    using assms(1,5) s1 s2 by (simp add: d1(1) d2(1) d3(1))
qed

section \<open>What a connection can change\<close>

lemma send_peer_list_keeps:
  "send_peer_list cfg s st = Done (rc, s', st') \<Longrightarrow> nd_dbp st' = nd_dbp st \<and> nd_peers st' = nd_peers st"
  by (auto simp: send_peer_list_def Let_def split: if_splits option.splits prod.splits)

lemma add_peer_dbp: "add_peer_internal cfg a port node seed st = Done st' \<Longrightarrow> nd_dbp st' = nd_dbp st"
  by (auto simp: add_peer_internal_def draw_time_def draw_mem_def split: option.splits if_splits)

lemma hello_dbp: "handle_cluster_hello cfg s frame payload st = Done (rc, s', st') \<Longrightarrow> nd_dbp st' = nd_dbp st"
  by (auto simp: handle_cluster_hello_def Let_def add_peer_with_node_def
      dest!: send_peer_list_keeps add_peer_dbp split: if_splits option.splits prod.splits run.splits)

lemma dispatch_peers: "conn_dispatch B cfg f p s st = Done (s', st') \<Longrightarrow> nd_peers st' = nd_peers st"
  by (auto simp: conn_dispatch_def handle_cluster_sync_def apply_frame_def Let_def dest!: send_snapshot_rx
      split: if_splits run.splits prod.splits)

text \<open>The start of a connection to a node with a secret.\<close>

lemma connection_unauthenticated:
  fixes st :: "'a node"
  assumes "cluster_secret cfg \<noteq> []" and "handle_cluster_connection B cfg ctx False e s st = Done (s', st')"
  shows "nd_dbp st' = nd_dbp st \<or> (\<exists>m1 f1 p1 s1 expire_at s2 (st1 :: 'a node) st2. cluster_recv_frame m1 s = Some (Some (f1, p1), s1)
     \<and> cf_opcode f1 = OP_AUTH_REQUEST \<and> conn_auth cfg ctx f1 p1 s1 st1 = Done (Some expire_at, s2, st2))"
proof -
  obtain running w1 mem_ok w2 where d: "draw_running (nd_world st) = (running, w1)" "draw_mem w1 = (mem_ok, w2)" by fastforce
  from assms show ?thesis
    by (subst (asm) handle_cluster_connection.simps)
      (auto 4 4 simp: d Let_def dest!: hello_dbp dest: conn_auth_rx(2)
        split: if_splits option.splits prod.splits run.splits)
qed

lemma conn_auth_seen:
  assumes "conn_auth cfg ctx f p s st = Done (Some expire_at, s', st')" and "length (sha_data ctx) = 64"
  shows "unat (cf_value_len f) \<ge> 8 \<and> (\<exists>nonce_b s2 m2 f2 p2. s_rx s2 = s_rx s
     \<and> s_out s2 = s_out s @ cluster_wire (auth_response_msg cfg (sub (unat (cf_key_len f)) 8 (payload_bytes p)) nonce_b expire_at)
     \<and> cluster_recv_frame m2 s2 = Some (Some (f2, p2), s') \<and> cf_opcode f2 = OP_AUTH_OK)"
proof -
  define nonce_a where "nonce_a = sub (unat (cf_key_len f)) 8 (payload_bytes p)"
  from assms(1) obtain nonce_b s2 m2 f2 p2 where v: "unat (cf_value_len f) \<ge> 8"
    and a: "auth_answer cfg ctx nonce_a nonce_b expire_at s = Some (0, s2)"
    and r: "cluster_recv_frame m2 s2 = Some (Some (f2, p2), s')" "cf_opcode f2 = OP_AUTH_OK"
    by (auto simp: conn_auth_def rd_def nonce_a_def Let_def split: if_splits option.splits prod.splits)
  let ?m = "auth_response_msg cfg nonce_a nonce_b expire_at"
  have rsp: "auth_response cfg ctx nonce_a nonce_b expire_at = snd ?m"
    using assms(2) by (simp add: auth_response_def auth_hmac_spec auth_response_msg_def codec_simps)
  have "args_ok None 0 (Some (snd ?m)) 48" by (simp add: args_ok_def const_defs)
  from cluster_send_parts [OF this, of cfg OP_AUTH_RESPONSE FLAG_NONE 0 "cfg_node_id cfg" 0 s] a rsp
  obtain ps where "send_parts ps s = Some (0, s2)" "concat ps = cluster_wire ?m"
    by (auto simp: auth_answer_def args_payload_def auth_response_msg_def)
  from send_parts_prefix [OF this(1)] this(2) have "s_out s2 = s_out s @ cluster_wire ?m" by auto
  moreover have "s_rx s2 = s_rx s" using a unfolding auth_answer_def by (auto dest!: cluster_send_rx)
  ultimately show ?thesis using v r unfolding nonce_a_def by blast
qed

lemma connection_expired:
  assumes "cluster_secret cfg \<noteq> []" and "\<And>n. e \<le> timespec_micros (w_clock (nd_world st) n)"
    and "handle_cluster_connection B cfg ctx True e s st = Done (s', st')"
  shows "nd_dbp st' = nd_dbp st"
proof -
  obtain running w1 mem_ok w2 where d: "draw_running (nd_world st) = (running, w1)" "draw_mem w1 = (mem_ok, w2)" by fastforce
  have c: "w_clock w2 = w_clock (nd_world st)" using d by (auto simp: draw_running_def draw_mem_def)
  obtain w3 where m: "draw_micros w2 = (timespec_micros (w_clock (nd_world st) 0), w3)" using c by (simp add: draw_micros_def)
  from assms(3) show ?thesis
    by (subst (asm) handle_cluster_connection.simps)
      (auto simp: d m assms(1,2) Let_def dest!: hello_dbp split: if_splits option.splits prod.splits run.splits)
qed

lemma connection_no_secret:
  assumes "cluster_secret cfg = []" and "draw_running (nd_world st) = (running, w1)" and "draw_mem w1 = (mem_ok, w2)"
  shows "handle_cluster_connection B cfg ctx a e s st =
     (if \<not> running then Done (s\<lparr>s_open := False\<rparr>, st\<lparr>nd_world := w1\<rparr>)
      else case cluster_recv_frame mem_ok s of
           None \<Rightarrow> Blocked
         | Some (None, s1) \<Rightarrow> Done (s1\<lparr>s_open := False\<rparr>, st\<lparr>nd_world := w2\<rparr>)
         | Some (Some (frame, payload), s1) \<Rightarrow>
             if authenticate_cluster_frame cfg frame \<noteq> 0 then Done (s1\<lparr>s_open := False\<rparr>, st\<lparr>nd_world := w2\<rparr>)
             else (case conn_dispatch B cfg frame payload s1 (st\<lparr>nd_world := w2\<rparr>) of
                     Done (s2, st4) \<Rightarrow> handle_cluster_connection B cfg ctx a e s2 st4
                   | Blocked \<Rightarrow> Blocked
                   | Fault \<Rightarrow> Fault))"
  by (subst handle_cluster_connection.simps) (simp add: assms Let_def split: option.split)

lemma connection_no_secret_peers:
  assumes "cluster_secret cfg = []" and "handle_cluster_connection B cfg ctx a e s st = Done (s', st')"
  shows "nd_peers st' = nd_peers st"
  using assms(2)
proof (induction "rx_measure (s_rx s)" arbitrary: s st rule: less_induct)
  case less
  obtain running w1 mem_ok w2 where d: "draw_running (nd_world st) = (running, w1)" "draw_mem w1 = (mem_ok, w2)" by fastforce
  note e = less.prems [unfolded connection_no_secret [OF assms(1) d]]
  from e consider "nd_peers st' = nd_peers st"
    | f p s1 s2 st4 where "cluster_recv_frame mem_ok s = Some (Some (f, p), s1)"
        "conn_dispatch B cfg f p s1 (st\<lparr>nd_world := w2\<rparr>) = Done (s2, st4)"
        "handle_cluster_connection B cfg ctx a e s2 st4 = Done (s', st')"
    by (auto split: if_splits option.splits prod.splits run.splits)
  then show ?case
  proof cases
    case 2
    have "rx_measure (s_rx s2) < rx_measure (s_rx s)" using cluster_recv_term [OF 2(1)] dispatch_rx [OF 2(2)] by simp
    from less.hyps [OF this 2(3)] dispatch_peers [OF 2(2)] show ?thesis by simp
  qed simp
qed

lemma hello_msg_ok:
  assumes "cfg_ok cfg"
  shows "cluster_msg_ok (hello_msg cfg)"
proof -
  let ?a = "cluster_advertise_address cfg" and ?n = "3 + length (cluster_name cfg)"
  have args: "args_ok (Some ?a) (length ?a) (Some (hello_value cfg)) ?n"
    using assms by (simp add: args_ok_def cfg_ok_def const_defs)
  show ?thesis
    using header_msg_ok(1) [OF args] by (simp add: hello_msg_def args_payload_def hello_value_def)
qed

lemma hello_auth_fields:
  "cf_cluster_id (fst (hello_msg cfg)) = cluster_id_of (cluster_name cfg)" "cf_opcode (fst (hello_msg cfg)) = OP_CLUSTER_HELLO"
  "cf_cluster_id (fst (auth_request_msg cfg a)) = cluster_id_of (cluster_name cfg)"
  by (simp_all add: auth_request_msg_def hello_msg_def cluster_header_def)

lemma no_secret_silent:
  assumes "cluster_secret cfg = []" and "cluster_msg_ok m" and "cf_cluster_id (fst m) = cluster_id_of (cluster_name cli)"
    and "cf_opcode (fst m) \<noteq> OP_CLUSTER_SYNC_REQUEST" and "cf_opcode (fst m) \<noteq> OP_SYNC"
    and "stream_of (s_rx s) = cluster_wire m" and "stream_end (s_rx s) = EndEof" and "steady (nd_world st)" and "same_cluster cfg cli"
  shows "\<exists>s' st'. handle_cluster_connection B cfg ctx False 0 s st = Done (s', st') \<and> s_out s' = s_out s
     \<and> nd_dbp st' = nd_dbp st \<and> nd_peers st' = nd_peers st"
proof -
  obtain w1 w2 where d: "draw_running (nd_world st) = (True, w1)" "draw_mem w1 = (True, w2)" "steady w2"
    using steady_running [OF assms(8)] steady_mem by blast
  obtain evs where r: "cluster_recv_frame True s = Some (Some (fst m, payload_opt (snd m)), s\<lparr>s_rx := evs\<rparr>)"
    "stream_of evs = []" "stream_end evs = EndEof"
    using cluster_recv_msg [OF assms(2), of s "[]"] assms(6,7) by auto
  have "authenticate_cluster_frame cfg (fst m) = 0" by (rule authenticate_same [OF assms(9,3)])
  then have "handle_cluster_connection B cfg ctx False 0 s st
      = handle_cluster_connection B cfg ctx False 0 (s\<lparr>s_rx := evs\<rparr>) (st\<lparr>nd_world := w2\<rparr>)"
    using connection_no_secret [OF assms(1) d(1,2), of B ctx False 0 s] r(1) assms(4,5) by (simp add: conn_dispatch_def)
  with connection_eof [of "st\<lparr>nd_world := w2\<rparr>" "s\<lparr>s_rx := evs\<rparr>" B cfg ctx False 0] d(3) r(2,3)
  show ?thesis by auto
qed

text \<open>A session up to the end of what was sent: the node has applied every update and reads on.\<close>

lemma session_served:
  assumes "cluster_secret cfg \<noteq> []" and "length (sha_data ctx) = 64" and "same_cluster cfg cli"
    and "list_all sync_ok msgs" and "steady (nd_world st)" and "tx_live 96 (s_tx s)"
    and "\<And>n. timespec_micros (w_clock (nd_world st) n) < timespec_micros (w_clock (nd_world st) 0) + AUTH_TTL_MICROS"
    and "stream_of (s_rx s) = cluster_wire (auth_request_msg cli nonce_a) @ cluster_wire (auth_ok_msg cli) @ msgs_wire cli msgs"
    and "db_deliver B (map msg_update msgs) (nd_dbp st) = Some dbp'"
  shows "\<exists>s' st' e nonce_b expire_at. handle_cluster_connection B cfg ctx False 0 s st = handle_cluster_connection B cfg ctx True e s' st'
     \<and> stream_of (s_rx s') = [] \<and> stream_end (s_rx s') = stream_end (s_rx s) \<and> nd_dbp st' = dbp'
     \<and> later (nd_world st) (nd_world st')
     \<and> s_out s' = s_out s @ cluster_wire (auth_response_msg cfg (be_bytes 8 nonce_a) nonce_b expire_at)"
proof -
  let ?req = "auth_request_msg cli nonce_a"
  obtain w1 where d1: "draw_running (nd_world st) = (True, w1)" "steady w1" "w_clock w1 = w_clock (nd_world st)"
    using steady_running [OF assms(5)] by blast
  obtain w2 where d2: "draw_mem w1 = (True, w2)" "steady w2" "w_clock w2 = w_clock (nd_world st)"
    using steady_mem [OF d1(2)] d1(3) by auto
  have "later (nd_world st) w2" using d2(2,3) unfolding later_def by (auto intro: exI [of _ 0])
  obtain evs where r: "cluster_recv_frame True s = Some (Some (fst ?req, payload_opt (snd ?req)), s\<lparr>s_rx := evs\<rparr>)"
    "stream_of evs = cluster_wire (auth_ok_msg cli) @ msgs_wire cli msgs" "stream_end evs = stream_end (s_rx s)"
    using cluster_recv_msg [OF auth_msgs_ok(1) assms(8)] by auto
  let ?s1 = "s\<lparr>s_rx := evs\<rparr>" and ?st = "st\<lparr>nd_world := w2\<rparr>"
  define e where "e = timespec_micros (w_clock (nd_world st) 0) + AUTH_TTL_MICROS"
  obtain s2 st2 nonce_b where a: "conn_auth cfg ctx (fst ?req) (payload_opt (snd ?req)) ?s1 ?st = Done (Some e, s2, st2)"
    "s_out s2 = s_out s @ cluster_wire (auth_response_msg cfg (be_bytes 8 nonce_a) nonce_b e)"
    "stream_of (s_rx s2) = msgs_wire cli msgs" "stream_end (s_rx s2) = stream_end (s_rx s)" "nd_dbp st2 = nd_dbp st"
    "nd_world st2 = snd (draw_mem (snd (draw_micros (snd (draw_nonce w2)))))"
    using conn_auth_opens [OF assms(2), of ?st 0 ?s1 cli "msgs_wire cli msgs" cfg nonce_a] d2 assms(6) r(2,3)
    by (auto simp: e_def)
  have "OP_AUTH_REQUEST \<noteq> OP_CLUSTER_HELLO" by (simp add: const_defs)
  then have c: "handle_cluster_connection B cfg ctx False 0 s st = handle_cluster_connection B cfg ctx True e s2 st2"
    using a(1) by (subst handle_cluster_connection.simps) (simp add: d1(1) d2(1) r(1) assms(1))
  have w2: "steady (nd_world st2)" "timespec_micros (w_clock (nd_world st2) n) < e" for n
    using d2 a(6) assms(7) by (simp_all add: e_def)
  have "later (nd_world st) (nd_world st2)"
    using \<open>later (nd_world st) w2\<close> unfolding a(6) by (simp add: later_draws later_micros)
  moreover from session_steps [OF assms(1,3,4) w2 a(3), of B dbp' ctx] a(5) assms(9) obtain evs' st' where
    "handle_cluster_connection B cfg ctx True e s2 st2 = handle_cluster_connection B cfg ctx True e (s2\<lparr>s_rx := evs'\<rparr>) st'"
    "stream_of evs' = []" "stream_end evs' = stream_end (s_rx s2)" "nd_dbp st' = dbp'" "later (nd_world st2) (nd_world st')"
    by auto
  ultimately show ?thesis
    using c a(2,4) later_trans by (intro exI [of _ "s2\<lparr>s_rx := evs'\<rparr>"] exI [of _ st'] exI) auto
qed

lemma session_opened:
  assumes "cluster_secret cfg \<noteq> []" and "length (sha_data ctx) = 64" and "same_cluster cfg cli"
    and "list_all sync_ok msgs" and "steady (nd_world st)" and "tx_live 96 (s_tx s)"
    and "\<And>n. timespec_micros (w_clock (nd_world st) n) < timespec_micros (w_clock (nd_world st) 0) + AUTH_TTL_MICROS"
    and "stream_of (s_rx s) = cluster_wire (auth_request_msg cli nonce_a) @ cluster_wire (auth_ok_msg cli) @ msgs_wire cli msgs"
    and "stream_end (s_rx s) = EndEof" and "db_deliver B (map msg_update msgs) (nd_dbp st) = Some dbp'"
  shows "\<exists>s' st' nonce_b expire_at. handle_cluster_connection B cfg ctx False 0 s st = Done (s', st') \<and> nd_dbp st' = dbp'
     \<and> s_out s' = s_out s @ cluster_wire (auth_response_msg cfg (be_bytes 8 nonce_a) nonce_b expire_at) \<and> \<not> s_open s'
     \<and> later (nd_world st) (nd_world st')"
proof -
  from session_served [OF assms(1-8,10)] obtain s1 st1 e nonce_b expire_at where
    run: "handle_cluster_connection B cfg ctx False 0 s st = handle_cluster_connection B cfg ctx True e s1 st1"
    and s1: "stream_of (s_rx s1) = []" "stream_end (s_rx s1) = EndEof" and st1: "nd_dbp st1 = dbp'" "later (nd_world st) (nd_world st1)"
    and out: "s_out s1 = s_out s @ cluster_wire (auth_response_msg cfg (be_bytes 8 nonce_a) nonce_b expire_at)"
    using assms(9) by auto
  have "steady (nd_world st1)" using st1(2) by (simp add: later_def)
  from connection_eof [OF this s1, of B cfg ctx True e] obtain s' st' where
    "handle_cluster_connection B cfg ctx True e s1 st1 = Done (s', st')" "nd_dbp st' = nd_dbp st1" "s_out s' = s_out s1"
    "\<not> s_open s'" "later (nd_world st1) (nd_world st')" by blast
  with run st1 out later_trans [OF st1(2)] show ?thesis
    by (intro exI [of _ s'] exI [of _ st'] exI [of _ nonce_b] exI [of _ expire_at]) simp
qed

text \<open>A peer that keeps the session open and has nothing to say keeps the node waiting.\<close>

lemma session_held:
  assumes "cluster_secret cfg \<noteq> []" and "length (sha_data ctx) = 64" and "same_cluster cfg cli"
    and "list_all sync_ok msgs" and "steady (nd_world st)" and "tx_live 96 (s_tx s)"
    and "\<And>n. timespec_micros (w_clock (nd_world st) n) < timespec_micros (w_clock (nd_world st) 0) + AUTH_TTL_MICROS"
    and "stream_of (s_rx s) = cluster_wire (auth_request_msg cli nonce_a) @ cluster_wire (auth_ok_msg cli) @ msgs_wire cli msgs"
    and "stream_end (s_rx s) = EndBlock" and "db_deliver B (map msg_update msgs) (nd_dbp st) = Some dbp'"
  shows "handle_cluster_connection B cfg ctx False 0 s st = Blocked"
proof -
  from session_served [OF assms(1-8,10)] obtain s1 st1 e where
    run: "handle_cluster_connection B cfg ctx False 0 s st = handle_cluster_connection B cfg ctx True e s1 st1"
    and s1: "stream_of (s_rx s1) = []" "stream_end (s_rx s1) = EndBlock" and st1: "steady (nd_world st1)"
    using assms(9) by (auto simp: later_def)
  have "recv_full 4 s1 = None" using recv_full_outcome [of 4 s1] s1 by (simp add: recv_outcome_def)
  then have "cluster_recv_frame True s1 = None" by (simp add: cluster_recv_frame_def)
  then show ?thesis
    unfolding run using steady_running [OF st1] steady_mem
    by (subst handle_cluster_connection.simps) fastforce
qed

section \<open>Properties\<close>

text \<open>C6: without authentication nothing is replicated.  If a node with a secret serves a connection and its
  store changes, then the peer first sent an \<open>AUTH_REQUEST\<close> with a nonce, the node answered it with the
  authentication code of that nonce, and the peer acknowledged with \<open>AUTH_OK\<close>; and once the session's expiry
  has passed, what the connection still carries leaves the store alone.\<close>

theorem no_sync_without_session:
  fixes st :: "'a node"
  assumes "cluster_secret cfg \<noteq> []" and "length (sha_data ctx) = 64"
  shows "(handle_cluster_connection B cfg ctx False 0 s st = Done (s', st') \<and> nd_dbp st' \<noteq> nd_dbp st \<longrightarrow>
      (\<exists>m1 f1 p1 s1 nonce_b expire_at s2 m2 f2 p2 s3. cluster_recv_frame m1 s = Some (Some (f1, p1), s1)
         \<and> cf_opcode f1 = OP_AUTH_REQUEST \<and> 8 \<le> unat (cf_value_len f1) \<and> s_rx s2 = s_rx s1
         \<and> s_out s2 = s_out s1 @ cluster_wire (auth_response_msg cfg (sub (unat (cf_key_len f1)) 8 (payload_bytes p1)) nonce_b expire_at)
         \<and> cluster_recv_frame m2 s2 = Some (Some (f2, p2), s3) \<and> cf_opcode f2 = OP_AUTH_OK))
     \<and> ((\<forall>n. e \<le> timespec_micros (w_clock (nd_world st) n)) \<and> handle_cluster_connection B cfg ctx True e s st = Done (s', st') \<longrightarrow>
         nd_dbp st' = nd_dbp st)"
proof (intro conjI impI)
  assume "handle_cluster_connection B cfg ctx False 0 s st = Done (s', st') \<and> nd_dbp st' \<noteq> nd_dbp st"
  with connection_unauthenticated [OF assms(1), of B ctx 0 s st s' st'] obtain m1 f1 p1 s1 expire_at s2 and st1 st2 :: "'a node"
    where r: "cluster_recv_frame m1 s = Some (Some (f1, p1), s1)" "cf_opcode f1 = OP_AUTH_REQUEST"
      and a: "conn_auth cfg ctx f1 p1 s1 st1 = Done (Some expire_at, s2, st2)" by blast
  from conn_auth_seen [OF a assms(2)] r show "\<exists>m1 f1 p1 s1 nonce_b expire_at s2 m2 f2 p2 s3.
      cluster_recv_frame m1 s = Some (Some (f1, p1), s1)
      \<and> cf_opcode f1 = OP_AUTH_REQUEST \<and> 8 \<le> unat (cf_value_len f1) \<and> s_rx s2 = s_rx s1
      \<and> s_out s2 = s_out s1 @ cluster_wire (auth_response_msg cfg (sub (unat (cf_key_len f1)) 8 (payload_bytes p1)) nonce_b expire_at)
      \<and> cluster_recv_frame m2 s2 = Some (Some (f2, p2), s3) \<and> cf_opcode f2 = OP_AUTH_OK" by blast
qed (use connection_expired [OF assms(1)] in blast)

text \<open>C7: a session applies what it receives.  When a peer of the same cluster opens a session and sends
  replicated records within its ten minutes, the server answers the opening with one authentication response
  and nothing else, serves until the connection ends, and its store is then the last-writer-wins merge of what
  it held and what it received, in any segmentation of the stream.  The peer's own secret plays no role: the
  server accepts \<open>AUTH_OK\<close> from a peer that has proved nothing.\<close>

theorem session_applies_updates:
  assumes "bdb_contract B" and "bdb_reliable B" and "db_wf B d" and "nd_dbp st = Some d"
    and "cluster_secret cfg \<noteq> []" and "length (sha_data ctx) = 64" and "same_cluster cfg cli"
    and "list_all sync_ok msgs" and "list_all (\<lambda>m. update_ok (msg_update m)) msgs"
    and "steady (nd_world st)" and "tx_live 96 (s_tx s)"
    and "\<And>n. timespec_micros (w_clock (nd_world st) n) < timespec_micros (w_clock (nd_world st) 0) + AUTH_TTL_MICROS"
    and "stream_of (s_rx s) = cluster_wire (auth_request_msg cli nonce_a) @ cluster_wire (auth_ok_msg cli) @ msgs_wire cli msgs"
    and "stream_end (s_rx s) = EndEof"
  shows "\<exists>s' st' d' nonce_b expire_at. handle_cluster_connection B cfg ctx False 0 s st = Done (s', st')
     \<and> nd_dbp st' = Some d' \<and> db_view B d' = lww_run (db_view B d) (map msg_update msgs) \<and> db_wf B d'
     \<and> s_out s' = s_out s @ cluster_wire (auth_response_msg cfg (be_bytes 8 nonce_a) nonce_b expire_at) \<and> \<not> s_open s'"
proof -
  have us: "list_all update_ok (map msg_update msgs)" using assms(9) by (simp add: list_all_iff)
  obtain d' where "db_deliver B (map msg_update msgs) (nd_dbp st) = Some (Some d')"
    "db_view B d' = lww_run (db_view B d) (map msg_update msgs)" "db_wf B d'"
    using deliver_reliable [OF assms(1-3) us] assms(4) by auto
  with session_opened [OF assms(5-8,10-14)] show ?thesis by fastforce
qed

text \<open>C8: a joining node copies the store.  A node asks a server with the same secret for a snapshot
  (\<open>request_snapshot\<close>, connection and handshake included), and the server serves the connection.  What the node
  sends is what the server reads; if the node in turn reads what the server has written, its call succeeds and for every
  key its store holds the last-writer-wins merge of its own record and the server's; a node that starts empty ends up
  with exactly the server's records.  The server's store is the one its cursor lists, and is not changed.\<close>

theorem bootstrap_copies_store:
  assumes server: "cluster_secret srv \<noteq> []" "length (sha_data sctx) = 64" "nd_dbp srv_st = Some srv_d" "db_wf A srv_d" "keys_ok A srv_d"
      "cursor_lists A srv_d rows" "steady (nd_world srv_st)"
      "w_cursor (nd_world srv_st) 0 = (True, map (\<lambda>(key, data). CurRow key data True) rows @ CurEnd # evs)"
      "\<And>n. timespec_micros (w_clock (nd_world srv_st) n) < timespec_micros (w_clock (nd_world srv_st) 0) + AUTH_TTL_MICROS"
      "tx_live (192 + length (msgs_wire srv (map row_msg rows))) (s_tx t)"
    and joins: "cluster_secret cfg = cluster_secret srv" "same_cluster cfg srv" "cfg_node_id cfg \<noteq> 0" "length (sha_data ctx) = 64"
      "connect_endpoint (w_net (nd_world st) 0) ep = Some s" "tx_live 152 (s_tx s)" "steady (nd_world st)"
      "bdb_contract B" "bdb_reliable B" "nd_dbp st = Some d" "db_wf B d"
    and wire: "stream_of (s_rx t) = cluster_wire (auth_request_msg cfg (fst (draw_nonce (snd (draw_net (nd_world st))))))
        @ cluster_wire (auth_ok_msg cfg) @ cluster_wire (control_msg cfg OP_CLUSTER_SYNC_REQUEST)" "stream_end (s_rx t) = EndEof"
  shows "\<exists>t' srv_st' answer. handle_cluster_connection A srv sctx False 0 t srv_st = Done (t', srv_st')
     \<and> nd_dbp srv_st' = Some srv_d \<and> s_out t' = s_out t @ answer
     \<and> (stream_of (s_rx s) = answer \<longrightarrow>
        (\<exists>s' st' d'. request_snapshot B cfg ctx ep st = Done (0, Some s', st') \<and> s_out s' = s_out s @ stream_of (s_rx t)
           \<and> nd_dbp st' = Some d' \<and> db_wf B d' \<and> (\<forall>k. db_view B d' k = merged (db_view B d k) (db_view A srv_d k))
           \<and> (db_view B d = Map.empty \<longrightarrow> db_view B d' = db_view A srv_d)))"
proof -
  define nonce_a where "nonce_a = fst (draw_nonce (snd (draw_net (nd_world st))))"
  have sc: "same_cluster srv cfg" using joins(2) by (auto simp: same_cluster_def)
  note rows = cursor_rows_ok [OF server(6,4,5)]
  from snapshot_session [OF server(1,2) sc joins(3) rows _ server(7,8,10,9) wire [folded nonce_a_def], of A] server(3)
  obtain t' srv_st' nonce_b expire_at where srv: "handle_cluster_connection A srv sctx False 0 t srv_st = Done (t', srv_st')"
    "nd_dbp srv_st' = Some srv_d"
    "s_out t' = s_out t @ cluster_wire (auth_response_msg srv (be_bytes 8 nonce_a) nonce_b expire_at) @ snapshot_wire srv rows"
    by auto
  from snapshot_merges [OF joins(8,9,11) server(6) rows] obtain d' where
    d': "db_deliver B (row_updates rows) (nd_dbp st) = Some (Some d')" "db_wf B d'"
    "\<forall>k. db_view B d' k = merged (db_view B d k) (db_view A srv_d k)" using joins(10) by auto
  have "cluster_secret cfg \<noteq> []" using server(1) joins(1) by simp
  note reads = request_snapshot_reads [OF this joins(4) joins(1) [symmetric] joins(2,5,7,6) nonce_a_def rows _ d'(1), of nonce_b expire_at]
  have "db_view B d' = db_view A srv_d" if "db_view B d = Map.empty"
    using d'(3) that by (auto simp: merged_def lww_merge_def fun_eq_iff split: option.splits)
  with reads d'(2,3) wire(1) [folded nonce_a_def]
  have "stream_of (s_rx s) = cluster_wire (auth_response_msg srv (be_bytes 8 nonce_a) nonce_b expire_at) @ snapshot_wire srv rows \<longrightarrow>
        (\<exists>s' st' d'. request_snapshot B cfg ctx ep st = Done (0, Some s', st') \<and> s_out s' = s_out s @ stream_of (s_rx t)
           \<and> nd_dbp st' = Some d' \<and> db_wf B d' \<and> (\<forall>k. db_view B d' k = merged (db_view B d k) (db_view A srv_d k))
           \<and> (db_view B d = Map.empty \<longrightarrow> db_view B d' = db_view A srv_d))"
    by (metis (no_types, lifting))
  with srv show ?thesis by blast
qed

text \<open>C37: nodes without a secret do not form a cluster.  A node whose secret is empty never learns a peer from a
  connection it serves, whatever is sent on it.  A \<open>HELLO\<close> and an \<open>AUTH_REQUEST\<close> from a node of the same cluster are
  not answered: the connection ends with not a byte written and with store and peers as they were, so that neither
  the discovery of a peer nor its sender thread, which authenticates before it sends, gets anything through.\<close>

theorem no_secret_no_cluster:
  assumes "cluster_secret cfg = []"
  shows "(handle_cluster_connection B cfg ctx a e s st = Done (s', st') \<longrightarrow> nd_peers st' = nd_peers st)
     \<and> (\<forall>m \<in> {hello_msg cli, auth_request_msg cli nonce_a}.
          stream_of (s_rx s) = cluster_wire m \<and> stream_end (s_rx s) = EndEof \<and> steady (nd_world st)
            \<and> same_cluster cfg cli \<and> (m = hello_msg cli \<longrightarrow> cfg_ok cli) \<longrightarrow>
          (\<exists>s' st'. handle_cluster_connection B cfg ctx False 0 s st = Done (s', st') \<and> s_out s' = s_out s
             \<and> nd_dbp st' = nd_dbp st \<and> nd_peers st' = nd_peers st))"
proof (intro conjI impI ballI)
  fix m assume "m \<in> {hello_msg cli, auth_request_msg cli nonce_a}" and st: "stream_of (s_rx s) = cluster_wire m
    \<and> stream_end (s_rx s) = EndEof \<and> steady (nd_world st) \<and> same_cluster cfg cli \<and> (m = hello_msg cli \<longrightarrow> cfg_ok cli)"
  then have "cluster_msg_ok m" "cf_cluster_id (fst m) = cluster_id_of (cluster_name cli)"
    "cf_opcode (fst m) = OP_CLUSTER_HELLO \<or> cf_opcode (fst m) = OP_AUTH_REQUEST"
    using hello_msg_ok [of cli] by (auto simp: hello_auth_fields)
  moreover from this(3) have "cf_opcode (fst m) \<noteq> OP_CLUSTER_SYNC_REQUEST" "cf_opcode (fst m) \<noteq> OP_SYNC"
    by (auto simp: const_defs)
  ultimately show "\<exists>s' st'. handle_cluster_connection B cfg ctx False 0 s st = Done (s', st') \<and> s_out s' = s_out s
      \<and> nd_dbp st' = nd_dbp st \<and> nd_peers st' = nd_peers st"
    using no_secret_silent [OF assms] st by blast
qed (use connection_no_secret_peers [OF assms] in blast)

section \<open>Instances\<close>

lemma empty_wf [simp]: "db_wf map_bdb Map.empty"
  by (simp add: db_wf_def)

lemma demo_same_cluster: "same_cluster demo_cfg demo_peer_cfg"
  by (simp add: same_cluster_def demo_peer_cfg_def demo_cfg_def dmmr_fnv1a_32_def)

text \<open>A peer of the cluster that does not know the secret.\<close>

definition intruder_cfg :: cluster_cfg where
  "intruder_cfg = demo_peer_cfg\<lparr>cluster_secret := cstr ''guess''\<rparr>"

lemma intruder_same_cluster: "same_cluster demo_cfg intruder_cfg"
  using demo_same_cluster by (auto simp: same_cluster_def intruder_cfg_def)

definition session_wire :: bytes where
  "session_wire = cluster_wire (auth_request_msg intruder_cfg 77) @ cluster_wire (auth_ok_msg intruder_cfg)
     @ msgs_wire intruder_cfg [demo_msg]"

lemma session_wire_nonempty [simp]: "session_wire \<noteq> []"
  by (simp add: session_wire_def)

definition quiet_node :: "(bytes \<rightharpoonup> bytes) node" where
  "quiet_node = demo_node\<lparr>nd_world := demo_world\<lparr>w_clock := (\<lambda>n. (5, 0))\<rparr>\<rparr>"

lemma quiet_node_simps:
  "steady (nd_world quiet_node)" "nd_dbp quiet_node = Some Map.empty"
  "timespec_micros (w_clock (nd_world quiet_node) n) < timespec_micros (w_clock (nd_world quiet_node) 0) + AUTH_TTL_MICROS"
  by (simp_all add: quiet_node_def demo_node_def demo_world_def steady_def timespec_micros_def const_defs)

lemma demo_msg_sync: "list_all sync_ok [demo_msg]" "list_all (\<lambda>m. update_ok (msg_update m)) [demo_msg]"
  "msg_update demo_msg = ([1], \<lparr>l_ts = 5, l_node = 7, l_expire = 9, l_tomb = False, l_value = [2, 3]\<rparr>)"
  using demo_msg_ok
  by (simp_all add: sync_ok_def update_ok_def msg_update_def demo_msg_def sync_msg_def msg_value_def key_ok_def const_defs)

lemma session_wire_sock:
  "tx_live 96 (s_tx (wire_sock session_wire))" "stream_end (s_rx (wire_sock session_wire)) = EndEof"
  "stream_of (s_rx (wire_sock session_wire)) = cluster_wire (auth_request_msg intruder_cfg 77)
     @ cluster_wire (auth_ok_msg intruder_cfg) @ msgs_wire intruder_cfg [demo_msg]"
  by simp_all (simp add: session_wire_def)

theorem session_applies_updates_witness:
  "\<exists>s' st' d'. handle_cluster_connection map_bdb demo_cfg demo_ctx False 0 (wire_sock session_wire) quiet_node = Done (s', st')
     \<and> nd_dbp st' = Some d'
     \<and> db_view map_bdb d' [1] = Some \<lparr>l_ts = 5, l_node = 7, l_expire = 9, l_tomb = False, l_value = [2, 3]\<rparr>"
proof -
  have v: "db_view map_bdb Map.empty = Map.empty" by (auto simp: db_view_def)
  from session_applies_updates [OF map_bdb_contract map_bdb_reliable empty_wf quiet_node_simps(2) demo_secret(2) demo_ctx_len
      intruder_same_cluster demo_msg_sync(1,2) quiet_node_simps(1)
      session_wire_sock(1) quiet_node_simps(3) session_wire_sock(3,2)]
  show ?thesis by (fastforce simp: v demo_msg_sync(3) lww_run_def lww_update_def lww_merge_def)
qed

theorem no_sync_without_session_witness:
  "\<exists>s' st' m1 f1 p1 s1. handle_cluster_connection map_bdb demo_cfg demo_ctx False 0 (wire_sock session_wire) quiet_node = Done (s', st')
     \<and> nd_dbp st' \<noteq> nd_dbp quiet_node
     \<and> cluster_recv_frame m1 (wire_sock session_wire) = Some (Some (f1, p1), s1) \<and> cf_opcode f1 = OP_AUTH_REQUEST"
proof -
  let ?s = "wire_sock session_wire" and ?d = "[[1] \<mapsto> record_image 5 7 9 False [2, 3]]"
  have "db_deliver map_bdb (map msg_update [demo_msg]) (nd_dbp quiet_node) = Some (Some ?d)"
    using map_bdb_apply_fresh [of "[1]" "[2, 3]" Map.empty False 5 7 9]
    by (simp add: demo_msg_sync(3) quiet_node_simps(2) key_ok_def const_defs)
  from session_opened [OF demo_secret(2) demo_ctx_len intruder_same_cluster demo_msg_sync(1) quiet_node_simps(1)
      session_wire_sock(1) quiet_node_simps(3) session_wire_sock(3,2) this]
  obtain s' st' where run: "handle_cluster_connection map_bdb demo_cfg demo_ctx False 0 ?s quiet_node = Done (s', st')"
    and ne: "nd_dbp st' \<noteq> nd_dbp quiet_node" by (auto simp: quiet_node_simps(2))
  from no_sync_without_session [OF demo_secret(2) demo_ctx_len, of map_bdb ?s quiet_node s' st'] run ne
  show ?thesis by blast
qed

definition demo_row :: "bytes \<times> bytes" where
  "demo_row = ([1], record_image 5 7 9 False [2, 3])"

lemma demo_row_ok: "list_all row_ok [demo_row]" "rec_of_data (snd demo_row) = mk_rec 5 7 9 False [2, 3]"
  using record_image_valid [of "[2, 3]" 5 7 9 False]
  by (simp_all add: row_ok_def demo_row_def key_ok_def const_defs)

definition snapshot_node :: "(bytes \<rightharpoonup> bytes) node" where
  "snapshot_node = quiet_node\<lparr>nd_dbp := Some [fst demo_row \<mapsto> snd demo_row],
     nd_world := (nd_world quiet_node)\<lparr>w_cursor := (\<lambda>n. (True, [CurRow [1] (snd demo_row) True, CurEnd]))\<rparr>\<rparr>"

lemma snapshot_node_simps:
  "steady (nd_world snapshot_node)" "nd_dbp snapshot_node = Some [fst demo_row \<mapsto> snd demo_row]"
  "w_cursor (nd_world snapshot_node) 0 = (True, map (\<lambda>(key, data). CurRow key data True) [demo_row] @ CurEnd # [])"
  "timespec_micros (w_clock (nd_world snapshot_node) n) < timespec_micros (w_clock (nd_world snapshot_node) 0) + AUTH_TTL_MICROS"
  using quiet_node_simps by (simp_all add: snapshot_node_def demo_row_def steady_def)

definition join_request :: bytes where
  "join_request = cluster_wire (auth_request_msg demo_cfg (fst (draw_nonce (nd_world quiet_node))))
     @ cluster_wire (auth_ok_msg demo_cfg) @ cluster_wire (control_msg demo_cfg OP_CLUSTER_SYNC_REQUEST)"

definition join_answer :: bytes where
  "join_answer = (case handle_cluster_connection map_bdb demo_peer_cfg demo_ctx False 0 (big_sock join_request) snapshot_node of
     Done (t, st) \<Rightarrow> s_out t | _ \<Rightarrow> [])"

definition joiner :: "(bytes \<rightharpoonup> bytes) node" where
  "joiner = quiet_node\<lparr>nd_world := (nd_world quiet_node)\<lparr>w_net := (\<lambda>n host port. Some [(True, Some (big_sock join_answer))])\<rparr>\<rparr>"

lemma joiner_simps:
  "steady (nd_world joiner)" "nd_dbp joiner = Some Map.empty" "connect_endpoint (w_net (nd_world joiner) 0) ep = Some (big_sock join_answer)"
  "fst (draw_nonce (snd (draw_net (nd_world joiner)))) = fst (draw_nonce (nd_world quiet_node))"
  using quiet_node_simps by (simp_all add: joiner_def steady_def connect_endpoint_def draw_nonce_def draw_net_def)

lemma cursor_single: "cursor_lists map_bdb [fst row \<mapsto> snd row] [row]"
  by (cases row) (auto simp: cursor_lists_def)

text \<open>An empty node joins a server that holds one record.\<close>

theorem bootstrap_copies_store_witness:
  "\<exists>t' srv_st' s' st' d'. handle_cluster_connection map_bdb demo_peer_cfg demo_ctx False 0 (big_sock join_request) snapshot_node
       = Done (t', srv_st')
     \<and> request_snapshot map_bdb demo_cfg demo_ctx demo_seed_ep joiner = Done (0, Some s', st')
     \<and> nd_dbp st' = Some d' \<and> db_view map_bdb d' = [[1] \<mapsto> mk_rec 5 7 9 False [2, 3]]"
proof -
  let ?srv = demo_peer_cfg and ?d = "[fst demo_row \<mapsto> snd demo_row]"
  have k: "length (snd (msg_frame ?srv (row_msg demo_row))) = 3"
    by (simp add: row_msg_def Let_def msg_value_def snapshot_record_def demo_row_def image_flags image_length const_defs)
  then have t: "tx_live (192 + length (msgs_wire ?srv (map row_msg [demo_row]))) (s_tx (big_sock join_request))"
    by (simp add: length_cluster_wire)
  have srv: "cluster_secret ?srv \<noteq> []" "cluster_secret demo_cfg = cluster_secret ?srv" "cfg_node_id demo_cfg \<noteq> 0"
    by (simp_all add: demo_peer_cfg_def demo_cfg_def)
  have store: "db_wf map_bdb ?d" "keys_ok map_bdb ?d" "cursor_lists map_bdb ?d [demo_row]"
    using demo_row_ok(1) cursor_single by (auto simp: db_wf_def keys_ok_def row_ok_def split: if_splits)
  have "join_request \<noteq> []" by (simp add: join_request_def)
  then have req: "stream_of (s_rx (big_sock join_request)) = cluster_wire (auth_request_msg demo_cfg (fst (draw_nonce (snd (draw_net (nd_world joiner))))))
        @ cluster_wire (auth_ok_msg demo_cfg) @ cluster_wire (control_msg demo_cfg OP_CLUSTER_SYNC_REQUEST)"
    "stream_end (s_rx (big_sock join_request)) = EndEof"
    unfolding joiner_simps(4) join_request_def [symmetric] by (rule big_sock_simps)+
  have j: "tx_live 152 (s_tx (big_sock join_answer))" by simp
  note b = bootstrap_copies_store [OF srv(1) demo_ctx_len snapshot_node_simps(2) store snapshot_node_simps(1,3,4) t srv(2)
      demo_same_cluster srv(3) demo_ctx_len joiner_simps(3) j joiner_simps(1) map_bdb_contract map_bdb_reliable joiner_simps(2)
      empty_wf req, of demo_seed_ep]
  then obtain t' srv_st' answer where
    run: "handle_cluster_connection map_bdb ?srv demo_ctx False 0 (big_sock join_request) snapshot_node = Done (t', srv_st')"
      "s_out t' = s_out (big_sock join_request) @ answer"
    and cli: "stream_of (s_rx (big_sock join_answer)) = answer \<longrightarrow>
        (\<exists>s' st' d'. request_snapshot map_bdb demo_cfg demo_ctx demo_seed_ep joiner = Done (0, Some s', st')
           \<and> s_out s' = s_out (big_sock join_answer) @ stream_of (s_rx (big_sock join_request))
           \<and> nd_dbp st' = Some d' \<and> db_wf map_bdb d'
           \<and> (\<forall>k. db_view map_bdb d' k = merged (db_view map_bdb Map.empty k) (db_view map_bdb ?d k))
           \<and> (db_view map_bdb Map.empty = Map.empty \<longrightarrow> db_view map_bdb d' = db_view map_bdb ?d))"
    by (elim exE conjE)
  have ans: "join_answer = answer" using run by (simp add: join_answer_def)
  have "stream_of (s_rx (big_sock join_answer)) = answer"
  proof (cases "answer = []")
    case True
    then show ?thesis unfolding ans by (simp add: big_sock_def wire_sock_def)
  qed (use ans in simp)
  moreover have "db_view map_bdb Map.empty = Map.empty" by (auto simp: db_view_def)
  moreover have "db_view map_bdb ?d = [fst demo_row \<mapsto> rec_of_data (snd demo_row)]"
    by (auto simp: db_view_def fun_eq_iff)
  moreover have "fst demo_row = [1]" by (simp add: demo_row_def)
  ultimately obtain s' st' d' where "request_snapshot map_bdb demo_cfg demo_ctx demo_seed_ep joiner = Done (0, Some s', st')"
    "nd_dbp st' = Some d'" "db_view map_bdb d' = [[1] \<mapsto> mk_rec 5 7 9 False [2, 3]]"
    using cli demo_row_ok(2) by (elim impE) auto
  with run(1) show ?thesis by (intro exI conjI)
qed

definition open_cfg :: cluster_cfg where
  "open_cfg = demo_cfg\<lparr>cluster_secret := []\<rparr>"

theorem no_secret_no_cluster_witness:
  "\<exists>s' st'. handle_cluster_connection map_bdb open_cfg demo_ctx False 0
      (wire_sock (cluster_wire (hello_msg demo_peer_cfg))) quiet_node = Done (s', st')
     \<and> s_out s' = [] \<and> nd_dbp st' = nd_dbp quiet_node \<and> nd_peers st' = nd_peers quiet_node"
proof -
  have "cluster_secret open_cfg = []" by (simp add: open_cfg_def)
  moreover have "same_cluster open_cfg demo_peer_cfg" using demo_same_cluster by (auto simp: same_cluster_def open_cfg_def)
  ultimately show ?thesis
    using no_secret_no_cluster [of open_cfg map_bdb demo_ctx False 0 "wire_sock (cluster_wire (hello_msg demo_peer_cfg))"
        quiet_node _ _ demo_peer_cfg 7] quiet_node_simps(1) demo_peer_cfg_ok by simp
qed

end
