(* ===== verification/Dmmr_Discovery.thy ===== *)
theory Dmmr_Discovery
  imports Dmmr_Cluster
begin

text \<open>
  The threads of \<open>dmmr_cluster.c\<close> that keep a node in its cluster: discovery through the configured seeds and the
  peers already known, the turns of the reaper, the listener that accepts the connections of other nodes, and the
  end of the peers at shutdown.
\<close>

section \<open>Discovery\<close>

text \<open>The loops that greet a list of endpoints; the answers only matter for the peers they register.\<close>

fun hello_all :: "(peer_endpoint \<Rightarrow> bool) \<Rightarrow> cluster_cfg \<Rightarrow> peer_endpoint list \<Rightarrow> 's node \<Rightarrow> 's node run" where
  "hello_all greet cfg [] st = Done st"
| "hello_all greet cfg (ep # eps) st =
     (if greet ep then
        (case send_hello cfg ep st of
           Done (rc, ignored, s, st1) \<Rightarrow> hello_all greet cfg eps st1
         | Blocked \<Rightarrow> Blocked
         | Fault \<Rightarrow> Fault)
      else hello_all greet cfg eps st)"

definition discover_seed :: "'s bdb \<Rightarrow> cluster_cfg \<Rightarrow> sha256_ctx \<Rightarrow> peer_endpoint \<Rightarrow> 's node \<Rightarrow> 's node run" where
  "discover_seed B cfg ctx seed st =
     (case add_peer cfg (Some (ep_addr seed)) (uint (ep_port seed)) st of
        Done st1 \<Rightarrow>
          (case send_hello cfg seed st1 of
             Done (rc, peers, s, st2) \<Rightarrow>
               if rc \<noteq> 0 then Done st2
               else (case hello_all (\<lambda>ep. ep_port ep \<noteq> ep_port seed \<or> ep_addr ep \<noteq> ep_addr seed) cfg peers st2 of
                       Done st3 \<Rightarrow>
                         if bootstrap_completed st3 then Done st3
                         else (case request_snapshot B cfg ctx seed st3 of
                                 Done (rc, s, st4) \<Rightarrow> Done (if rc = 0 then st4\<lparr>bootstrap_completed := True\<rparr> else st4)
                               | Blocked \<Rightarrow> Blocked
                               | Fault \<Rightarrow> Fault)
                     | Blocked \<Rightarrow> Blocked
                     | Fault \<Rightarrow> Fault)
           | Blocked \<Rightarrow> Blocked
           | Fault \<Rightarrow> Fault)
      | Blocked \<Rightarrow> Blocked
      | Fault \<Rightarrow> Fault)"

definition known_peers :: "peer_conn list \<Rightarrow> peer_endpoint list" where
  "known_peers peers = snapshot_peer_endpoints DMMR_MAX_DISCOVERED_PEERS (filter (\<lambda>p. pc_active p \<and> \<not> pc_is_seed p) peers)"

definition rediscover_from_known_peers :: "cluster_cfg \<Rightarrow> 's node \<Rightarrow> 's node run" where
  "rediscover_from_known_peers cfg st =
     (if peers_locked st then Blocked
      else hello_all (\<lambda>ep. \<not> endpoint_is_self cfg (ep_addr ep) (ep_port ep) (ep_node_id ep)) cfg (known_peers (nd_peers st)) st)"

fun discover_tokens :: "'s bdb \<Rightarrow> cluster_cfg \<Rightarrow> sha256_ctx \<Rightarrow> bytes list \<Rightarrow> 's node \<Rightarrow> 's node run" where
  "discover_tokens B cfg ctx [] st = Done st"
| "discover_tokens B cfg ctx (token # tokens) st =
     (case parse_seed (Some (dropWhile (\<lambda>c. c = 32 \<or> c = 9) token)) of
        None \<Rightarrow> discover_tokens B cfg ctx tokens st
      | Some seed \<Rightarrow>
          if endpoint_is_self cfg (ep_addr seed) (ep_port seed) 0 then discover_tokens B cfg ctx tokens st
          else (case discover_seed B cfg ctx seed st of
                  Done st1 \<Rightarrow> discover_tokens B cfg ctx tokens st1
                | Blocked \<Rightarrow> Blocked
                | Fault \<Rightarrow> Fault))"

definition discover_once :: "'s bdb \<Rightarrow> cluster_cfg \<Rightarrow> sha256_ctx \<Rightarrow> 's node \<Rightarrow> 's node run" where
  "discover_once B cfg ctx st =
     (if cluster_seeds cfg = [] then rediscover_from_known_peers cfg st
      else case discover_tokens B cfg ctx (strsep_all 44 (strlcpy_text DMMR_SEEDS_MAX (cluster_seeds cfg))) st of
        Done st1 \<Rightarrow> rediscover_from_known_peers cfg st1
      | Blocked \<Rightarrow> Blocked
      | Fault \<Rightarrow> Fault)"

text \<open>One turn of the discovery thread: \<open>False\<close> when it ends.  The pause of one second per step is left out, its
  tests of \<open>running\<close> are not.\<close>

fun discovery_pause :: "nat \<Rightarrow> world \<Rightarrow> world" where
  "discovery_pause 0 w = w"
| "discovery_pause (Suc n) w = (case draw_running w of (running, w1) \<Rightarrow> if running then discovery_pause n w1 else w1)"

definition discovery_turn :: "'s bdb \<Rightarrow> cluster_cfg \<Rightarrow> sha256_ctx \<Rightarrow> 's node \<Rightarrow> (bool \<times> 's node) run" where
  "discovery_turn B cfg ctx st =
     (case draw_running (nd_world st) of
        (False, w1) \<Rightarrow> Done (False, st\<lparr>nd_world := w1\<rparr>)
      | (True, w1) \<Rightarrow>
          (case discover_once B cfg ctx (st\<lparr>nd_world := w1\<rparr>) of
             Done st1 \<Rightarrow>
               Done (True, st1\<lparr>nd_world := discovery_pause (nat (discovery_interval_seconds cfg)) (nd_world st1)\<rparr>)
           | Blocked \<Rightarrow> Blocked
           | Fault \<Rightarrow> Fault))"

text \<open>The second component is \<open>discovery_started\<close>.\<close>

definition cluster_start_discovery :: "cluster_cfg \<Rightarrow> bool \<Rightarrow> bool \<Rightarrow> int \<times> bool" where
  "cluster_start_discovery cfg create_ok started =
     (if cluster_seeds cfg = [] \<or> started then (0, started)
      else if \<not> create_ok then (- 1, started)
      else (0, True))"

definition cluster_stop_discovery :: "bool \<Rightarrow> bool" where
  "cluster_stop_discovery started = (if started then False else started)"

section \<open>The turns of the reaper\<close>

fun reaper_pause :: "nat \<Rightarrow> world \<Rightarrow> world" where
  "reaper_pause n w =
     (case draw_running w of
        (False, w1) \<Rightarrow> w1
      | (True, w1) \<Rightarrow> (case n of 0 \<Rightarrow> w1 | Suc m \<Rightarrow> reaper_pause m w1))"

definition reaper_turn :: "cluster_cfg \<Rightarrow> 's node \<Rightarrow> (bool \<times> 's node) run" where
  "reaper_turn cfg st =
     (case draw_running (nd_world st) of
        (False, w1) \<Rightarrow> Done (False, st\<lparr>nd_world := w1\<rparr>)
      | (True, w1) \<Rightarrow>
          (case draw_running (reaper_pause 30 w1) of
             (False, w2) \<Rightarrow> Done (False, st\<lparr>nd_world := w2\<rparr>)
           | (True, w2) \<Rightarrow>
               (case reaper_pass cfg (st\<lparr>nd_world := w2\<rparr>) of
                  Done st1 \<Rightarrow> Done (True, st1)
                | Blocked \<Rightarrow> Blocked
                | Fault \<Rightarrow> Fault)))"

section \<open>The listener\<close>

text \<open>What \<open>accept\<close> returns, in order; when there is nothing left it waits.\<close>

datatype accepted = AccConn sock | AccIntr | AccFail

fun listener_loop :: "'s bdb \<Rightarrow> cluster_cfg \<Rightarrow> sha256_ctx \<Rightarrow> accepted list \<Rightarrow> 's node \<Rightarrow> 's node run" where
  "listener_loop B cfg ctx as st =
     (case draw_running (nd_world st) of
        (False, w1) \<Rightarrow> Done (st\<lparr>nd_world := w1\<rparr>)
      | (True, w1) \<Rightarrow>
          (case as of
             [] \<Rightarrow> Blocked
           | AccIntr # as' \<Rightarrow> listener_loop B cfg ctx as' (st\<lparr>nd_world := w1\<rparr>)
           | AccFail # as' \<Rightarrow> Done (st\<lparr>nd_world := snd (draw_running w1)\<rparr>)
           | AccConn peer # as' \<Rightarrow>
               (case handle_cluster_connection B cfg ctx False 0 peer (st\<lparr>nd_world := w1\<rparr>) of
                  Done (s, st1) \<Rightarrow> listener_loop B cfg ctx as' st1
                | Blocked \<Rightarrow> Blocked
                | Fault \<Rightarrow> Fault)))"

declare listener_loop.simps [simp del]

text \<open>\<open>socket_ok\<close> and \<open>bind_ok\<close> are the outcomes of \<open>socket\<close> and of \<open>bind\<close> with \<open>listen\<close>.\<close>

definition cluster_listener ::
  "'s bdb \<Rightarrow> cluster_cfg \<Rightarrow> sha256_ctx \<Rightarrow> bool \<Rightarrow> bool \<Rightarrow> accepted list \<Rightarrow> 's node \<Rightarrow> 's node run" where
  "cluster_listener B cfg ctx socket_ok bind_ok as st =
     (if \<not> socket_ok \<or> \<not> bind_ok then Done st else listener_loop B cfg ctx as st)"

definition cluster_close_listener :: "'fd option \<Rightarrow> 'fd option" where
  "cluster_close_listener listen_fd = (case listen_fd of None \<Rightarrow> None | Some fd \<Rightarrow> None)"

section \<open>The end of the peers\<close>

text \<open>Each peer is taken off the list, told to stop, waited for (its sender closes the connection when it ends),
  and emptied.  The result lists the peers as they are when their memory is freed.\<close>

fun close_peers :: "peer_conn list \<Rightarrow> peer_conn list" where
  "close_peers [] = []"
| "close_peers (p # ps) = (sender_exit (p\<lparr>pc_active := False\<rparr>))\<lparr>pc_outbox := []\<rparr> # close_peers ps"

definition close_peer_connections :: "'s node \<Rightarrow> (peer_conn list \<times> 's node) run" where
  "close_peer_connections st =
     (if peers_locked st then Blocked else Done (close_peers (nd_peers st), st\<lparr>nd_peers := []\<rparr>))"

section \<open>What discovery keeps\<close>

definition kept :: "cluster_cfg \<Rightarrow> 's node \<Rightarrow> 's node \<Rightarrow> bool" where
  "kept cfg st st' \<longleftrightarrow> (list_all (peer_ok cfg) (nd_peers st) \<longrightarrow> list_all (peer_ok cfg) (nd_peers st'))
     \<and> bootstrap_completed st' = bootstrap_completed st \<and> nd_dbp st' = nd_dbp st"

lemma kept_refl [simp]: "kept cfg st st" and kept_world [simp]: "kept cfg st (st\<lparr>nd_world := w\<rparr>)"
  and kept_world' [simp]: "kept cfg (st\<lparr>nd_world := w\<rparr>) st' = kept cfg st st'"
  by (simp_all add: kept_def)

lemma kept_trans [trans]: "kept cfg a b \<Longrightarrow> kept cfg b c \<Longrightarrow> kept cfg a c"
  by (simp add: kept_def)

lemma add_peer_kept: "add_peer_internal cfg a port node seed st = Done st' \<Longrightarrow> kept cfg st st'"
  using add_peer_internal_ok [of cfg st a port node seed st']
  by (auto simp: kept_def add_peer_internal_def case_prod_beta Let_def split: option.splits if_splits)

lemma parse_entries_kept:
  "parse_entries cfg payload payload_len n off items st = Done (rc, items', st') \<Longrightarrow> kept cfg st st'"
proof (induction n arbitrary: off items st)
  case (Suc n)
  then show ?case
    by (auto simp: add_peer_with_node_def Let_def dest!: add_peer_kept intro: kept_trans split: option.splits if_splits run.splits)
qed simp

lemma parse_peer_list_kept:
  "(case payload of None \<Rightarrow> True | Some p \<Rightarrow> payload_len \<le> length p) \<Longrightarrow> parse_peer_list cfg payload payload_len st \<noteq> Fault"
  "parse_peer_list cfg payload payload_len st = Done (rc, items, st') \<Longrightarrow> kept cfg st st'"
  by (auto simp: parse_peer_list_def rd_def parse_entries_safe(1) dest: parse_entries_kept split: option.splits if_splits)

lemma recv_value_len:
  "cluster_recv_frame m s = Some (Some (f, p), s') \<Longrightarrow> (case p of None \<Rightarrow> True | Some b \<Rightarrow> unat (cf_value_len f) \<le> length b)"
  using cluster_recv_wf [of m s f p s']
  by (auto simp: cluster_msg_ok_def payload_opt_def payload_bytes_def split: option.splits if_splits)

lemma send_hello_kept:
  shows "send_hello cfg ep st \<noteq> Fault" and "send_hello cfg ep st = Done (rc, items, s, st') \<Longrightarrow> kept cfg st st'"
proof -
  have "send_hello cfg ep st \<noteq> Fault \<and> (\<forall>rc items s st'. send_hello cfg ep st = Done (rc, items, s, st') \<longrightarrow> kept cfg st st')"
    by (auto simp: send_hello_def Let_def parse_peer_list_kept(1) dest: recv_value_len parse_peer_list_kept(2)
        split: prod.splits option.splits if_splits run.splits)
  then show "send_hello cfg ep st \<noteq> Fault" and "send_hello cfg ep st = Done (rc, items, s, st') \<Longrightarrow> kept cfg st st'" by blast+
qed

lemma hello_all_kept: "hello_all greet cfg eps st \<noteq> Fault \<and> (\<forall>st'. hello_all greet cfg eps st = Done st' \<longrightarrow> kept cfg st st')"
proof (induction eps arbitrary: st)
  case (Cons ep eps)
  then show ?case
    using send_hello_kept [of cfg ep st] by (auto intro: kept_trans split: run.splits)
qed simp

definition bookkeeping :: "'s node \<Rightarrow> (int \<times> sock \<times> 's node) run \<Rightarrow> bool" where
  "bookkeeping st r \<longleftrightarrow> (case r of
     Done (rc, s', st') \<Rightarrow> nd_peers st' = nd_peers st \<and> bootstrap_completed st' = bootstrap_completed st
   | Blocked \<Rightarrow> True
   | Fault \<Rightarrow> False)"

lemma snapshot_loop_keeps: "bookkeeping st (snapshot_loop B cfg saw s st)"
proof (induction "rx_measure (s_rx s)" arbitrary: saw s st rule: less_induct)
  case less
  obtain running w1 mem_ok w2 where d: "draw_running (nd_world st) = (running, w1)" "draw_mem w1 = (mem_ok, w2)" by fastforce
  show ?case
  proof (cases "\<exists>f p s1. running \<and> cluster_recv_frame mem_ok s = Some (Some (f, p), s1)")
    case True
    then obtain f p s1 where r: "running" "cluster_recv_frame mem_ok s = Some (Some (f, p), s1)" by blast
    obtain rc st3 where a: "apply_frame B f p (st\<lparr>nd_world := w2\<rparr>) = (rc, st3)" by fastforce
    then have "nd_peers st3 = nd_peers st" "bootstrap_completed st3 = bootstrap_completed st"
      by (auto simp: apply_frame_def Let_def split: prod.splits)
    then have st3: "bookkeeping st3 = bookkeeping st" "bookkeeping (st\<lparr>nd_world := w2\<rparr>) = bookkeeping st"
      by (auto simp: bookkeeping_def fun_eq_iff split: run.splits)
    note IH = less [OF cluster_recv_term [OF r(2)]]
    show ?thesis
      using IH [where st = st3] IH [where st = "st\<lparr>nd_world := w2\<rparr>"] \<open>nd_peers st3 = _\<close> \<open>bootstrap_completed st3 = _\<close>
      unfolding snapshot_loop.simps [of B cfg saw s st] st3 by (simp add: d r a Let_def) (simp add: bookkeeping_def)
  qed (unfold snapshot_loop.simps [of B cfg saw s st], auto simp: d bookkeeping_def Let_def split: option.splits)
qed

lemma request_snapshot_keeps:
  shows "request_snapshot B cfg ctx ep st \<noteq> Fault"
    and "request_snapshot B cfg ctx ep st = Done (rc, s, st') \<Longrightarrow>
      nd_peers st' = nd_peers st \<and> bootstrap_completed st' = bootstrap_completed st"
proof -
  have "snapshot_loop B cfg False s st \<noteq> Fault" "snapshot_loop B cfg False s st = Done (rc, s', st') \<Longrightarrow>
      nd_peers st' = nd_peers st \<and> bootstrap_completed st' = bootstrap_completed st" for s st rc s' st'
    using snapshot_loop_keeps [of st B cfg False s] by (auto simp: bookkeeping_def)
  then show "request_snapshot B cfg ctx ep st \<noteq> Fault"
    and "request_snapshot B cfg ctx ep st = Done (rc, s, st') \<Longrightarrow>
      nd_peers st' = nd_peers st \<and> bootstrap_completed st' = bootstrap_completed st"
    by (fastforce simp: request_snapshot_def Let_def split: prod.splits option.splits if_splits run.splits)+
qed

text \<open>What a step of discovery does: peers stay well-formed, and a node that is bootstrapped keeps its store.\<close>

definition discovers :: "cluster_cfg \<Rightarrow> 's node \<Rightarrow> 's node \<Rightarrow> bool" where
  "discovers cfg st st' \<longleftrightarrow> (list_all (peer_ok cfg) (nd_peers st) \<longrightarrow> list_all (peer_ok cfg) (nd_peers st'))
     \<and> (bootstrap_completed st \<longrightarrow> bootstrap_completed st' \<and> nd_dbp st' = nd_dbp st)"

lemma discovers_refl [simp]: "discovers cfg st st"
  by (simp add: discovers_def)

lemma discovers_trans [trans]: "discovers cfg a b \<Longrightarrow> discovers cfg b c \<Longrightarrow> discovers cfg a c"
  by (auto simp: discovers_def)

lemma kept_discovers: "kept cfg st st' \<Longrightarrow> discovers cfg st st'"
  by (simp add: kept_def discovers_def)

definition safely :: "cluster_cfg \<Rightarrow> 's node \<Rightarrow> 's node run \<Rightarrow> bool" where
  "safely cfg st r \<longleftrightarrow> r \<noteq> Fault \<and> (\<forall>st'. r = Done st' \<longrightarrow> discovers cfg st st')"

lemma safely_done [simp]: "safely cfg st (Done st') = discovers cfg st st'" "safely cfg st Blocked"
  by (simp_all add: safely_def)

lemma safely_after: "discovers cfg st st1 \<Longrightarrow> safely cfg st1 r \<Longrightarrow> safely cfg st r"
  by (auto simp: safely_def intro: discovers_trans)

lemma hello_all_safely: "safely cfg st (hello_all greet cfg eps st)"
  using hello_all_kept [of greet cfg eps st] by (auto simp: safely_def intro: kept_discovers)

lemma snapshot_safely:
  assumes "\<not> bootstrap_completed st"
  shows "safely cfg st (case request_snapshot B cfg ctx seed st of
      Done (rc, s, st4) \<Rightarrow> Done (if rc = 0 then st4\<lparr>bootstrap_completed := True\<rparr> else st4) | Blocked \<Rightarrow> Blocked | Fault \<Rightarrow> Fault)"
proof (cases "request_snapshot B cfg ctx seed st")
  case (Done x)
  obtain rc s st4 where x: "x = (rc, s, st4)" by (cases x)
  show ?thesis
    using request_snapshot_keeps(2) [OF Done [unfolded x]] assms by (simp add: Done x discovers_def)
qed (simp_all add: request_snapshot_keeps(1))

lemma discover_seed_safely: "safely cfg st (discover_seed B cfg ctx seed st)"
proof (cases "add_peer cfg (Some (ep_addr seed)) (uint (ep_port seed)) st")
  case add: (Done st1)
  then have st1: "discovers cfg st st1" by (auto simp: add_peer_def dest: add_peer_kept kept_discovers)
  have "safely cfg st1 (case send_hello cfg seed st1 of
      Done (rc, peers, s, st2) \<Rightarrow>
        if rc \<noteq> 0 then Done st2
        else (case hello_all (\<lambda>ep. ep_port ep \<noteq> ep_port seed \<or> ep_addr ep \<noteq> ep_addr seed) cfg peers st2 of
                Done st3 \<Rightarrow>
                  if bootstrap_completed st3 then Done st3
                  else (case request_snapshot B cfg ctx seed st3 of
                          Done (rc, s, st4) \<Rightarrow> Done (if rc = 0 then st4\<lparr>bootstrap_completed := True\<rparr> else st4)
                        | Blocked \<Rightarrow> Blocked | Fault \<Rightarrow> Fault)
              | Blocked \<Rightarrow> Blocked | Fault \<Rightarrow> Fault)
    | Blocked \<Rightarrow> Blocked | Fault \<Rightarrow> Fault)" (is "safely _ _ ?r")
  proof (cases "send_hello cfg seed st1")
    case hello: (Done x)
    obtain rc peers s st2 where x: "x = (rc, peers, s, st2)" by (cases x)
    let ?all = "hello_all (\<lambda>ep. ep_port ep \<noteq> ep_port seed \<or> ep_addr ep \<noteq> ep_addr seed) cfg peers st2"
    have st2: "discovers cfg st1 st2" by (rule kept_discovers [OF send_hello_kept(2) [OF hello [unfolded x]]])
    show ?thesis
    proof (cases ?all)
      case all: (Done st3)
      have "safely cfg st2 ?all" by (rule hello_all_safely)
      then have "discovers cfg st2 st3" unfolding all by simp
      with st2 have st3: "discovers cfg st1 st3" by (rule discovers_trans)
      show ?thesis
        using hello all st2 st3 safely_after [OF st3 snapshot_safely] unfolding x by simp
    next
      case Fault
      have "safely cfg st2 ?all" by (rule hello_all_safely)
      then show ?thesis unfolding Fault by (simp add: safely_def)
    qed (use hello st2 in \<open>simp add: x\<close>)
  qed (simp_all add: send_hello_kept(1))
  then have "safely cfg st ?r" by (rule safely_after [OF st1])
  then show ?thesis by (simp only: discover_seed_def add run.case)
qed (simp_all add: discover_seed_def add_peer_def add_peer_no_fault)

lemma discover_tokens_safely: "safely cfg st (discover_tokens B cfg ctx tokens st)"
proof (induction tokens arbitrary: st)
  case (Cons t ts)
  show ?case
  proof (cases "parse_seed (Some (dropWhile (\<lambda>c. c = 32 \<or> c = 9) t))")
    case (Some seed)
    show ?thesis
    proof (cases "discover_seed B cfg ctx seed st")
      case (Done st1)
      then have "discovers cfg st st1" using discover_seed_safely [of cfg st B ctx seed] by simp
      from safely_after [OF this Cons.IH] show ?thesis using Done Some Cons.IH by simp
    next
      case Fault
      then show ?thesis using discover_seed_safely [of cfg st B ctx seed] by (simp add: safely_def)
    qed (use Some Cons.IH in simp)
  qed (simp add: Cons.IH)
qed simp

lemma rediscover_safely: "safely cfg st (rediscover_from_known_peers cfg st)"
  by (simp add: rediscover_from_known_peers_def hello_all_safely)

lemma discover_once_safely: "safely cfg st (discover_once B cfg ctx st)"
proof (cases "cluster_seeds cfg = []")
  case False
  let ?tokens = "discover_tokens B cfg ctx (strsep_all 44 (strlcpy_text DMMR_SEEDS_MAX (cluster_seeds cfg))) st"
  show ?thesis
  proof (cases ?tokens)
    case (Done st1)
    then have "discovers cfg st st1"
      using discover_tokens_safely [of cfg st B ctx "strsep_all 44 (strlcpy_text DMMR_SEEDS_MAX (cluster_seeds cfg))"] by simp
    from safely_after [OF this rediscover_safely] show ?thesis using Done False by (simp add: discover_once_def)
  next
    case Fault
    then show ?thesis
      using discover_tokens_safely [of cfg st B ctx "strsep_all 44 (strlcpy_text DMMR_SEEDS_MAX (cluster_seeds cfg))"]
      by (simp add: safely_def)
  qed (use False in \<open>simp add: discover_once_def\<close>)
qed (simp add: discover_once_def rediscover_safely)

section \<open>Sessions at the listener\<close>

text \<open>A session as a peer opens it: the connection, the peer's configuration, its nonce and the updates it sends.\<close>

type_synonym session = "sock \<times> cluster_cfg \<times> u64 \<times> outbox_msg list"

definition session_ok :: "cluster_cfg \<Rightarrow> session \<Rightarrow> bool" where
  "session_ok cfg se \<longleftrightarrow> (case se of (s, cli, nonce_a, msgs) \<Rightarrow>
     same_cluster cfg cli \<and> list_all sync_ok msgs \<and> list_all (\<lambda>m. update_ok (msg_update m)) msgs \<and> tx_live 96 (s_tx s)
     \<and> stream_of (s_rx s) = cluster_wire (auth_request_msg cli nonce_a) @ cluster_wire (auth_ok_msg cli) @ msgs_wire cli msgs)"

definition session_updates :: "session \<Rightarrow> (bytes \<times> lww_rec) list" where
  "session_updates se = map msg_update (snd (snd (snd se)))"

text \<open>No ten minutes pass.\<close>

definition brief :: "world \<Rightarrow> bool" where
  "brief w \<longleftrightarrow> (\<forall>i n. i \<le> n \<longrightarrow> timespec_micros (w_clock w n) < timespec_micros (w_clock w i) + AUTH_TTL_MICROS)"

lemma brief_later: "brief w \<Longrightarrow> later w w' \<Longrightarrow> brief w'"
  by (auto simp: brief_def later_def)

lemma lww_run_append: "lww_run m (us @ vs) = lww_run (lww_run m us) vs"
  by (simp add: lww_run_def)

lemma listener_accepts:
  assumes "steady (nd_world st)"
  shows "listener_loop B cfg ctx (AccConn s # as) st =
     (case handle_cluster_connection B cfg ctx False 0 s (st\<lparr>nd_world := snd (draw_running (nd_world st))\<rparr>) of
        Done (s', st1) \<Rightarrow> listener_loop B cfg ctx as st1 | Blocked \<Rightarrow> Blocked | Fault \<Rightarrow> Fault)"
  using steady_running [OF assms] by (subst listener_loop.simps) auto

text \<open>The facts the opening of a session needs, at the moment the listener accepts it.\<close>

lemma session_accepted:
  assumes "bdb_contract B" and "bdb_reliable B" and "db_wf B d" and "nd_dbp st = Some d"
    and "steady (nd_world st)" and "brief (nd_world st)" and "session_ok cfg (s, cli, nonce_a, msgs)"
  defines "st1 \<equiv> st\<lparr>nd_world := snd (draw_running (nd_world st))\<rparr>"
  shows "\<exists>d'. db_deliver B (map msg_update msgs) (nd_dbp st1) = Some (Some d')
      \<and> db_view B d' = lww_run (db_view B d) (map msg_update msgs) \<and> db_wf B d'"
    and "steady (nd_world st1)" and "later (nd_world st) (nd_world st1)"
    and "timespec_micros (w_clock (nd_world st1) n) < timespec_micros (w_clock (nd_world st1) 0) + AUTH_TTL_MICROS"
proof -
  have "list_all update_ok (map msg_update msgs)" using assms(7) by (simp add: session_ok_def list_all_iff)
  from deliver_reliable [OF assms(1-3) this] assms(4)
  show "\<exists>d'. db_deliver B (map msg_update msgs) (nd_dbp st1) = Some (Some d')
      \<and> db_view B d' = lww_run (db_view B d) (map msg_update msgs) \<and> db_wf B d'"
    by (auto simp: st1_def)
  show "steady (nd_world st1)" using assms(5) by (simp add: st1_def)
  show "later (nd_world st) (nd_world st1)" using assms(5) by (simp add: st1_def later_draws)
  then have "brief (nd_world st1)" by (rule brief_later [OF assms(6)])
  then show "timespec_micros (w_clock (nd_world st1) n) < timespec_micros (w_clock (nd_world st1) 0) + AUTH_TTL_MICROS"
    by (simp add: brief_def)
qed

lemma listener_sessions:
  assumes "bdb_contract B" and "bdb_reliable B" and "cluster_secret cfg \<noteq> []" and "length (sha_data ctx) = 64"
    and "list_all (\<lambda>se. session_ok cfg se \<and> stream_end (s_rx (fst se)) = EndEof) ses"
    and "db_wf B d" and "nd_dbp st = Some d" and "steady (nd_world st)" and "brief (nd_world st)"
  shows "\<exists>st' d'. listener_loop B cfg ctx (map (AccConn \<circ> fst) ses @ as) st = listener_loop B cfg ctx as st'
     \<and> nd_dbp st' = Some d' \<and> db_wf B d' \<and> db_view B d' = lww_run (db_view B d) (concat (map session_updates ses))
     \<and> steady (nd_world st') \<and> brief (nd_world st')"
  using assms(5-9)
proof (induction ses arbitrary: d st)
  case Nil
  then show ?case by (intro exI [of _ st] exI [of _ d]) (simp add: lww_run_def)
next
  case (Cons se ses)
  obtain s cli nonce_a msgs where se: "se = (s, cli, nonce_a, msgs)" by (cases se)
  have ok: "session_ok cfg (s, cli, nonce_a, msgs)" and eof: "stream_end (s_rx s) = EndEof" using Cons.prems(1) by (simp_all add: se)
  have parts: "same_cluster cfg cli" "list_all sync_ok msgs" "tx_live 96 (s_tx s)"
    "stream_of (s_rx s) = cluster_wire (auth_request_msg cli nonce_a) @ cluster_wire (auth_ok_msg cli) @ msgs_wire cli msgs"
    using ok by (simp_all add: session_ok_def)
  let ?st = "st\<lparr>nd_world := snd (draw_running (nd_world st))\<rparr>"
  note acc = session_accepted [OF assms(1,2) Cons.prems(2-5) ok]
  from acc(1) obtain d1 where d1: "db_deliver B (map msg_update msgs) (nd_dbp ?st) = Some (Some d1)"
    "db_view B d1 = lww_run (db_view B d) (map msg_update msgs)" "db_wf B d1" by blast
  from session_opened [OF assms(3,4) parts(1,2) acc(2) parts(3) acc(4) parts(4) eof d1(1)] obtain s' st1 where
    run: "handle_cluster_connection B cfg ctx False 0 s ?st = Done (s', st1)" "nd_dbp st1 = Some d1"
    and w: "later (nd_world ?st) (nd_world st1)" by blast
  have st1: "steady (nd_world st1)" "brief (nd_world st1)"
    using w brief_later [OF Cons.prems(5) later_trans [OF acc(3) w]] by (simp_all add: later_def)
  have "list_all (\<lambda>se. session_ok cfg se \<and> stream_end (s_rx (fst se)) = EndEof) ses" using Cons.prems(1) by simp
  from Cons.IH [OF this d1(3) run(2) st1] show ?case
    using run(1) listener_accepts [OF Cons.prems(4), of B cfg ctx s "map (AccConn \<circ> fst) ses @ as"]
    by (simp add: se session_updates_def lww_run_append comp_def d1(2) [symmetric])
qed

lemma listener_held:
  assumes "bdb_contract B" and "bdb_reliable B" and "cluster_secret cfg \<noteq> []" and "length (sha_data ctx) = 64"
    and "db_wf B d" and "nd_dbp st = Some d" and "steady (nd_world st)" and "brief (nd_world st)"
    and "session_ok cfg se" and "stream_end (s_rx (fst se)) = EndBlock"
  shows "listener_loop B cfg ctx (AccConn (fst se) # as) st = Blocked"
proof -
  obtain s cli nonce_a msgs where se: "se = (s, cli, nonce_a, msgs)" by (cases se)
  have parts: "same_cluster cfg cli" "list_all sync_ok msgs" "tx_live 96 (s_tx s)"
    "stream_of (s_rx s) = cluster_wire (auth_request_msg cli nonce_a) @ cluster_wire (auth_ok_msg cli) @ msgs_wire cli msgs"
    and hold: "stream_end (s_rx s) = EndBlock"
    using assms(9,10) by (simp_all add: session_ok_def se)
  note acc = session_accepted [OF assms(1,2,5-8) assms(9) [unfolded se]]
  from acc(1) obtain d1 where
    "db_deliver B (map msg_update msgs) (nd_dbp (st\<lparr>nd_world := snd (draw_running (nd_world st))\<rparr>)) = Some (Some d1)" by blast
  from session_held [OF assms(3,4) parts(1,2) acc(2) parts(3) acc(4) parts(4) hold this]
  show ?thesis unfolding listener_accepts [OF assms(7)] by (simp add: se)
qed

section \<open>Properties\<close>

text \<open>
  C39: discovery.  A round of discovery, whatever the seeds are and whatever the nodes it greets answer, never reads
  outside a message, leaves the peer list well-formed, and touches the store only while the node has not been
  bootstrapped: afterwards neither the store nor the mark of the bootstrap changes.
\<close>

theorem discover_once_safe:
  assumes "list_all (peer_ok cfg) (nd_peers st)"
  shows "discover_once B cfg ctx st \<noteq> Fault \<and>
    (\<forall>st'. discover_once B cfg ctx st = Done st' \<longrightarrow> list_all (peer_ok cfg) (nd_peers st') \<and>
       (bootstrap_completed st \<longrightarrow> bootstrap_completed st' \<and> nd_dbp st' = nd_dbp st))"
  using discover_once_safely [of cfg st B ctx] assms by (simp add: safely_def discovers_def)

text \<open>
  C40: the listener serves one connection at a time.  Sessions of peers that end are served in the order they are
  accepted and the store is then the last-writer-wins merge of all their updates.  But as long as one peer keeps
  its session open without sending, as the sender of every live peer does, the listener does nothing else:
  no connection that waits behind it is ever served, whatever its number and content.
\<close>

theorem listener_serves_in_turn:
  assumes "bdb_contract B" and "bdb_reliable B" and "cluster_secret cfg \<noteq> []" and "length (sha_data ctx) = 64"
    and "list_all (\<lambda>se. session_ok cfg se \<and> stream_end (s_rx (fst se)) = EndEof) ses"
    and "db_wf B d" and "nd_dbp st = Some d" and "steady (nd_world st)" and "brief (nd_world st)"
    and "session_ok cfg held" and "stream_end (s_rx (fst held)) = EndBlock"
  shows "(\<exists>st' d'. cluster_listener B cfg ctx True True (map (AccConn \<circ> fst) ses @ [AccFail]) st = Done st'
       \<and> nd_dbp st' = Some d' \<and> db_view B d' = lww_run (db_view B d) (concat (map session_updates ses)))
    \<and> cluster_listener B cfg ctx True True (map (AccConn \<circ> fst) ses @ AccConn (fst held) # waiting) st = Blocked"
proof (rule conjI)
  from listener_sessions [OF assms(1-9), of "[AccFail]"] obtain st' d' where
    st': "listener_loop B cfg ctx (map (AccConn \<circ> fst) ses @ [AccFail]) st = listener_loop B cfg ctx [AccFail] st'"
      "nd_dbp st' = Some d'" "db_view B d' = lww_run (db_view B d) (concat (map session_updates ses))" "steady (nd_world st')" by blast
  have "\<exists>st''. listener_loop B cfg ctx [AccFail] st' = Done st'' \<and> nd_dbp st'' = nd_dbp st'"
    using steady_running [OF st'(4)] by (subst listener_loop.simps) auto
  with st' show "\<exists>st' d'. cluster_listener B cfg ctx True True (map (AccConn \<circ> fst) ses @ [AccFail]) st = Done st'
       \<and> nd_dbp st' = Some d' \<and> db_view B d' = lww_run (db_view B d) (concat (map session_updates ses))"
    by (auto simp: cluster_listener_def)
next
  from listener_sessions [OF assms(1-9), of "AccConn (fst held) # waiting"] obtain st' d' where
    st': "listener_loop B cfg ctx (map (AccConn \<circ> fst) ses @ AccConn (fst held) # waiting) st
        = listener_loop B cfg ctx (AccConn (fst held) # waiting) st'"
      "nd_dbp st' = Some d'" "db_wf B d'" "steady (nd_world st')" "brief (nd_world st')" by blast
  from listener_held [OF assms(1-4) st'(3,2,4,5) assms(10,11)] st'(1)
  show "cluster_listener B cfg ctx True True (map (AccConn \<circ> fst) ses @ AccConn (fst held) # waiting) st = Blocked"
    by (simp add: cluster_listener_def)
qed

section \<open>Witnesses\<close>

definition seeded_cfg :: cluster_cfg where
  "seeded_cfg = demo_cfg\<lparr>cluster_seeds := cstr ''junk, c:9''\<rparr>"

lemma demo_discovery:
  "\<exists>st'. discover_once map_bdb seeded_cfg demo_ctx demo_node = Done st' \<and> map pc_addr (nd_peers st') = [cstr ''a'', cstr ''b'', cstr ''c'']"
proof -
  have tokens: "strsep_all 44 (strlcpy_text DMMR_SEEDS_MAX (cluster_seeds seeded_cfg)) = [cstr ''junk'', cstr '' c:9'']"
    by (simp add: seeded_cfg_def const_defs)
  have seeds: "parse_seed (Some (dropWhile (\<lambda>c. c = 32 \<or> c = 9) (cstr ''junk''))) = None"
    "parse_seed (Some (dropWhile (\<lambda>c. c = 32 \<or> c = 9) (cstr '' c:9''))) = Some \<lparr>ep_addr = cstr ''c'', ep_port = 9, ep_node_id = 0\<rparr>"
    by (simp_all add: parse_seed_def strtol_def scan_number_def is_space_def is_digit_def digits_value_def strrchr_def strchr_def
        const_defs)
  have ne: "cstr ''junk, c:9'' \<noteq> []" by simp
  show ?thesis
    unfolding discover_once_def tokens
    by (simp add: ne seeds seeded_cfg_def demo_cfg_def demo_node_def demo_world_def endpoint_is_self_def discover_seed_def add_peer_def
        add_peer_internal_def draw_time_def draw_mem_def draw_net_def peer_matches_def peer_new_def send_hello_def connect_endpoint_def
        rediscover_from_known_peers_def known_peers_def snapshot_peer_endpoints_def const_defs del: cstr_Cons)
qed

theorem discover_once_safe_witness:
  "\<exists>st'. discover_once map_bdb seeded_cfg demo_ctx demo_node = Done st' \<and> list_all (peer_ok seeded_cfg) (nd_peers st')
     \<and> length (nd_peers st') = 3"
proof -
  obtain st' where run: "discover_once map_bdb seeded_cfg demo_ctx demo_node = Done st'"
    "map pc_addr (nd_peers st') = [cstr ''a'', cstr ''b'', cstr ''c'']"
    using demo_discovery by (elim exE conjE)
  have "length (map pc_addr (nd_peers st')) = 3" unfolding run(2) by simp
  then have "length (nd_peers st') = 3" by simp
  moreover have "peer_ok seeded_cfg = peer_ok demo_cfg"
    by (auto simp: fun_eq_iff seeded_cfg_def peer_ok_def address_ok_def endpoint_is_self_def)
  ultimately show ?thesis
    using discover_once_safe [of seeded_cfg demo_node map_bdb demo_ctx] run(1) demo_node_ok by simp
qed

text \<open>A peer that opens a session and keeps it.\<close>

definition held_sock :: sock where
  "held_sock = (wire_sock [])\<lparr>s_rx := [RxData (cluster_wire (auth_request_msg demo_peer_cfg 7) @ cluster_wire (auth_ok_msg demo_peer_cfg))]\<rparr>"

theorem listener_serves_in_turn_witness:
  "\<exists>st' d'. cluster_listener map_bdb demo_cfg demo_ctx True True [AccConn (wire_sock session_wire), AccFail] quiet_node = Done st'
      \<and> nd_dbp st' = Some d' \<and> db_view map_bdb d' [1] \<noteq> None
      \<and> cluster_listener map_bdb demo_cfg demo_ctx True True
          [AccConn held_sock, AccConn (wire_sock session_wire), AccFail] quiet_node = Blocked"
proof -
  let ?se = "(wire_sock session_wire, intruder_cfg, 77 :: u64, [demo_msg])"
    and ?held = "(held_sock, demo_peer_cfg, 7 :: u64, [] :: outbox_msg list)"
  have se: "list_all (\<lambda>se. session_ok demo_cfg se \<and> stream_end (s_rx (fst se)) = EndEof) [?se]"
    using session_wire_sock intruder_same_cluster demo_msg_sync by (simp add: session_ok_def)
  have held: "session_ok demo_cfg ?held" "stream_end (s_rx (fst ?held)) = EndBlock"
    using demo_same_cluster by (simp_all add: session_ok_def held_sock_def)
  have brief: "brief (nd_world quiet_node)"
    by (simp add: brief_def quiet_node_def timespec_micros_def const_defs)
  note serves = listener_serves_in_turn [OF map_bdb_contract map_bdb_reliable demo_secret(2) demo_ctx_len _ empty_wf
      quiet_node_simps(2,1) brief held]
  have v: "db_view map_bdb Map.empty = Map.empty" by (auto simp: db_view_def)
  show ?thesis
    using serves [OF se] serves [of "[]" "[AccConn (wire_sock session_wire), AccFail]"]
    by (fastforce simp: v session_updates_def demo_msg_sync(3) lww_run_def lww_update_def lww_merge_def)
qed

end
