(* ===== verification/Dmmr_Service.thy ===== *)
theory Dmmr_Service
  imports Dmmr_Server
begin

text \<open>
  What the operations of \<open>dmmr_server.c\<close> mean to a client and to replication: a value set is the
  value read, what is stored is what is queued for the peers, and how the legacy protocol answers.
\<close>

section \<open>Writes and reads\<close>

lemma process_op_set:
  assumes "key_ok k" and "length v \<le> MAX_VALUE_LEN"
  shows "process_op B (client_frame OP_SET k v) (k @ v) n False st
     = process_set B k (if v = [] then None else Some v) (length v) 0 n False st"
  using client_request_ok(2,3) [OF assms, of OP_SET]
  by (simp add: process_op_def Let_def sub_def client_frame_def const_defs)

lemma process_op_get:
  assumes "key_ok k"
  shows "process_op B (client_frame OP_GET k []) k n False st = process_get B k st"
  using client_request_ok(2) [OF assms, of "[]" OP_GET]
  by (simp add: process_op_def Let_def client_frame_def const_defs)

lemma process_op_del:
  assumes "key_ok k"
  shows "process_op B (client_frame OP_DEL k []) k n False st = process_del B k False st"
  using client_request_ok(2) [OF assms, of "[]" OP_DEL]
  by (simp add: process_op_def Let_def client_frame_def const_defs)

lemma status_distinct [simp]:
  "DMMR_PROTO_STATUS_ERROR \<noteq> DMMR_PROTO_STATUS_OK" "DMMR_PROTO_STATUS_NOT_FOUND \<noteq> DMMR_PROTO_STATUS_OK"
  by (simp_all add: const_defs)

lemma process_set_ok:
  assumes "process_set B k val value_len ts n False st = ((DMMR_PROTO_STATUS_OK, pl, len), st')"
  obtains dbp' where "db_apply_record B (sv_mem st 0) (Some k) (micros_at 0 st) (my_node_id st)
      (micros_at 1 st + TTL_DEFAULT) False val value_len (sv_dbp st) = (DMMR_DB_APPLIED, dbp')"
    "sv_dbp st' = dbp'" "sv_mem st' = (\<lambda>i. sv_mem st (i + 2))" "my_node_id st' = my_node_id st"
    "sv_control st' = enqueue_broadcast (sv_mem st 1) k val value_len (micros_at 0 st) (my_node_id st)
       (micros_at 1 st + TTL_DEFAULT) FLAG_NONE (sv_control st)"
  using assms
  by (auto simp: process_set_eq db_set_with_meta_def Let_def sv_after_def fun_eq_iff
      split: prod.splits if_splits)

lemma process_get_found:
  assumes "db_get_with_meta B (sv_mem st 0) (Some k) True (sv_dbp st) = (DMMR_DB_APPLIED, Some got)"
  shows "fst (process_get B k st) = (DMMR_PROTO_STATUS_OK, got_value got, of_nat (got_value_len got))"
  using assms by (simp add: process_get_eq Let_def)

lemma process_get_missing:
  assumes "db_get_with_meta B (sv_mem st 0) (Some k) True (sv_dbp st) = (DMMR_DB_NOT_FOUND, got)"
  shows "fst (process_get B k st) = (DMMR_PROTO_STATUS_NOT_FOUND, None, 0)"
  using assms by (simp add: process_get_eq Let_def)

section \<open>Replication commands\<close>

text \<open>The record a replication command stands for, as the receiving node stores it.\<close>

definition cmd_rec :: "control_cmd \<Rightarrow> lww_rec" where
  "cmd_rec c = mk_rec (cc_ts c) (cc_node_id c) (cc_expire_at c) (cc_flags c = FLAG_TOMBSTONE)
     (value_arg (cc_value c) (cc_value_len c))"

lemma cmd_rec_broadcast:
  assumes "value_len \<le> MAX_VALUE_LEN"
  shows "cmd_rec (broadcast_cmd k val value_len ts node expire flags)
     = mk_rec ts node expire (flags = FLAG_TOMBSTONE) (value_arg val value_len)"
  using assms by (cases val) (auto simp: cmd_rec_def broadcast_cmd_def value_arg_def mk_rec_def min_def)

lemma set_queues_record:
  assumes "bdb_contract B" and "sv_dbp st = Some s"
    and "process_set B k val value_len ts n False st = ((DMMR_PROTO_STATUS_OK, pl, len), st')"
    and "pool_inv (cq_pool (sv_control st)) out" and "card out < hp_capacity (cq_pool (sv_control st))"
    and "sv_mem st 1"
  defines "cmd \<equiv> broadcast_cmd k val value_len (micros_at 0 st) (my_node_id st) (micros_at 1 st + TTL_DEFAULT) FLAG_NONE"
  shows "\<exists>s'. sv_dbp st' = Some s'
    \<and> map snd (cq_head (sv_control st')) = map snd (cq_head (sv_control st)) @ [cmd]
    \<and> cc_key cmd = k \<and> db_view B s' k = Some (cmd_rec cmd)"
proof -
  let ?e = "micros_at 1 st + TTL_DEFAULT"
  from assms(3) obtain dbp' where ap: "db_apply_record B (sv_mem st 0) (Some k) (micros_at 0 st) (my_node_id st)
      ?e False val value_len (sv_dbp st) = (DMMR_DB_APPLIED, dbp')" "sv_dbp st' = dbp'"
    and ctl: "sv_control st' = enqueue_broadcast (sv_mem st 1) k val value_len (micros_at 0 st) (my_node_id st)
       ?e FLAG_NONE (sv_control st)" by (rule process_set_ok)
  have ap': "db_apply_record B (sv_mem st 0) (Some k) (micros_at 0 st) (my_node_id st)
      ?e False val value_len (Some s) = (DMMR_DB_APPLIED, dbp')" using ap(1) assms(2) by simp
  from ap' obtain s' where s': "dbp' = Some s'" and k: "key_ok k" and vl: "value_len \<le> MAX_VALUE_LEN"
    and put: "put_record_locked B (sv_mem st 0) k (micros_at 0 st) (my_node_id st) ?e False
       (value_arg val value_len) s = (DMMR_DB_APPLIED, s')"
    by (cases rule: db_apply_cases) auto
  have "db_view B s' k = Some (cmd_rec cmd)"
    using put_record_view(1) [OF assms(1) value_arg_bound [OF vl] put] cmd_rec_broadcast [OF vl]
    by (simp add: cmd_def const_defs)
  moreover have "cc_key cmd = k" using k by (simp add: cmd_def broadcast_cmd_def key_ok_def)
  moreover have "map snd (cq_head (sv_control st')) = map snd (cq_head (sv_control st)) @ [cmd]"
    using enqueue_broadcast_queued [OF assms(4,5)] assms(6) ctl by (simp add: cmd_def)
  ultimately show ?thesis using ap(2) s' k vl by blast
qed

section \<open>Properties\<close>

text \<open>
  C20: read your writes.  On one connection, after a SET of a valid key and value is answered OK,
  the GET that follows is answered OK with exactly the value; a SET is never answered anything
  but OK or ERROR.
\<close>

theorem client_set_then_get:
  assumes "bdb_contract B" and "key_ok k" and "length v \<le> MAX_VALUE_LEN"
    and "sv_mem st = (\<lambda>_. True)" and "sv_dbp st = Some s"
  shows "\<exists>r1 r2 st'. serve_all B [(client_frame OP_SET k v, k @ v), (client_frame OP_GET k [], k)] st = ([r1, r2], st')
    \<and> (fst r1 = DMMR_PROTO_STATUS_OK \<or> fst r1 = DMMR_PROTO_STATUS_ERROR)
    \<and> (fst r1 = DMMR_PROTO_STATUS_OK \<longrightarrow>
         r2 = (DMMR_PROTO_STATUS_OK, if v = [] then None else Some v, of_nat (length v)))"
proof -
  let ?val = "if v = [] then None else Some v"
  obtain r1 st1 where set: "process_set B k ?val (length v) 0 (my_node_id st) False st = (r1, st1)" by fastforce
  obtain r2 st2 where get: "process_get B k st1 = (r2, st2)" by fastforce
  have all: "serve_all B [(client_frame OP_SET k v, k @ v), (client_frame OP_GET k [], k)] st = ([r1, r2], st2)"
    by (simp add: process_op_set [OF assms(2,3)] process_op_get [OF assms(2)] set get)
  have "fst r1 = DMMR_PROTO_STATUS_OK \<or> fst r1 = DMMR_PROTO_STATUS_ERROR"
    using set by (auto simp: process_set_eq Let_def split: prod.splits if_splits)
  moreover have "r2 = (DMMR_PROTO_STATUS_OK, ?val, of_nat (length v))" if ok: "fst r1 = DMMR_PROTO_STATUS_OK"
  proof -
    from set ok obtain pl len where "process_set B k ?val (length v) 0 (my_node_id st) False st
        = ((DMMR_PROTO_STATUS_OK, pl, len), st1)" by (cases r1) auto
    then obtain dbp' where ap: "db_apply_record B (sv_mem st 0) (Some k) (micros_at 0 st) (my_node_id st)
        (micros_at 1 st + TTL_DEFAULT) False ?val (length v) (Some s) = (DMMR_DB_APPLIED, dbp')"
      "sv_dbp st1 = dbp'" "sv_mem st1 = (\<lambda>i. sv_mem st (i + 2))"
      using assms(5) by (metis process_set_ok)
    have "value_arg ?val (length v) = v" by (simp add: value_arg_def)
    with db_get_after_apply [OF assms(1) ap(1)] ap(2,3) assms(4) process_get_found [of B st1 k] get show ?thesis
      by (simp add: Let_def)
  qed
  ultimately show ?thesis using all by blast
qed

text \<open>
  A SET replicates what it stored.  When a client's SET is answered OK, a slot for a
  command is free and memory for the value is available, one command is appended to the
  replication queue, for the same key, and it stands for exactly the record now stored: same
  timestamp, node, expiry and value.
\<close>

theorem set_replicates_stored_record:
  assumes "bdb_contract B" and "sv_dbp st = Some s"
    and "process_set B k val value_len ts n False st = ((DMMR_PROTO_STATUS_OK, pl, len), st')"
    and "pool_inv (cq_pool (sv_control st)) out" and "card out < hp_capacity (cq_pool (sv_control st))"
    and "sv_mem st 1"
  shows "\<exists>s' cmd. sv_dbp st' = Some s'
    \<and> map snd (cq_head (sv_control st')) = map snd (cq_head (sv_control st)) @ [cmd]
    \<and> cc_key cmd = k \<and> db_view B s' k = Some (cmd_rec cmd)"
  using set_queues_record [OF assms] by blast

text \<open>
  A DEL does not.  When a client's DEL is answered OK and a slot for a command is free, the
  tombstone stored carries the first clock reading of the call and the command queued for the
  peers the second one, so the two are the same record only if the readings are equal.
\<close>

theorem del_replicates_other_stamp:
  assumes "bdb_contract B" and "sv_dbp st = Some s"
    and "process_del B k False st = ((DMMR_PROTO_STATUS_OK, pl, len), st')"
    and "pool_inv (cq_pool (sv_control st)) out" and "card out < hp_capacity (cq_pool (sv_control st))"
  shows "\<exists>s' cmd. sv_dbp st' = Some s'
    \<and> map snd (cq_head (sv_control st')) = map snd (cq_head (sv_control st)) @ [cmd] \<and> cc_key cmd = k
    \<and> db_view B s' k = Some (mk_rec (micros_at 0 st) (my_node_id st) 0 True [])
    \<and> cmd_rec cmd = mk_rec (micros_at 1 st) (my_node_id st) 0 True []
    \<and> (db_view B s' k = Some (cmd_rec cmd) \<longleftrightarrow> micros_at 0 st = micros_at 1 st)"
proof -
  let ?cmd = "broadcast_cmd k None 0 (micros_at 1 st) (my_node_id st) 0 FLAG_TOMBSTONE"
  from assms(2,3) obtain dbp' where ap: "db_apply_record B (sv_mem st 0) (Some k) (micros_at 0 st) (my_node_id st)
      0 True None 0 (Some s) = (DMMR_DB_APPLIED, dbp')" and d: "sv_dbp st' = dbp'"
    and ctl: "sv_control st' = enqueue_broadcast (sv_mem st 1) k None 0 (micros_at 1 st) (my_node_id st) 0
       FLAG_TOMBSTONE (sv_control st)"
    by (auto simp: process_del_eq db_del_key_def Let_def split: prod.splits if_splits)
  from ap obtain s' where s': "dbp' = Some s'" and k: "key_ok k"
    and put: "put_record_locked B (sv_mem st 0) k (micros_at 0 st) (my_node_id st) 0 True
       (value_arg None 0) s = (DMMR_DB_APPLIED, s')"
    by (cases rule: db_apply_cases) auto
  have view: "db_view B s' k = Some (mk_rec (micros_at 0 st) (my_node_id st) 0 True [])"
    using put_record_view(1) [OF assms(1) _ put] by (simp add: value_arg_def)
  have cmd: "cmd_rec ?cmd = mk_rec (micros_at 1 st) (my_node_id st) 0 True []"
    using cmd_rec_broadcast [of 0 k None] by (simp add: value_arg_def)
  have "cc_key ?cmd = k" using k by (simp add: broadcast_cmd_def key_ok_def)
  moreover have "map snd (cq_head (sv_control st')) = map snd (cq_head (sv_control st)) @ [?cmd]"
    using enqueue_broadcast_queued [OF assms(4,5)] ctl by simp
  moreover have "db_view B s' k = Some (cmd_rec ?cmd) \<longleftrightarrow> micros_at 0 st = micros_at 1 st"
    unfolding view cmd by (simp add: mk_rec_def)
  ultimately show ?thesis using view cmd d s' by blast
qed

text \<open>
  The legacy protocol on a stored value.  A legacy GET of a key whose record holds \<open>v\<close> is
  answered with the 16-bit length of \<open>v\<close> and that many bytes of it, unless this length is
  above 4096: then the response overruns its buffer.  So a value of 64 KiB or more is answered
  truncated, and one of 5000 bytes is a memory fault.
\<close>

theorem legacy_get_stored:
  assumes "sv_dbp st = Some db" and "bdb_get B db k = GetOk (record_image ts node ex False v)"
    and "key_ok k" and "length v \<le> MAX_VALUE_LEN" and "sv_mem st 0" and "tx_live (4 + length v) (s_tx s)"
  shows "if length v mod 65536 > 4096
     then process_legacy_request B s OP_GET (of_nat (length k)) (Some k) st = Fault
     else \<exists>s' st'. process_legacy_request B s OP_GET (of_nat (length k)) (Some k) st = Done (0, s', st')
        \<and> s_out s' = s_out s @ be_bytes 2 DMMR_PROTO_STATUS_OK @ be_bytes 2 (of_nat (length v) :: u16)
             @ take (length v mod 65536) v"
proof -
  let ?len = "of_nat (length v) :: u16" and ?st = "st\<lparr>sv_mem := (\<lambda>n. sv_mem st (Suc n))\<rparr>"
  have kl: "unat (of_nat (length k) :: u16) = length k" "(of_nat (length k) :: u16) \<noteq> 0"
    using assms(3) by (auto simp: key_ok_def const_defs unsigned_of_nat take_bit_eq_mod unat_eq_zero [symmetric])
  have len: "unat ?len = length v mod 65536" by (simp add: unsigned_of_nat take_bit_eq_mod)
  let ?val = "if v = [] then None else Some v"
  have get: "db_get_with_meta B True (Some k) True (Some db)
      = (DMMR_DB_APPLIED, Some \<lparr>got_ts = ts, got_node = node, got_value = ?val,
          got_value_len = length v, got_expire = ex\<rparr>)"
    using assms(2-4) image_value [of False v]
    by (auto simp: db_get_with_meta_def key_ok_def record_image_valid image_flags image_fields Let_def)
  have run: "process_legacy_request B s OP_GET (of_nat (length k)) (Some k) st
      = (case send_legacy_response s DMMR_PROTO_STATUS_OK ?len ?val of
           Done s' \<Rightarrow> Done (0, s', ?st) | Blocked \<Rightarrow> Blocked | Fault \<Rightarrow> Fault)"
    using kl assms(1,5) by (simp add: process_legacy_request_def Let_def next_mem_def get)
  show ?thesis
  proof (cases "length v mod 65536 > 4096")
    case True
    then show ?thesis using len by (simp add: run send_legacy_response_def)
  next
    case False
    let ?resp = "be_bytes 2 DMMR_PROTO_STATUS_OK @ be_bytes 2 ?len @ take (length v mod 65536) v"
    have "tx_live (length ?resp) (s_tx s)" using assms(6) by (auto simp: tx_live_def)
    with send_full_live [of ?resp 0 s] obtain s' where "send_full ?resp s = Some (int (length ?resp), s')"
      "s_out s' = s_out s @ ?resp" by auto
    moreover have "send_legacy_response s DMMR_PROTO_STATUS_OK ?len ?val
        = (case send_full ?resp s of None \<Rightarrow> Blocked | Some (_, s') \<Rightarrow> Done s')"
      using False len by (auto simp: send_legacy_response_def codec_simps)
    ultimately show ?thesis using False run by auto
  qed
qed

text \<open>
  The legacy protocol on failures.  A legacy GET of a key that is not in the store is
  answered with the status \<open>ERROR\<close>, and one the store cannot answer (here: a failing B-tree)
  with the status \<open>NOT_FOUND\<close>: the two are exchanged with respect to the version-1 protocol.
\<close>

theorem legacy_statuses_exchanged:
  assumes "sv_dbp st = Some db" and "key_ok k" and "tx_live 4 (s_tx s)"
    and "bdb_get B db k = (if present then GetError else GetNotFound)"
  shows "(\<exists>s' st' rc. process_legacy_request B s OP_GET (of_nat (length k)) (Some k) st = Done (rc, s', st')
        \<and> s_out s' = s_out s
            @ be_bytes 2 (if present then DMMR_PROTO_STATUS_NOT_FOUND else DMMR_PROTO_STATUS_ERROR)
            @ be_bytes 2 (0 :: u16))
    \<and> fst (process_get B k st)
        = (if present then DMMR_PROTO_STATUS_ERROR else DMMR_PROTO_STATUS_NOT_FOUND, None, 0)"
proof
  have kl: "unat (of_nat (length k) :: u16) = length k" "(of_nat (length k) :: u16) \<noteq> 0"
    using assms(2) by (auto simp: key_ok_def const_defs unsigned_of_nat take_bit_eq_mod unat_eq_zero [symmetric])
  have get: "db_get_with_meta B m (Some k) True (Some db)
      = (if present then DMMR_DB_ERROR else DMMR_DB_NOT_FOUND, None)" for m
    using assms(2,4) by (simp add: db_get_with_meta_def key_ok_def)
  then show "fst (process_get B k st)
        = (if present then DMMR_PROTO_STATUS_ERROR else DMMR_PROTO_STATUS_NOT_FOUND, None, 0)"
    using assms(1) by (simp add: process_get_eq Let_def)
  let ?st = "if present then DMMR_PROTO_STATUS_NOT_FOUND else DMMR_PROTO_STATUS_ERROR"
  let ?resp = "be_bytes 2 ?st @ be_bytes 2 (0 :: u16)"
  from send_full_live [of ?resp 0 s] assms(3) obtain s' where "send_full ?resp s = Some (int (length ?resp), s')"
    "s_out s' = s_out s @ ?resp" by auto
  then have "send_legacy_response s ?st 0 None = Done s' \<and> s_out s' = s_out s @ ?resp"
    by (simp add: send_legacy_response_def codec_simps)
  then show "\<exists>s' st' rc. process_legacy_request B s OP_GET (of_nat (length k)) (Some k) st = Done (rc, s', st')
        \<and> s_out s' = s_out s @ ?resp"
    using kl assms(1) by (auto simp: process_legacy_request_def Let_def next_mem_def get)
qed

section \<open>Witnesses\<close>

lemma demo_key: "key_ok (cstr ''k'')" "length (cstr ''v'') \<le> MAX_VALUE_LEN"
  by (simp_all add: key_ok_def const_defs)

lemma demo_set:
  "\<exists>st'. process_set map_bdb (cstr ''k'') (Some (cstr ''v'')) (length (cstr ''v'')) 0 7 False demo_server
     = ((DMMR_PROTO_STATUS_OK, None, 0), st')"
  using map_bdb_apply_fresh [OF demo_key, of Map.empty False]
  by (simp add: process_set_eq db_set_with_meta_def demo_server_def Let_def)

lemma demo_del:
  "\<exists>st'. process_del map_bdb (cstr ''k'') False demo_server = ((DMMR_PROTO_STATUS_OK, None, 0), st')"
  using demo_key(1)
  by (simp add: process_del_eq db_del_key_def db_apply_record_def put_record_locked_def demo_server_def
      key_ok_def Let_def)

lemma demo_server_simps:
  "sv_dbp demo_server = Some Map.empty" "sv_mem demo_server = (\<lambda>_. True)"
  "cq_pool (sv_control demo_server) = demo_pool" "cq_head (sv_control demo_server) = []"
  "my_node_id demo_server = 7"
  by (simp_all add: demo_server_def)

theorem client_set_then_get_witness:
  "\<exists>r1 st'. serve_all map_bdb [(client_frame OP_SET (cstr ''k'') (cstr ''v''), cstr ''k'' @ cstr ''v''),
       (client_frame OP_GET (cstr ''k'') [], cstr ''k'')] demo_server
     = ([(DMMR_PROTO_STATUS_OK, r1), (DMMR_PROTO_STATUS_OK, Some (cstr ''v''), 1)], st')"
proof -
  from client_set_then_get [OF map_bdb_contract demo_key demo_server_simps(2,1)] obtain r1 r2 st' where
    all: "serve_all map_bdb [(client_frame OP_SET (cstr ''k'') (cstr ''v''), cstr ''k'' @ cstr ''v''),
       (client_frame OP_GET (cstr ''k'') [], cstr ''k'')] demo_server = ([r1, r2], st')"
    and r2: "fst r1 = DMMR_PROTO_STATUS_OK \<longrightarrow> r2 = (DMMR_PROTO_STATUS_OK, Some (cstr ''v''), 1)"
    by auto
  have "fst r1 = DMMR_PROTO_STATUS_OK"
    using all demo_set process_op_set [OF demo_key, of map_bdb 7 demo_server]
    by (auto simp: demo_server_simps simp del: cstr_def split: prod.splits)
  with all r2 show ?thesis by (cases r1) auto
qed

theorem set_replicates_stored_record_witness:
  "\<exists>st' s' cmd. process_set map_bdb (cstr ''k'') (Some (cstr ''v'')) (length (cstr ''v'')) 0 7 False demo_server
       = ((DMMR_PROTO_STATUS_OK, None, 0), st')
    \<and> sv_dbp st' = Some s' \<and> map snd (cq_head (sv_control st')) = [cmd]
    \<and> cc_key cmd = cstr ''k'' \<and> db_view map_bdb s' (cstr ''k'') = Some (cmd_rec cmd)"
proof -
  obtain st' where set: "process_set map_bdb (cstr ''k'') (Some (cstr ''v'')) (length (cstr ''v'')) 0 7 False demo_server
     = ((DMMR_PROTO_STATUS_OK, None, 0), st')" using demo_set by blast
  have "pool_inv (cq_pool (sv_control demo_server)) {}" "card {} < hp_capacity (cq_pool (sv_control demo_server))"
    "sv_mem demo_server 1" using demo_pool_inv demo_pool_cap by (simp_all add: demo_server_simps)
  from set_replicates_stored_record [OF map_bdb_contract demo_server_simps(1) set this, unfolded demo_server_simps list.map append_Nil]
  obtain s' cmd where "sv_dbp st' = Some s'" "map snd (cq_head (sv_control st')) = [cmd]" "cc_key cmd = cstr ''k''"
    "db_view map_bdb s' (cstr ''k'') = Some (cmd_rec cmd)" by (elim exE conjE)
  with set show ?thesis by (intro exI [of _ st'] exI [of _ s'] exI [of _ cmd] conjI)
qed

theorem del_replicates_other_stamp_witness:
  "\<exists>st' s' cmd. process_del map_bdb (cstr ''k'') False demo_server = ((DMMR_PROTO_STATUS_OK, None, 0), st')
    \<and> sv_dbp st' = Some s' \<and> map snd (cq_head (sv_control st')) = [cmd]
    \<and> cc_key cmd = cstr ''k'' \<and> db_view map_bdb s' (cstr ''k'') \<noteq> Some (cmd_rec cmd)"
proof -
  obtain st' where del: "process_del map_bdb (cstr ''k'') False demo_server = ((DMMR_PROTO_STATUS_OK, None, 0), st')"
    using demo_del by blast
  have ne: "micros_at 0 demo_server \<noteq> micros_at 1 demo_server"
    by (simp add: micros_at_def timespec_micros_def demo_server_def)
  have "pool_inv (cq_pool (sv_control demo_server)) {}" "card {} < hp_capacity (cq_pool (sv_control demo_server))"
    using demo_pool_inv demo_pool_cap by (simp_all add: demo_server_simps)
  from del_replicates_other_stamp [OF map_bdb_contract demo_server_simps(1) del this, unfolded demo_server_simps list.map append_Nil]
  obtain s' cmd where "sv_dbp st' = Some s'" "map snd (cq_head (sv_control st')) = [cmd]" "cc_key cmd = cstr ''k''"
    "(db_view map_bdb s' (cstr ''k'') = Some (cmd_rec cmd))
       = (micros_at 0 demo_server = micros_at 1 demo_server)" by (elim exE conjE)
  with del ne show ?thesis by (intro exI [of _ st'] exI [of _ s'] exI [of _ cmd] conjI) simp_all
qed

theorem legacy_get_stored_witness:
  "process_legacy_request map_bdb (demo_eof\<lparr>s_tx := replicate 5004 (TxTake 1)\<rparr>) OP_GET 1 (Some (cstr ''k''))
     (demo_server\<lparr>sv_dbp := Some (Map.empty(cstr ''k'' \<mapsto> record_image 1 1 0 False (replicate 5000 0)))\<rparr>) = Fault"
  using legacy_get_stored [of "demo_server\<lparr>sv_dbp := Some (Map.empty(cstr ''k'' \<mapsto>
        record_image 1 1 0 False (replicate 5000 0)))\<rparr>" _ map_bdb "cstr ''k''" 1 1 0 "replicate 5000 0"
      "demo_eof\<lparr>s_tx := replicate 5004 (TxTake 1)\<rparr>"] demo_key(1)
  by (simp add: demo_server_simps tx_live_def MAX_VALUE_LEN_def)

theorem legacy_statuses_exchanged_witness:
  "\<exists>s' st' rc. process_legacy_request map_bdb demo_conn OP_GET 1 (Some (cstr ''k'')) demo_server = Done (rc, s', st')
     \<and> s_out s' = be_bytes 2 DMMR_PROTO_STATUS_ERROR @ be_bytes 2 (0 :: u16)"
proof -
  have "4 \<le> length (concat (map reply_wire (fst (serve_all map_bdb demo_reqs demo_server))))"
    by (simp add: demo_reqs_def reply_wire_def split: prod.splits)
  then have "tx_live 4 (s_tx demo_conn)" using demo_conn_ok(7) by (simp add: tx_live_def)
  from legacy_statuses_exchanged [OF demo_server_simps(1) demo_key(1) this, of map_bdb False] show ?thesis
    by (simp add: demo_conn_ok(6))
qed

end
