(* ===== verification/Dmmr_Gc.thy ===== *)
theory Dmmr_Gc
  imports Dmmr_Service
begin

text \<open>
  The expiry of \<open>dmmr_server.c\<close>: \<open>scan_expired_entries\<close> walks the store with a cursor and queues the
  keys of expired records, \<open>gc_worker_routine\<close> deletes them and queues the deletions for the peers.
  What the calls of the cursor return is a sequence \<open>get\<close>, indexed by the number of the call.
\<close>

section \<open>State and operations\<close>

datatype gc_event = GcRow bytes bytes | GcNotFound | GcError

record 's gc =
  gc_server :: "'s server"
  gc_pool :: heap_pool
  gc_queue :: "(int \<times> bytes) list"
  gc_cursor :: bool

definition alloc_del :: "'s gc \<Rightarrow> int option \<times> 's gc" where
  "alloc_del g = (case dmmr_heap_pool_alloc (gc_pool g) of (h, p) \<Rightarrow> (h, g\<lparr>gc_pool := p\<rparr>))"

definition free_del :: "int \<Rightarrow> 's gc \<Rightarrow> 's gc" where
  "free_del h g = g\<lparr>gc_pool := dmmr_heap_pool_free (Some h) (gc_pool g)\<rparr>"

definition scan_row :: "u64 \<Rightarrow> bytes \<Rightarrow> bytes \<Rightarrow> 's gc \<Rightarrow> 's gc" where
  "scan_row now key data g =
     (if length data \<ge> entry_size \<and> ce_expire_at (entry_of_mem data) < now then
        (case alloc_del g of
           (None, g1) \<Rightarrow> g1
         | (Some de, g1) \<Rightarrow> g1\<lparr>gc_queue := gc_queue g1 @ [(de, take MAX_KEY_LEN key)]\<rparr>)
      else g)"

text \<open>\<open>n\<close> is what is left of the chunk, \<open>i\<close> the number of the next call.\<close>

fun scan_loop :: "nat \<Rightarrow> (nat \<Rightarrow> gc_event) \<Rightarrow> nat \<Rightarrow> u64 \<Rightarrow> 's gc \<Rightarrow> 's gc" where
  "scan_loop 0 get i now g = g"
| "scan_loop (Suc n) get i now g =
     (case get i of
        GcNotFound \<Rightarrow>
          (case get (i + 1) of
             GcRow key data \<Rightarrow> scan_loop n get (i + 2) now (scan_row now key data g)
           | _ \<Rightarrow> g)
      | GcError \<Rightarrow> g\<lparr>gc_cursor := False\<rparr>
      | GcRow key data \<Rightarrow> scan_loop n get (i + 1) now (scan_row now key data g))"

definition scan_expired_entries :: "bool \<Rightarrow> (nat \<Rightarrow> gc_event) \<Rightarrow> 's gc \<Rightarrow> 's gc" where
  "scan_expired_entries cursor_ok get g =
     (case now_micros (gc_server g) of (now, st) \<Rightarrow>
        let g1 = g\<lparr>gc_server := st\<rparr> in
        if \<not> gc_cursor g1 \<and> \<not> cursor_ok then g1
        else scan_loop TTL_SCAN_CHUNK_SIZE get 0 now (g1\<lparr>gc_cursor := True\<rparr>))"

text \<open>The body of the inner loop of \<open>gc_worker_routine\<close>, for an entry taken from the queue.\<close>

definition gc_delete :: "'s bdb \<Rightarrow> int \<times> bytes \<Rightarrow> 's gc \<Rightarrow> 's gc" where
  "gc_delete B de g =
     (let (now, st1) = now_micros (gc_server g);
          (mem_ok, st2) = next_mem st1;
          (rc, dbp') = db_del_key B mem_ok now (my_node_id st2) (Some (snd de)) (sv_dbp st2);
          (ts_now, st3) = now_micros (st2\<lparr>sv_dbp := dbp'\<rparr>);
          (mem_ok2, st4) = next_mem st3;
          st5 = st4\<lparr>sv_control := enqueue_broadcast mem_ok2 (snd de) None 0 ts_now (my_node_id st4) 0
                  FLAG_TOMBSTONE (sv_control st4)\<rparr> in
      free_del (fst de) (g\<lparr>gc_server := st5\<rparr>))"

text \<open>
  The collector and the threads beside it.  \<open>gc_mutex\<close> is held while an entry is taken and
  released while it is deleted, so the collector has two steps: \<open>gs_busy\<close> is the entry it has taken and
  not deleted.  Meanwhile the scanning thread appends entries and every other thread changes the server.
  \<open>gs_queued\<close> and \<open>gs_finished\<close> record the keys appended and the keys whose deletion is over.
\<close>

record 's gc_sys =
  gs_gc :: "'s gc"
  gs_busy :: "(int \<times> bytes) option"
  gs_queued :: "bytes list"
  gs_finished :: "bytes list"

text \<open>The next step of the inner loop of \<open>gc_worker_routine\<close>; \<open>None\<close> when it leaves the loop.\<close>

definition gc_worker_step :: "'s bdb \<Rightarrow> 's gc_sys \<Rightarrow> 's gc_sys option" where
  "gc_worker_step B x =
     (case gs_busy x of
        Some de \<Rightarrow> Some (x\<lparr>gs_gc := gc_delete B de (gs_gc x), gs_busy := None,
                        gs_finished := gs_finished x @ [snd de]\<rparr>)
      | None \<Rightarrow>
          (case gc_queue (gs_gc x) of
             [] \<Rightarrow> None
           | de # rest \<Rightarrow> Some (x\<lparr>gs_gc := (gs_gc x)\<lparr>gc_queue := rest\<rparr>, gs_busy := Some de\<rparr>)))"

text \<open>The scanning thread at one row; the entry is allocated for it alone, so only the insertion under
  \<open>gc_mutex\<close> is seen by the collector.\<close>

definition gc_scan_step :: "u64 \<Rightarrow> bytes \<Rightarrow> bytes \<Rightarrow> 's gc_sys \<Rightarrow> 's gc_sys" where
  "gc_scan_step now key data x =
     (let g = scan_row now key data (gs_gc x) in
      x\<lparr>gs_gc := g, gs_queued := gs_queued x @ map snd (drop (length (gc_queue (gs_gc x))) (gc_queue g))\<rparr>)"

text \<open>\<open>gc_run B n x y\<close>: \<open>y\<close> is reached from \<open>x\<close> by a run in which the collector makes \<open>n\<close> steps.\<close>

inductive gc_run :: "'s bdb \<Rightarrow> nat \<Rightarrow> 's gc_sys \<Rightarrow> 's gc_sys \<Rightarrow> bool" for B where
  start: "gc_run B 0 x x"
| work: "gc_run B n x y \<Longrightarrow> gc_worker_step B y = Some z \<Longrightarrow> gc_run B (Suc n) x z"
| scan: "gc_run B n x y \<Longrightarrow> gc_run B n x (gc_scan_step now key data y)"
| serve: "gc_run B n x y \<Longrightarrow> gc_run B n x (y\<lparr>gs_gc := (gs_gc y)\<lparr>gc_server := st\<rparr>\<rparr>)"

text \<open>The collector alone, for at most \<open>n\<close> steps.\<close>

fun gc_collect :: "'s bdb \<Rightarrow> nat \<Rightarrow> 's gc_sys \<Rightarrow> 's gc_sys" where
  "gc_collect B 0 x = x"
| "gc_collect B (Suc n) x = (case gc_worker_step B x of None \<Rightarrow> x | Some y \<Rightarrow> gc_collect B n y)"

definition gc_start :: "'s server \<Rightarrow> heap_pool \<Rightarrow> 's gc_sys" where
  "gc_start st p = \<lparr>gs_gc = \<lparr>gc_server = st, gc_pool = p, gc_queue = [], gc_cursor = False\<rparr>,
     gs_busy = None, gs_queued = [], gs_finished = []\<rparr>"

section \<open>Scanning\<close>

abbreviation gc_inv :: "'s gc \<Rightarrow> bool" where
  "gc_inv g \<equiv> pool.lent.queue_inv (gc_pool g) (gc_queue g) {}"

lemma scan_row_cases:
  assumes "pool.lent.queue_inv (gc_pool g) (gc_queue g) busy"
  obtains (skip) "scan_row now key data g = g"
      "\<not> (length data \<ge> entry_size \<and> ce_expire_at (entry_of_mem data) < now)
         \<or> length (gc_queue g) + card busy = hp_capacity (gc_pool g)"
  | (queued) de p where "entry_size \<le> length data" "ce_expire_at (entry_of_mem data) < now"
      "scan_row now key data g = g\<lparr>gc_pool := p, gc_queue := gc_queue g @ [(de, take MAX_KEY_LEN key)]\<rparr>"
      "pool.lent.queue_inv p (gc_queue g @ [(de, take MAX_KEY_LEN key)]) busy"
      "hp_capacity p = hp_capacity (gc_pool g)"
proof (cases "length data \<ge> entry_size \<and> ce_expire_at (entry_of_mem data) < now")
  case True
  have pi: "pool_inv (gc_pool g) (fst ` set (gc_queue g) \<union> busy)" and d: "distinct (map fst (gc_queue g))"
    and disj: "fst ` set (gc_queue g) \<inter> busy = {}"
    using assms by (auto simp: pool.lent.queue_inv_def)
  have card: "card (fst ` set (gc_queue g) \<union> busy) = length (gc_queue g) + card busy"
    using distinct_card [OF d] pool.queue_bound(2) [OF assms] disj by (simp add: card_Un_disjoint)
  show ?thesis
    using pi
  proof (cases rule: pool.alloc_cases)
    case exhausted
    then show ?thesis
      using skip True card by (simp add: scan_row_def alloc_del_def)
  next
    case (slot h p)
    then have "scan_row now key data g = g\<lparr>gc_pool := p, gc_queue := gc_queue g @ [(h, take MAX_KEY_LEN key)]\<rparr>"
      using True by (simp add: scan_row_def alloc_del_def)
    with queued True slot(5) pool.lent.queue_insert_tail [OF assms slot(2)] show ?thesis by auto
  qed
qed (use skip in \<open>auto simp: scan_row_def\<close>)

text \<open>The entries a row contributes.\<close>

definition row_entry :: "(nat \<Rightarrow> gc_event) \<Rightarrow> u64 \<Rightarrow> int \<times> bytes \<Rightarrow> bool" where
  "row_entry get now de \<longleftrightarrow> (\<exists>i key data. get i = GcRow key data \<and> entry_size \<le> length data
     \<and> ce_expire_at (entry_of_mem data) < now \<and> snd de = take MAX_KEY_LEN key)"

lemma scan_row_queue:
  assumes "gc_inv g" and "get i = GcRow key data"
  shows "gc_inv (scan_row now key data g) \<and> gc_server (scan_row now key data g) = gc_server g
    \<and> (\<exists>new. gc_queue (scan_row now key data g) = gc_queue g @ new \<and> length new \<le> 1
         \<and> (\<forall>de \<in> set new. row_entry get now de))"
  using assms(1)
proof (cases rule: scan_row_cases [where now = now and key = key and data = data])
  case (queued de p)
  with assms(2) show ?thesis by (auto simp: row_entry_def)
qed (use assms in auto)

lemma scan_loop_queue:
  assumes "gc_inv g"
  shows "gc_inv (scan_loop n get i now g) \<and> gc_server (scan_loop n get i now g) = gc_server g
    \<and> (\<exists>new. gc_queue (scan_loop n get i now g) = gc_queue g @ new \<and> length new \<le> n
         \<and> (\<forall>de \<in> set new. row_entry get now de))"
  using assms
proof (induction n get i now g rule: scan_loop.induct)
  case (2 n get i now g)
  have step: ?case if j: "get j = GcRow key data"
    and eq: "scan_loop (Suc n) get i now g = scan_loop n get k now (scan_row now key data g)"
    and ih: "gc_inv (scan_row now key data g) \<Longrightarrow>
       gc_inv (scan_loop n get k now (scan_row now key data g))
       \<and> gc_server (scan_loop n get k now (scan_row now key data g)) = gc_server (scan_row now key data g)
       \<and> (\<exists>new. gc_queue (scan_loop n get k now (scan_row now key data g))
             = gc_queue (scan_row now key data g) @ new \<and> length new \<le> n
           \<and> (\<forall>de \<in> set new. row_entry get now de))" for j k key data
    using scan_row_queue [OF "2.prems", of get j key data now, OF j] ih unfolding eq by fastforce
  show ?case
  proof (cases "get i")
    case (GcRow key data)
    with step [OF GcRow] "2.IH"(1) [OF GcRow] show ?thesis by simp
  next
    case GcNotFound
    show ?thesis
    proof (cases "get (i + 1)")
      case (GcRow key data)
      with step [OF GcRow] "2.IH"(2) [OF GcNotFound GcRow] GcNotFound show ?thesis by simp
    qed (use GcNotFound "2.prems" in simp_all)
  qed (use "2.prems" in simp_all)
qed simp

section \<open>Deleting\<close>

lemma gc_delete_eq:
  "gc_delete B de g = free_del (fst de) (g\<lparr>gc_server :=
     (case db_del_key B (sv_mem (gc_server g) 0) (micros_at 0 (gc_server g)) (my_node_id (gc_server g))
             (Some (snd de)) (sv_dbp (gc_server g)) of
        (rc, dbp') \<Rightarrow> (sv_after 2 2 ((gc_server g)\<lparr>sv_dbp := dbp'\<rparr>))\<lparr>
           sv_control := enqueue_broadcast (sv_mem (gc_server g) 1) (snd de) None 0 (micros_at 1 (gc_server g))
             (my_node_id (gc_server g)) 0 FLAG_TOMBSTONE (sv_control (gc_server g))\<rparr>)\<rparr>)"
  by (simp add: gc_delete_def now_micros_def next_mem_def sv_after_def micros_at_def Let_def numeral_2_eq_2
      split: prod.split)

lemma gc_delete_queue:
  assumes "pool.lent.queue_inv (gc_pool g) q busy" and "fst de \<in> busy"
  shows "gc_queue (gc_delete B de g) = gc_queue g"
    and "pool.lent.queue_inv (gc_pool (gc_delete B de g)) q (busy - {fst de})"
  using pool.lent.queue_release [OF assms] by (simp_all add: gc_delete_eq free_del_def)

section \<open>The collector beside the other threads\<close>

abbreviation gs_pool :: "'s gc_sys \<Rightarrow> heap_pool" where
  "gs_pool x \<equiv> gc_pool (gs_gc x)"

abbreviation gs_store :: "'s gc_sys \<Rightarrow> 's option" where
  "gs_store x \<equiv> sv_dbp (gc_server (gs_gc x))"

definition gc_pending :: "'s gc_sys \<Rightarrow> bytes list" where
  "gc_pending x = (case gs_busy x of None \<Rightarrow> [] | Some de \<Rightarrow> [snd de]) @ map snd (gc_queue (gs_gc x))"

definition gc_steps_left :: "'s gc_sys \<Rightarrow> nat" where
  "gc_steps_left x = 2 * length (gc_queue (gs_gc x)) + (case gs_busy x of None \<Rightarrow> 0 | Some _ \<Rightarrow> 1)"

definition gc_steps_done :: "'s gc_sys \<Rightarrow> nat" where
  "gc_steps_done x = 2 * length (gs_finished x) + (case gs_busy x of None \<Rightarrow> 0 | Some _ \<Rightarrow> 1)"

definition gc_sys_inv :: "'s gc_sys \<Rightarrow> bool" where
  "gc_sys_inv x \<longleftrightarrow> pool.lent.queue_inv (gs_pool x) (gc_queue (gs_gc x)) (fst ` set_option (gs_busy x))
     \<and> hp_capacity (gs_pool x) = 4 * TTL_SCAN_CHUNK_SIZE
     \<and> gs_queued x = gs_finished x @ gc_pending x"

lemma gc_worker_step_cases:
  assumes "gc_worker_step B x = Some y"
  obtains (take) de rest where "gs_busy x = None" "gc_queue (gs_gc x) = de # rest"
      "y = x\<lparr>gs_gc := (gs_gc x)\<lparr>gc_queue := rest\<rparr>, gs_busy := Some de\<rparr>"
  | (finish) de where "gs_busy x = Some de"
      "y = x\<lparr>gs_gc := gc_delete B de (gs_gc x), gs_busy := None, gs_finished := gs_finished x @ [snd de]\<rparr>"
  using assms by (auto simp: gc_worker_step_def split: option.splits list.splits)

lemma gc_delete_keeps [simp]: "gc_queue (gc_delete B de g) = gc_queue g"
  by (simp add: gc_delete_eq free_del_def)

lemma gc_worker_step_inv:
  assumes "gc_worker_step B x = Some y" and "gc_sys_inv x"
  shows "gc_sys_inv y" and "gs_queued y = gs_queued x" and "gc_steps_left x = Suc (gc_steps_left y)"
    and "gc_steps_done y = Suc (gc_steps_done x)"
proof -
  have "gc_sys_inv y \<and> gs_queued y = gs_queued x \<and> gc_steps_left x = Suc (gc_steps_left y)
    \<and> gc_steps_done y = Suc (gc_steps_done x)"
    using assms(1)
  proof (cases rule: gc_worker_step_cases)
    case (take de rest)
    then have "pool.lent.queue_inv (gs_pool x) rest {fst de}"
      using assms(2) pool.lent.queue_remove_head(1) [of "gs_pool x" "fst de" "snd de" rest "{}"]
      by (simp add: gc_sys_inv_def)
    with take assms(2) show ?thesis by (simp add: gc_sys_inv_def gc_pending_def gc_steps_left_def gc_steps_done_def)
  next
    case (finish de)
    then have "pool.lent.queue_inv (gs_pool x) (gc_queue (gs_gc x)) {fst de}"
      using assms(2) by (simp add: gc_sys_inv_def)
    from gc_delete_queue(2) [OF this, of de B] queue_free_capacity [OF this, of "fst de"]
    have "pool.lent.queue_inv (gc_pool (gc_delete B de (gs_gc x))) (gc_queue (gs_gc x)) {}"
      "hp_capacity (gc_pool (gc_delete B de (gs_gc x))) = hp_capacity (gs_pool x)"
      by (simp_all add: gc_delete_eq free_del_def)
    with finish assms(2) show ?thesis by (simp add: gc_sys_inv_def gc_pending_def gc_steps_left_def gc_steps_done_def)
  qed
  then show "gc_sys_inv y" and "gs_queued y = gs_queued x" and "gc_steps_left x = Suc (gc_steps_left y)"
    and "gc_steps_done y = Suc (gc_steps_done x)"
    by simp_all
qed

lemma gc_scan_step_inv:
  assumes "gc_sys_inv x"
  shows "gc_sys_inv (gc_scan_step now key data x)" and "\<exists>new. gs_queued (gc_scan_step now key data x) = gs_queued x @ new"
    and "gc_steps_done (gc_scan_step now key data x) = gc_steps_done x"
proof -
  have "pool.lent.queue_inv (gs_pool x) (gc_queue (gs_gc x)) (fst ` set_option (gs_busy x))"
    using assms by (simp add: gc_sys_inv_def)
  then show "gc_sys_inv (gc_scan_step now key data x)"
    by (cases rule: scan_row_cases [where now = now and key = key and data = data])
      (use assms in \<open>simp_all add: gc_sys_inv_def gc_scan_step_def gc_pending_def Let_def split: option.splits\<close>)
qed (simp_all add: gc_scan_step_def gc_steps_done_def Let_def)

lemma gc_run_inv:
  assumes "gc_run B n x y" and "gc_sys_inv x"
  shows "gc_sys_inv y \<and> (\<exists>new. gs_queued y = gs_queued x @ new) \<and> gc_steps_done y = gc_steps_done x + n"
  using assms
proof (induction rule: gc_run.induct)
  case (work n x y z)
  with gc_worker_step_inv [OF work.hyps(2)] show ?case by simp
next
  case (scan n x y now key data)
  with gc_scan_step_inv [of y now key data] show ?case by (metis append.assoc)
next
  case (serve n x y st)
  let ?y = "y\<lparr>gs_gc := (gs_gc y)\<lparr>gc_server := st\<rparr>\<rparr>"
  have "gc_sys_inv ?y = gc_sys_inv y" "gc_steps_done ?y = gc_steps_done y" "gs_queued ?y = gs_queued y"
    by (simp_all add: gc_sys_inv_def gc_pending_def gc_steps_done_def)
  with serve show ?case by simp
qed simp

lemma gc_start_inv:
  assumes "dmmr_heap_pool_init mem_ok obj_size (4 * TTL_SCAN_CHUNK_SIZE) p0 = (0, p)"
  shows "gc_sys_inv (gc_start st p)"
  using fresh_pool_inv [OF assms] by (simp add: gc_sys_inv_def gc_start_def gc_pending_def queue_inv_empty const_defs)

text \<open>After enough steps of its own the collector is past everything that was queued.\<close>

lemma gc_run_progress:
  assumes "gc_run B n x y" and "gc_sys_inv x" and "gc_steps_left x \<le> n"
  shows "\<exists>more. gs_finished y = gs_queued x @ more"
proof -
  from gc_run_inv [OF assms(1,2)] obtain new where y: "gs_queued y = gs_queued x @ new" "gs_queued y = gs_finished y @ gc_pending y"
    and prog: "gc_steps_done y = gc_steps_done x + n"
    by (auto simp only: gc_sys_inv_def)
  have "length (gs_queued x) \<le> length (gs_finished y)"
    using prog assms(2,3)
    by (auto simp: gc_sys_inv_def gc_steps_done_def gc_steps_left_def gc_pending_def split: option.splits)
  with y show ?thesis by (metis append_eq_append_conv_if append_take_drop_id)
qed

lemma gc_collect_empties:
  assumes "gc_sys_inv x"
  shows "gc_sys_inv (gc_collect B (gc_steps_left x) x) \<and> gc_pending (gc_collect B (gc_steps_left x) x) = []
    \<and> gs_queued (gc_collect B (gc_steps_left x) x) = gs_queued x"
  using assms
proof (induction "gc_steps_left x" arbitrary: x)
  case 0
  then show ?case by (auto simp: gc_steps_left_def gc_pending_def split: option.splits)
next
  case (Suc n)
  have "gs_busy x \<noteq> None \<or> gc_queue (gs_gc x) \<noteq> []" using Suc.hyps(2) by (cases "gs_busy x") (auto simp: gc_steps_left_def)
  then obtain y where y: "gc_worker_step B x = Some y"
    by (cases "gs_busy x"; cases "gc_queue (gs_gc x)") (auto simp: gc_worker_step_def)
  from gc_worker_step_inv [OF y Suc.prems] Suc.hyps(1) [of y] Suc.hyps(2) y show ?case by simp
qed

text \<open>The store as the collector needs it to delete what is pending: the deletion is not refused by a
  record with a later stamp, and nothing fails.\<close>

definition gc_due :: "'s bdb \<Rightarrow> u64 \<Rightarrow> 's gc_sys \<Rightarrow> bool" where
  "gc_due B now x \<longleftrightarrow>
     (\<exists>s. gs_store x = Some s \<and> db_wf B s \<and> (\<forall>k \<in> set (gc_pending x). key_ok k
        \<and> (case db_view B s k of None \<Rightarrow> True | Some r \<Rightarrow> l_tomb r \<or> l_ts r < now)))
     \<and> (\<forall>n. sv_mem (gc_server (gs_gc x)) n \<and> now \<le> micros_at n (gc_server (gs_gc x)))"

definition deleted :: "'s bdb \<Rightarrow> 's \<Rightarrow> bytes set" where
  "deleted B s = {k. \<exists>r. db_view B s k = Some r \<and> l_tomb r}"

lemma db_del_key_due:
  assumes "bdb_contract B" and "bdb_reliable B" and "db_wf B s" and "key_ok k" and "now \<le> ts"
    and "case db_view B s k of None \<Rightarrow> True | Some r \<Rightarrow> l_tomb r \<or> l_ts r < now"
  obtains s' where "snd (db_del_key B True ts node (Some k) (Some s)) = Some s'" "db_wf B s'"
    "deleted B s' = insert k (deleted B s)" "\<And>k'. k' \<noteq> k \<Longrightarrow> db_view B s' k' = db_view B s k'"
proof -
  obtain r dbp' where a: "db_apply_record B True (Some k) ts node 0 True None 0 (Some s) = (r, dbp')" by fastforce
  have "r \<noteq> DMMR_DB_ERROR"
  proof -
    obtain s1 where "bdb_put B s k (record_image ts node 0 True []) = (True, s1)"
      using assms(2) by (metis bdb_reliable_def prod.collapse)
    then show ?thesis
      using assms(2-4) a by (cases "bdb_get B s k")
        (auto simp: db_apply_record_def put_record_locked_def key_ok_def db_wf_def bdb_reliable_def split: if_splits)
  qed
  from db_apply_view [OF assms(1) a this] obtain s' where s': "dbp' = Some s'" "db_wf B s'"
    and v: "db_view B s' = lww_update (db_view B s) k (mk_rec ts node 0 True [])"
    using assms(3) by (auto simp: value_arg_def)
  have "\<exists>r. db_view B s' k = Some r \<and> l_tomb r"
    using assms(5,6) unfolding v
    by (auto simp: lww_update_def lww_merge_def rec_wins_def rec_stamp_def mk_rec_def split: option.splits)
  then have "deleted B s' = insert k (deleted B s)"
    unfolding deleted_def v by (auto simp: lww_update_def)
  with that [of s'] s' v a show ?thesis by (auto simp: db_del_key_def lww_update_def)
qed

lemma gc_collect_deletes:
  assumes "bdb_contract B" and "bdb_reliable B" and "gc_due B now x" and "gs_store x = Some s"
  shows "\<exists>s'. gs_store (gc_collect B n x) = Some s' \<and> db_wf B s'
    \<and> set (gc_pending x) \<union> deleted B s \<subseteq> set (gc_pending (gc_collect B n x)) \<union> deleted B s'"
  using assms(3,4)
proof (induction n arbitrary: x s)
  case 0
  then show ?case by (auto simp: gc_due_def)
next
  case (Suc n)
  show ?case
  proof (cases "gc_worker_step B x")
    case None
    with Suc.prems show ?thesis by (auto simp: gc_due_def)
  next
    case (Some y)
    then show ?thesis
    proof (cases rule: gc_worker_step_cases)
      case (take de rest)
      then have "gc_pending y = gc_pending x" "gs_store y = gs_store x" "gc_server (gs_gc y) = gc_server (gs_gc x)"
        by (simp_all add: gc_pending_def)
      with Suc.prems Suc.IH [of y s] Some show ?thesis by (simp add: gc_due_def)
    next
      case (finish de)
      let ?st = "gc_server (gs_gc x)"
      have pend: "gc_pending x = snd de # gc_pending y" using finish by (simp add: gc_pending_def)
      have due: "db_wf B s" "key_ok (snd de)" "now \<le> micros_at 0 ?st" "sv_mem ?st 0"
        "case db_view B s (snd de) of None \<Rightarrow> True | Some r \<Rightarrow> l_tomb r \<or> l_ts r < now"
        using Suc.prems pend by (auto simp: gc_due_def)
      obtain s' where s': "snd (db_del_key B True (micros_at 0 ?st) (my_node_id ?st) (Some (snd de)) (Some s)) = Some s'"
        "db_wf B s'" "deleted B s' = insert (snd de) (deleted B s)"
        "\<And>k'. k' \<noteq> snd de \<Longrightarrow> db_view B s' k' = db_view B s k'"
        using db_del_key_due [OF assms(1,2) due(1,2,3,5)] by blast
      have st: "gs_store y = Some s'" "\<And>n. sv_mem (gc_server (gs_gc y)) n = sv_mem ?st (n + 2)"
        "\<And>n. micros_at n (gc_server (gs_gc y)) = micros_at (n + 2) ?st"
        using finish s'(1) due(4) Suc.prems(2)
        by (simp_all add: gc_delete_eq free_del_def sv_after_def micros_at_def split: prod.splits)
      have "case db_view B s' k of None \<Rightarrow> True | Some r \<Rightarrow> l_tomb r \<or> l_ts r < now" if "k \<in> set (gc_pending y)" for k
      proof (cases "k = snd de")
        case True
        with s'(3) have "k \<in> deleted B s'" by simp
        then show ?thesis by (auto simp: deleted_def)
      next
        case False
        with that Suc.prems s'(4) pend show ?thesis by (simp add: gc_due_def)
      qed
      then have "gc_due B now y" using Suc.prems pend st s'(2) by (simp add: gc_due_def)
      from Suc.IH [OF this st(1)] Some s'(3) pend show ?thesis by auto
    qed
  qed
qed

section \<open>Properties\<close>

text \<open>
  C23: a scan is bounded and queues only expired records.  Whatever the cursor returns,
  \<open>scan_expired_entries\<close> returns, it appends at most \<open>TTL_SCAN_CHUNK_SIZE\<close> entries to the queue, each
  for the key of a row it read whose \<open>expire_at\<close> is in the past, and entry slots stay accounted for.
\<close>

theorem scan_expired_bounded:
  fixes g :: "'s gc" and cursor_ok :: bool and get :: "nat \<Rightarrow> gc_event"
  assumes "gc_inv g"
  defines "g' \<equiv> scan_expired_entries cursor_ok get g"
  shows "gc_inv g' \<and> (\<exists>new. gc_queue g' = gc_queue g @ new \<and> length new \<le> TTL_SCAN_CHUNK_SIZE
     \<and> (\<forall>de \<in> set new. row_entry get (micros_at 0 (gc_server g)) de))"
proof (cases "\<not> gc_cursor g \<and> \<not> cursor_ok")
  case True
  with assms show ?thesis by (auto simp: g'_def scan_expired_entries_def now_micros_def Let_def)
next
  case False
  define g1 where "g1 = g\<lparr>gc_server := snd (now_micros (gc_server g)), gc_cursor := True\<rparr>"
  have "g' = scan_loop TTL_SCAN_CHUNK_SIZE get 0 (micros_at 0 (gc_server g)) g1"
    using False by (auto simp: g'_def g1_def scan_expired_entries_def now_micros_def micros_at_def Let_def)
  moreover have "gc_inv g1" "gc_queue g1 = gc_queue g" using assms(1) by (simp_all add: g1_def)
  ultimately show ?thesis using scan_loop_queue [of g1] by metis
qed

text \<open>
  C24: the collector loses nothing, keeps up and deletes.  From the initialised entry pool on, in every
  interleaving of its steps with scans and with the other threads, the keys queued are the finished ones
  followed by the pending ones in order, at most the pool's capacity of them pending.  Once it has made
  \<open>2 * length queue\<close> further steps (one more if it holds an entry), every key queued so far is finished
  however many entries were appended meanwhile.  Left alone it makes exactly these steps and ends with
  nothing pending and every slot back in the pool; if the pending records are older than the clock and
  the store does not fail, every pending key is then not found.
\<close>

theorem gc_collects:
  assumes "dmmr_heap_pool_init mem_ok obj_size (4 * TTL_SCAN_CHUNK_SIZE) p0 = (0, p)"
    and "gc_run B m (gc_start st p) x" and "y = gc_collect B (gc_steps_left x) x"
  shows "gs_queued x = gs_finished x @ gc_pending x \<and> length (gc_pending x) \<le> 4 * TTL_SCAN_CHUNK_SIZE
    \<and> (\<forall>n z. gc_run B n x z \<longrightarrow> gc_steps_left x \<le> n \<longrightarrow> (\<exists>more. gs_finished z = gs_queued x @ more))
    \<and> gc_pending y = [] \<and> gs_finished y = gs_queued x \<and> pool_inv (gs_pool y) {}
    \<and> (bdb_contract B \<and> bdb_reliable B \<and> gc_due B now x \<longrightarrow>
        (\<forall>k \<in> set (gc_pending x). db_get_with_meta B True (Some k) True (gs_store y) = (DMMR_DB_NOT_FOUND, None)))"
proof -
  have inv: "gc_sys_inv x" using gc_run_inv [OF assms(2) gc_start_inv [OF assms(1)]] by simp
  then have "length (gc_pending x) \<le> 4 * TTL_SCAN_CHUNK_SIZE"
    using pool.queue_bound(1) [of "gs_pool x" "gc_queue (gs_gc x)" "fst ` set_option (gs_busy x)"]
    by (cases "gs_busy x") (simp_all add: gc_sys_inv_def gc_pending_def)
  moreover have "gc_pending y = [] \<and> gs_finished y = gs_queued x \<and> pool_inv (gs_pool y) {}"
    using gc_collect_empties [OF inv, of B] unfolding assms(3)
    by (auto simp: gc_sys_inv_def gc_pending_def pool.lent.queue_inv_def split: option.splits)
  moreover have "db_get_with_meta B True (Some k) True (gs_store y) = (DMMR_DB_NOT_FOUND, None)"
    if due: "bdb_contract B" "bdb_reliable B" "gc_due B now x" "k \<in> set (gc_pending x)" for k
  proof -
    obtain s where s: "gs_store x = Some s" "key_ok k" using due(3,4) by (auto simp: gc_due_def)
    obtain s' where "gs_store y = Some s'" "db_wf B s'" "k \<in> deleted B s'"
      using gc_collect_deletes [OF due(1-3) s(1), of "gc_steps_left x"] due(4)
        gc_collect_empties [OF inv, of B] unfolding assms(3) by auto
    then show ?thesis using db_get_view [OF s(2), of B s'] by (auto simp: deleted_def)
  qed
  ultimately show ?thesis using inv gc_run_progress [OF _ inv] by (auto simp: gc_sys_inv_def)
qed

text \<open>
  C25: the collector deletes what is stored when it runs, not what was expired when it was
  queued.  For a queued key, a record written since the scan is replaced by a tombstone
  whenever its timestamp is before the clock reading, even if its \<open>expire_at\<close> is in the future.
\<close>

theorem gc_deletes_refreshed_record:
  assumes "bdb_contract B" and "sv_dbp (gc_server g) = Some s" and "key_ok (snd de)"
    and "bdb_get B s (snd de) = GetOk (record_image ts node ex False v)" and "length v \<le> MAX_VALUE_LEN"
    and "ts < micros_at 0 (gc_server g)" and "micros_at 1 (gc_server g) < ex"
    and "\<And>d. fst (bdb_put B s (snd de) d)" and "sv_mem (gc_server g) 0"
  shows "\<exists>s'. sv_dbp (gc_server (gc_delete B de g)) = Some s'
     \<and> db_get_with_meta B True (Some (snd de)) True (Some s') = (DMMR_DB_NOT_FOUND, None)"
proof -
  let ?st = "gc_server g"
  obtain s' where put: "bdb_put B s (snd de) (record_image (micros_at 0 ?st) (my_node_id ?st) 0 True []) = (True, s')"
    using assms(8) by (metis (full_types) prod.collapse)
  have "db_apply_record B True (Some (snd de)) (micros_at 0 ?st) (my_node_id ?st) 0 True None 0 (Some s)
      = (DMMR_DB_APPLIED, Some s')"
    using assms(3-6) put
    by (auto simp: db_apply_record_def key_ok_def record_image_valid image_fields incoming_wins_def
        put_record_locked_def Let_def)
  from db_get_after_apply [OF assms(1) this] this show ?thesis
    using assms(2,9) by (simp add: gc_delete_eq free_del_def db_del_key_def Let_def)
qed

text \<open>
  Tombstones are collected again and again.  A tombstone is stored with \<open>expire_at = 0\<close>, so
  every scan that reads its row queues the key once more while a slot is free.
\<close>

theorem scan_requeues_tombstone:
  assumes "gc_inv g" and "0 < now" and "length (gc_queue g) < hp_capacity (gc_pool g)"
    and "length key \<le> MAX_KEY_LEN"
  shows "\<exists>de. gc_queue (scan_row now key (record_image ts node 0 True []) g) = gc_queue g @ [(de, key)]"
  using assms(1)
proof (cases rule: scan_row_cases [where now = now and key = key and data = "record_image ts node 0 True []"])
  case skip
  with assms show ?thesis by (simp add: image_fields image_length)
qed (use assms in auto)

section \<open>Witnesses\<close>

definition demo_gc :: "(bytes \<rightharpoonup> bytes) gc" where
  "demo_gc = \<lparr>gc_server = demo_server\<lparr>sv_dbp := Some (Map.empty(cstr ''k'' \<mapsto> record_image 5 1 9000000 False (cstr ''v''))),
       sv_clock := (\<lambda>n. (of_nat n + 1, 0))\<rparr>,
     gc_pool = demo_pool, gc_queue = [], gc_cursor = False\<rparr>"

lemma demo_gc_inv: "gc_inv demo_gc"
  by (simp add: demo_gc_def queue_inv_empty demo_pool_inv)

theorem scan_expired_bounded_witness:
  "\<exists>new. gc_queue (scan_expired_entries True (\<lambda>i. GcRow (cstr ''k'') (record_image 5 1 9 False (cstr ''v''))) demo_gc)
     = new \<and> length new \<le> TTL_SCAN_CHUNK_SIZE"
  using scan_expired_bounded [OF demo_gc_inv] by (fastforce simp: demo_gc_def)

definition demo_old :: "(bytes \<rightharpoonup> bytes) server" where
  "demo_old = demo_server\<lparr>sv_dbp := Some (Map.empty(cstr ''k'' \<mapsto> record_image 5 1 9 False (cstr ''v''))),
     sv_clock := (\<lambda>n. (1, 0)), sv_mem := (\<lambda>n. True)\<rparr>"

lemma demo_old_simps:
  "micros_at n demo_old = 1000000" "sv_mem demo_old n"
  "sv_dbp demo_old = Some (Map.empty(cstr ''k'' \<mapsto> record_image 5 1 9 False (cstr ''v'')))"
  by (simp_all add: demo_old_def micros_at_def timespec_micros_def)

text \<open>An expired record is scanned, taken from the queue and deleted.\<close>

theorem gc_collects_witness:
  "\<exists>p x. dmmr_heap_pool_init True 1096 (4 * TTL_SCAN_CHUNK_SIZE) null_pool = (0, p)
     \<and> gc_run map_bdb 0 (gc_start demo_old p) x \<and> gc_pending x = [cstr ''k'']
     \<and> fst (db_get_with_meta map_bdb True (Some (cstr ''k'')) True (gs_store x)) = DMMR_DB_APPLIED
     \<and> gs_finished (gc_collect map_bdb 2 x) = [cstr ''k''] \<and> pool_inv (gs_pool (gc_collect map_bdb 2 x)) {}
     \<and> db_get_with_meta map_bdb True (Some (cstr ''k'')) True (gs_store (gc_collect map_bdb 2 x)) = (DMMR_DB_NOT_FOUND, None)"
proof -
  let ?row = "record_image 5 1 9 False (cstr ''v'')"
  obtain p where p: "dmmr_heap_pool_init True 1096 (4 * TTL_SCAN_CHUNK_SIZE) null_pool = (0, p)"
    using init_ok [of 1096 "4 * TTL_SCAN_CHUNK_SIZE"] by (auto simp: const_defs)
  define x where "x = gc_scan_step 1000000 (cstr ''k'') ?row (gc_start demo_old p)"
  have run: "gc_run map_bdb 0 (gc_start demo_old p) x"
    unfolding x_def by (intro gc_run.scan gc_run.start)
  have k: "length (cstr ''k'') \<le> MAX_KEY_LEN" "key_ok (cstr ''k'')" using demo_key by (simp_all add: key_ok_def)
  have "pool.lent.queue_inv (gc_pool (gs_gc (gc_start demo_old p))) (gc_queue (gs_gc (gc_start demo_old p))) {}"
    and "0 < hp_capacity p"
    using fresh_pool_inv [OF p] by (simp_all add: gc_start_def queue_inv_empty const_defs)
  then have x: "gc_pending x = [cstr ''k''] \<and> gs_queued x = [cstr ''k''] \<and> gc_steps_left x = 2 \<and> gc_server (gs_gc x) = demo_old"
  proof (cases rule: scan_row_cases [where now = 1000000 and key = "cstr ''k''" and data = ?row])
    case skip
    with \<open>0 < hp_capacity p\<close> show ?thesis by (simp add: gc_start_def image_fields image_length)
  next
    case (queued de q)
    then show ?thesis
      using k by (simp add: x_def gc_scan_step_def gc_pending_def gc_steps_left_def gc_start_def Let_def)
  qed
  have v: "length (cstr ''v'') \<le> MAX_VALUE_LEN" by (simp add: const_defs)
  have wf: "db_wf map_bdb (Map.empty(cstr ''k'' \<mapsto> ?row))"
    using record_image_valid [OF v] by (simp add: db_wf_def)
  have "gc_due map_bdb 1000000 x"
    using x k wf record_image_valid(2) [OF v] unfolding gc_due_def
    by (simp add: demo_old_simps db_view_def mk_rec_def)
  moreover have "fst (db_get_with_meta map_bdb True (Some (cstr ''k'')) True (gs_store x)) = DMMR_DB_APPLIED"
    using db_get_view [OF k(2) wf] x record_image_valid(2) [OF v]
    by (simp add: demo_old_simps db_view_def mk_rec_def)
  ultimately show ?thesis
    using gc_collects [OF p run refl, of 1000000] x p run by (intro exI [of _ p] exI [of _ x]) simp
qed

theorem gc_deletes_refreshed_record_witness:
  "\<exists>s'. sv_dbp (gc_server (gc_delete map_bdb (0, cstr ''k'') demo_gc)) = Some s'
     \<and> db_get_with_meta map_bdb True (Some (cstr ''k'')) True (Some s') = (DMMR_DB_NOT_FOUND, None)"
proof -
  have "micros_at 0 (gc_server demo_gc) = 1000000" "micros_at 1 (gc_server demo_gc) = 2000000"
    by (simp_all add: micros_at_def timespec_micros_def demo_gc_def)
  then show ?thesis
    using gc_deletes_refreshed_record [OF map_bdb_contract, of demo_gc
        "Map.empty(cstr ''k'' \<mapsto> record_image 5 1 9000000 False (cstr ''v''))" "(0, cstr ''k'')"] demo_key
    by (simp add: demo_gc_def demo_server_simps)
qed

theorem scan_requeues_tombstone_witness:
  "\<exists>de. gc_queue (scan_row 1 (cstr ''k'') (record_image 5 1 0 True []) demo_gc) = [(de, cstr ''k'')]"
  using scan_requeues_tombstone [OF demo_gc_inv, of 1 "cstr ''k''" 5 1] demo_pool_cap
  by (simp add: demo_gc_def const_defs)

end
