(* ===== verification/Dmmr_Replication.thy ===== *)
theory Dmmr_Replication
  imports Dmmr_Gc Dmmr_Cluster
begin

text \<open>
  The way of a write from the client to another node: the threads of \<open>dmmr_server.c\<close> that take commands off the
  replication queue and hand them to \<open>broadcast_sync\<close>, and the composition of all stages, from the request on one
  node to the store of another.
\<close>

section \<open>The consumers of the replication queue\<close>

definition process_control_cmd :: "cluster_cfg \<Rightarrow> control_cmd \<Rightarrow> 's node \<Rightarrow> 's node run" where
  "process_control_cmd cfg cmd st =
     (case cc_type cmd of
        CMD_BROADCAST \<Rightarrow>
          broadcast_sync cfg (Some (cc_key cmd)) (cc_value cmd) (cc_value_len cmd) (cc_ts cmd) (cc_node_id cmd)
            (cc_expire_at cmd) (cc_flags cmd) st
      | CMD_SHUTDOWN \<Rightarrow> Done st)"

text \<open>Both kinds of threads take the first command, process it and give its slot back.\<close>

definition control_serve :: "cluster_cfg \<Rightarrow> control_queue \<Rightarrow> 's node \<Rightarrow> (control_queue \<times> 's node) run" where
  "control_serve cfg q st =
     (case control_take q of
        (None, q1) \<Rightarrow> Done (q1, st)
      | (Some (h, cmd), q1) \<Rightarrow>
          (case process_control_cmd cfg cmd st of
             Done st' \<Rightarrow> Done (free_cmd h q1, st')
           | Blocked \<Rightarrow> Blocked
           | Fault \<Rightarrow> Fault))"

text \<open>The threads run these turns while \<open>running\<close> is set.  A broadcast worker waits as long as the queue is not above
  the high-water mark.\<close>

definition broadcast_worker_turn :: "cluster_cfg \<Rightarrow> control_queue \<Rightarrow> 's node \<Rightarrow> (control_queue \<times> 's node) run" where
  "broadcast_worker_turn cfg q st = (if cq_size q \<le> int HIGH_WATERMARK then Blocked else control_serve cfg q st)"

text \<open>One turn of the control thread: at most one command, then the scan for expired records when five seconds
  have passed since the last one.\<close>

definition control_turn ::
  "cluster_cfg \<Rightarrow> bool \<Rightarrow> (nat \<Rightarrow> gc_event) \<Rightarrow> int \<Rightarrow> int \<Rightarrow> 's gc \<Rightarrow> 's node \<Rightarrow> (int \<times> 's gc \<times> 's node) run" where
  "control_turn cfg cursor_ok get now last_scan g st =
     (case control_serve cfg (sv_control (gc_server g)) st of
        Done (q, st') \<Rightarrow>
          let g1 = g\<lparr>gc_server := (gc_server g)\<lparr>sv_control := q\<rparr>\<rparr> in
          if now - last_scan \<ge> 5 then Done (now, scan_expired_entries cursor_ok get g1, st')
          else Done (last_scan, g1, st')
      | Blocked \<Rightarrow> Blocked
      | Fault \<Rightarrow> Fault)"

section \<open>From the queue to the outboxes\<close>

lemma scan_expired_control [simp]: "sv_control (gc_server (scan_expired_entries c get g)) = sv_control (gc_server g)"
proof -
  have row: "gc_server (scan_row now key data g) = gc_server g" for now key data and g :: "'a gc"
    by (auto simp: scan_row_def alloc_del_def split: prod.splits option.splits)
  have "gc_server (scan_loop n get i now g) = gc_server g" for n i now and g :: "'a gc"
    by (induction n get i now g rule: scan_loop.induct) (auto simp: row split: gc_event.splits)
  then show ?thesis
    by (auto simp: scan_expired_entries_def now_micros_def Let_def split: prod.splits)
qed

text \<open>The command a SET queued, taken off the queue and processed, is at the end of the outbox of every peer that
  has room.\<close>

lemma control_turn_broadcasts:
  assumes "map snd (cq_head (sv_control (gc_server g))) = [broadcast_cmd k val value_len ts node ex flags]"
    and "key_ok k" and "value_len \<le> MAX_VALUE_LEN" and "value_len > 0 \<longrightarrow> (\<exists>v. val = Some v \<and> length v = value_len)"
    and "list_all (peer_ok cfg) (nd_peers na)" and "\<not> peers_locked na" and "\<And>n. w_mem (nd_world na) n"
    and "i < length (nd_peers na)" and "length (pc_outbox (nd_peers na ! i)) < 256"
  shows "\<exists>last g' na' t. control_turn cfg cursor_ok get now last_scan g na = Done (last, g', na')
     \<and> cq_head (sv_control (gc_server g')) = [] \<and> list_all (peer_ok cfg) (nd_peers na') \<and> i < length (nd_peers na')
     \<and> nd_peers na' ! i = (nd_peers na ! i)\<lparr>pc_outbox := pc_outbox (nd_peers na ! i) @ [sync_msg k val value_len ts node ex flags t],
          pc_outbox_count := int (length (pc_outbox (nd_peers na ! i))) + 1\<rparr>"
proof -
  let ?cmd = "broadcast_cmd k val value_len ts node ex flags" and ?p = "nd_peers na ! i"
  let ?q = "sv_control (gc_server g)"
  obtain h where q: "cq_head ?q = [(h, ?cmd)]" using assms(1) by (cases "cq_head ?q") auto
  have cmd: "cc_key ?cmd = k" "cc_value_len ?cmd = value_len" "cc_type ?cmd = CMD_BROADCAST"
    "sync_msg k (cc_value ?cmd) value_len ts node ex flags t = sync_msg k val value_len ts node ex flags t" for t
    using assms(2-4) by (auto simp: broadcast_cmd_def key_ok_def sync_msg_def)
  have val: "value_len > 0 \<longrightarrow> (\<exists>v. cc_value ?cmd = Some v \<and> length v \<ge> value_len)"
    using assms(3,4) by (auto simp: broadcast_cmd_def)
  obtain na' where run: "broadcast_sync cfg (Some k) (cc_value ?cmd) value_len ts node ex flags na = Done na'"
    and ok: "list_all (peer_ok cfg) (nd_peers na')" "length (nd_peers na') = length (nd_peers na)"
    and each: "\<forall>i < length (nd_peers na). \<exists>t. let p = nd_peers na ! i; p' = nd_peers na' ! i in
          length (pc_outbox p') \<le> 256
          \<and> p' = p\<lparr>pc_outbox := pc_outbox p', pc_outbox_count := int (length (pc_outbox p'))\<rparr>
          \<and> pc_outbox p' = pc_outbox p @
              (if length (pc_outbox p) < 256 then [sync_msg k (cc_value ?cmd) value_len ts node ex flags t] else [])"
    using broadcast_queued [OF assms(5-7) _ _ assms(3) val, of k ts node ex flags] assms(2) unfolding key_ok_def by blast
  obtain t where t: "pc_outbox (nd_peers na' ! i) = pc_outbox ?p @ [sync_msg k val value_len ts node ex flags t]"
    "nd_peers na' ! i = ?p\<lparr>pc_outbox := pc_outbox (nd_peers na' ! i), pc_outbox_count := int (length (pc_outbox (nd_peers na' ! i)))\<rparr>"
    using each assms(8,9) by (auto simp: Let_def cmd(4))
  then have peer: "nd_peers na' ! i = ?p\<lparr>pc_outbox := pc_outbox ?p @ [sync_msg k val value_len ts node ex flags t],
      pc_outbox_count := int (length (pc_outbox ?p)) + 1\<rparr>" by simp
  have "process_control_cmd cfg ?cmd na = Done na'"
    using run by (simp add: process_control_cmd_def cmd(1-3)) (simp add: broadcast_cmd_def)
  then have "control_serve cfg ?q na = Done (free_cmd h (?q\<lparr>cq_head := [], cq_size := cq_size ?q - 1\<rparr>), na')"
    by (simp add: control_serve_def control_take_def q)
  then show ?thesis
    using ok peer assms(8) unfolding control_turn_def by (auto simp: Let_def free_cmd_def)
qed

text \<open>The message and the command of a SET stand for the same record.\<close>

definition set_val :: "bytes \<Rightarrow> bytes option" where
  "set_val v = (if v = [] then None else Some v)"

lemma set_msg:
  fixes ts ex :: u64 and t :: int
  assumes "key_ok k" and "length v \<le> MAX_VALUE_LEN" and "node \<noteq> 0"
  defines "m \<equiv> sync_msg k (set_val v) (length v) ts node ex FLAG_NONE t"
  shows "sync_ok m" and "msg_update m = (k, mk_rec ts node ex False v)" and "update_ok (msg_update m)"
    and "length (cluster_wire (msg_frame cfg m)) = 48 + length k + length v"
    and "cmd_rec (broadcast_cmd k (set_val v) (length v) ts node ex FLAG_NONE) = mk_rec ts node ex False v"
proof -
  have len: "(of_nat (length v) :: u32) = 0 \<longleftrightarrow> v = []"
    using assms(2) by (auto simp: const_defs word_unat_eq_iff unsigned_of_nat take_bit_eq_mod)
  have "msg_ok m"
    unfolding m_def by (rule sync_msg_ok) (use assms(1,2) in \<open>auto simp: key_ok_def set_val_def\<close>)
  then show "sync_ok m" using assms(3) by (simp add: sync_ok_def m_def sync_msg_def)
  have val: "msg_value m = v" by (simp add: m_def sync_msg_def msg_value_def len set_val_def)
  then show upd: "msg_update m = (k, mk_rec ts node ex False v)"
    by (simp add: msg_update_def mk_rec_def m_def sync_msg_def const_defs)
  show "update_ok (msg_update m)"
    unfolding upd using assms(1,2) by (simp add: update_ok_def mk_rec_def)
  show "length (cluster_wire (msg_frame cfg m)) = 48 + length k + length v"
    by (simp add: length_cluster_wire val) (simp add: m_def sync_msg_def)
  show "cmd_rec (broadcast_cmd k (set_val v) (length v) ts node ex FLAG_NONE) = mk_rec ts node ex False v"
    using cmd_rec_broadcast [OF assms(2)] by (simp add: value_arg_def set_val_def const_defs)
qed

text \<open>A node that receives the opening of a session and one update merges it.\<close>

lemma session_merges_one:
  assumes "bdb_contract B" and "bdb_reliable B" and "nd_dbp nb = Some d" and "db_wf B d"
    and "cluster_secret rcfg \<noteq> []" and "length (sha_data ctx) = 64" and "same_cluster rcfg cfg"
    and "steady (nd_world nb)" and "tx_live 96 (s_tx r)"
    and "\<And>n. timespec_micros (w_clock (nd_world nb) n) < timespec_micros (w_clock (nd_world nb) 0) + AUTH_TTL_MICROS"
    and "stream_end (s_rx r) = EndEof" and "sync_ok m" and "msg_update m = (k, rec)" and "update_ok (k, rec)"
    and "stream_of (s_rx r) = cluster_wire (auth_request_msg cfg nonce_a) @ cluster_wire (auth_ok_msg cfg)
      @ cluster_wire (msg_frame cfg m)"
  shows "\<exists>r' nb' d'. handle_cluster_connection B rcfg ctx False 0 r nb = Done (r', nb') \<and> nd_dbp nb' = Some d'
     \<and> db_view B d' = lww_update (db_view B d) k rec \<and> db_wf B d'"
proof -
  have wire: "stream_of (s_rx r) = cluster_wire (auth_request_msg cfg nonce_a) @ cluster_wire (auth_ok_msg cfg) @ msgs_wire cfg [m]"
    using assms(15) by simp
  have one: "list_all sync_ok [m]" "list_all update_ok (map msg_update [m])" using assms(12-14) by simp_all
  obtain d' where "db_deliver B (map msg_update [m]) (nd_dbp nb) = Some (Some d')"
    and d': "db_view B d' = lww_run (db_view B d) (map msg_update [m])" "db_wf B d'"
    using deliver_reliable [OF assms(1,2,4) one(2)] assms(3) by auto
  from session_opened [OF assms(5-7) one(1) assms(8-10) wire assms(11) this(1)] d' show ?thesis
    by (fastforce simp: assms(13) lww_run_def)
qed

section \<open>Properties\<close>

text \<open>
  C1: a write reaches the other nodes.  A client's SET answered OK stores a record and queues it; the next turn of
  the control thread moves it to the outbox of every peer; the next round of the sender of a connected and
  authenticated peer writes it to the connection; and a node of the cluster that receives the bytes written on
  that connection, in any segmentation, ends with the last-writer-wins merge of its own record of the key and
  exactly the record stored at the first node.
\<close>

theorem set_reaches_peer:
  assumes "bdb_contract B" and "bdb_reliable B" and "key_ok k" and "length v \<le> MAX_VALUE_LEN"
    and "sv_dbp st = Some s" and "sv_mem st 1" and "my_node_id st \<noteq> 0"
    and "process_op B (client_frame OP_SET k v) (k @ v) (my_node_id st) False st = ((DMMR_PROTO_STATUS_OK, pl, len), st')"
    and "pool_inv (cq_pool (sv_control st)) out" and "card out < hp_capacity (cq_pool (sv_control st))"
    and "cq_head (sv_control st) = []" and "gc_server g = st'"
    and "list_all (peer_ok cfg) (nd_peers na)" and "\<not> peers_locked na" and "\<And>n. w_mem (nd_world na) n"
    and "i < length (nd_peers na)" and "nd_peers na ! i = p" and "pc_fd p = Some c" and "pc_active p"
    and "pc_authenticated p" and "pc_outbox p = []" and "tx_live (48 + length k + length v) (s_tx c)"
    and "s_out c = cluster_wire (auth_request_msg cfg nonce_a) @ cluster_wire (auth_ok_msg cfg)"
    and "nd_dbp nb = Some d" and "db_wf B d" and "cluster_secret rcfg \<noteq> []" and "length (sha_data ctx) = 64"
    and "same_cluster rcfg cfg" and "steady (nd_world nb)"
    and "\<And>n. timespec_micros (w_clock (nd_world nb) n) < timespec_micros (w_clock (nd_world nb) 0) + AUTH_TTL_MICROS"
  shows "\<exists>s1 rec last g' na' p1 m. sv_dbp st' = Some s1 \<and> db_view B s1 k = Some rec
     \<and> control_turn cfg cursor_ok get now last_scan g na = Done (last, g', na') \<and> nd_peers na' ! i = p1 \<and> pc_outbox p1 = [m]
     \<and> (\<forall>w sctx. w_running w 0 \<and> w_running w 1 \<and> timespec_micros (w_clock w 1) < pc_auth_expire_at p
            \<and> w_time w 0 - om_enqueued_at m \<le> 120 \<longrightarrow>
          (\<exists>w1 w2 w3 p2 c'. sender_top cfg sctx p1 w = Some (S_Outbox, p1, w1) \<and> sender_take p1 w1 = (S_Send m, p1, w2)
             \<and> sender_send cfg m p1 w2 = Some (True, p2, w3) \<and> pc_fd p2 = Some c' \<and> pc_outbox p2 = []
             \<and> (\<forall>r. stream_of (s_rx r) = s_out c' \<and> stream_end (s_rx r) = EndEof \<and> tx_live 96 (s_tx r) \<longrightarrow>
                  (\<exists>r' nb' d'. handle_cluster_connection B rcfg ctx False 0 r nb = Done (r', nb') \<and> nd_dbp nb' = Some d'
                     \<and> db_view B d' = lww_update (db_view B d) k rec \<and> db_wf B d'))))"
proof -
  define ts node ex where "ts = micros_at 0 st" and "node = my_node_id st" and "ex = micros_at 1 st + TTL_DEFAULT"
  let ?rec = "mk_rec ts node ex False v"
  have "process_set B k (set_val v) (length v) 0 (my_node_id st) False st = ((DMMR_PROTO_STATUS_OK, pl, len), st')"
    using assms(8) unfolding process_op_set [OF assms(3,4)] set_val_def .
  from set_queues_record [OF assms(1,5) this assms(9,10,6)] obtain s1 where s1: "sv_dbp st' = Some s1"
    and q: "map snd (cq_head (sv_control st')) = [broadcast_cmd k (set_val v) (length v) ts node ex FLAG_NONE]"
    and "db_view B s1 k = Some (cmd_rec (broadcast_cmd k (set_val v) (length v) ts node ex FLAG_NONE))"
    by (auto simp: assms(11) ts_def node_def ex_def)
  note msg = set_msg [OF assms(3,4,7), folded node_def]
  have view: "db_view B s1 k = Some ?rec" using \<open>db_view B s1 k = _\<close> by (simp add: msg(5))
  have val: "length v > 0 \<longrightarrow> (\<exists>v'. set_val v = Some v' \<and> length v' = length v)" by (simp add: set_val_def)
  obtain last g' na' t where turn: "control_turn cfg cursor_ok get now last_scan g na = Done (last, g', na')"
    and ok: "list_all (peer_ok cfg) (nd_peers na')" "i < length (nd_peers na')"
    and p1: "nd_peers na' ! i = p\<lparr>pc_outbox := [sync_msg k (set_val v) (length v) ts node ex FLAG_NONE t], pc_outbox_count := 1\<rparr>"
    using control_turn_broadcasts [OF q [folded assms(12)] assms(3,4) val assms(13-16), of cursor_ok get now last_scan]
    by (auto simp: assms(17,21))
  define m p1 where "m = sync_msg k (set_val v) (length v) ts node ex FLAG_NONE t" and "p1 = nd_peers na' ! i"
  note msg' = msg(1,2) [of ts ex t, folded m_def] msg(4) [of cfg ts ex t, folded m_def]
  have peer: "pc_fd p1 = Some c" "pc_active p1" "pc_authenticated p1" "pc_outbox p1 = [m]" "pc_auth_expire_at p1 = pc_auth_expire_at p"
    using assms(18-20) by (simp_all add: p1_def m_def p1)
  have box: "outbox_ok p1" using ok unfolding p1_def by (simp add: list_all_length peer_ok_def)
  have up: "update_ok (k, ?rec)" using msg(3) [of ts ex t] by (simp add: msg(2))
  have live: "tx_live (length (cluster_wire (msg_frame cfg m))) (s_tx c)" using assms(22) by (simp add: msg'(3))
  have "\<exists>w1 w2 w3 p2 c'. sender_top cfg sctx p1 w = Some (S_Outbox, p1, w1) \<and> sender_take p1 w1 = (S_Send m, p1, w2)
      \<and> sender_send cfg m p1 w2 = Some (True, p2, w3) \<and> pc_fd p2 = Some c' \<and> pc_outbox p2 = []
      \<and> (\<forall>r. stream_of (s_rx r) = s_out c' \<and> stream_end (s_rx r) = EndEof \<and> tx_live 96 (s_tx r) \<longrightarrow>
           (\<exists>r' nb' d'. handle_cluster_connection B rcfg ctx False 0 r nb = Done (r', nb') \<and> nd_dbp nb' = Some d'
              \<and> db_view B d' = lww_update (db_view B d) k ?rec \<and> db_wf B d'))"
    if w: "w_running w 0 \<and> w_running w 1 \<and> timespec_micros (w_clock w 1) < pc_auth_expire_at p
        \<and> w_time w 0 - om_enqueued_at m \<le> 120" for w sctx
  proof -
    have "timespec_micros (w_clock w 1) < pc_auth_expire_at p1" using w unfolding peer(5) by blast
    with w sender_round_delivers [OF peer(1-3) box peer(4) _ _ _ _ live, of w sctx] obtain w1 w2 w3 p2 c' where
      send: "sender_top cfg sctx p1 w = Some (S_Outbox, p1, w1)" "sender_take p1 w1 = (S_Send m, p1, w2)"
      "sender_send cfg m p1 w2 = Some (True, p2, w3)" "pc_fd p2 = Some c'" "pc_outbox p2 = []"
      and out: "s_out c' = s_out c @ cluster_wire (msg_frame cfg m)" by blast
    have "\<exists>r' nb' d'. handle_cluster_connection B rcfg ctx False 0 r nb = Done (r', nb') \<and> nd_dbp nb' = Some d'
        \<and> db_view B d' = lww_update (db_view B d) k ?rec \<and> db_wf B d'" if "stream_of (s_rx r) = s_out c'" "stream_end (s_rx r) = EndEof" "tx_live 96 (s_tx r)" for r
      by (rule session_merges_one [OF assms(1,2,24-29) that(3) assms(30) that(2) msg'(1,2) up]) (simp add: that out assms(23))
    with send show ?thesis by blast
  qed
  then show ?thesis
    using s1 view turn peer(4) p1_def by blast
qed

section \<open>Witnesses\<close>

text \<open>A node with one peer, to which it has opened a session.\<close>

definition linked_sock :: sock where
  "linked_sock = (wire_sock [])\<lparr>s_out := cluster_wire (auth_request_msg demo_cfg 77) @ cluster_wire (auth_ok_msg demo_cfg)\<rparr>"

definition linked_peer :: peer_conn where
  "linked_peer = demo_peer\<lparr>pc_fd := Some linked_sock, pc_authenticated := True, pc_auth_expire_at := 9000000\<rparr>"

definition linked_node :: "(bytes \<rightharpoonup> bytes) node" where
  "linked_node = demo_node\<lparr>nd_peers := [linked_peer]\<rparr>"

definition demo_collector :: "(bytes \<rightharpoonup> bytes) server \<Rightarrow> (bytes \<rightharpoonup> bytes) gc" where
  "demo_collector st = \<lparr>gc_server = st, gc_pool = demo_pool, gc_queue = [], gc_cursor = False\<rparr>"

lemma linked_ok:
  "list_all (peer_ok demo_cfg) (nd_peers linked_node)" "\<not> peers_locked linked_node" "w_mem (nd_world linked_node) n"
  "0 < length (nd_peers linked_node)" "nd_peers linked_node ! 0 = linked_peer" "pc_fd linked_peer = Some linked_sock"
  "pc_active linked_peer" "pc_authenticated linked_peer" "pc_outbox linked_peer = []"
  "tx_live (48 + length (cstr ''k'') + length (cstr ''v'')) (s_tx linked_sock)"
  "s_out linked_sock = cluster_wire (auth_request_msg demo_cfg 77) @ cluster_wire (auth_ok_msg demo_cfg)"
  "same_cluster demo_peer_cfg demo_cfg" "cluster_secret demo_peer_cfg \<noteq> []"
  using demo_peer_ok demo_same_cluster demo_secret(2)
  by (simp_all add: linked_node_def linked_peer_def linked_sock_def demo_node_def demo_world_def demo_peer_def peer_new_def
      peer_ok_def address_ok_def outbox_ok_def backoff_ok_def same_cluster_def demo_peer_cfg_def)

theorem set_reaches_peer_witness:
  "\<exists>st' s1 last g' na' r r' nb' d'.
     process_op map_bdb (client_frame OP_SET (cstr ''k'') (cstr ''v'')) (cstr ''k'' @ cstr ''v'') (my_node_id demo_server) False demo_server
       = ((DMMR_PROTO_STATUS_OK, None, 0), st') \<and> sv_dbp st' = Some s1
   \<and> control_turn demo_cfg True (\<lambda>_. GcNotFound) 0 0 (demo_collector st') linked_node = Done (last, g', na')
   \<and> handle_cluster_connection map_bdb demo_peer_cfg demo_ctx False 0 r quiet_node = Done (r', nb') \<and> nd_dbp nb' = Some d'
   \<and> db_view map_bdb d' (cstr ''k'') = db_view map_bdb s1 (cstr ''k'') \<and> db_view map_bdb s1 (cstr ''k'') \<noteq> None"
proof -
  let ?k = "cstr ''k''" and ?v = "cstr ''v''"
  obtain st' where set: "process_op map_bdb (client_frame OP_SET ?k ?v) (?k @ ?v) (my_node_id demo_server) False demo_server
      = ((DMMR_PROTO_STATUS_OK, None, 0), st')"
    using demo_set unfolding process_op_set [OF demo_key] demo_server_simps(5) by auto
  have sv: "sv_mem demo_server 1" "my_node_id demo_server \<noteq> 0" "pool_inv (cq_pool (sv_control demo_server)) {}"
    "card {} < hp_capacity (cq_pool (sv_control demo_server))" "gc_server (demo_collector st') = st'"
    using demo_pool_inv demo_pool_cap by (simp_all add: demo_server_simps demo_collector_def)
  obtain s1 rec last g' na' p1 m where s1: "sv_dbp st' = Some s1" "db_view map_bdb s1 ?k = Some rec"
    and turn: "control_turn demo_cfg True (\<lambda>_. GcNotFound) 0 0 (demo_collector st') linked_node = Done (last, g', na')"
    and sends: "\<forall>w sctx. w_running w 0 \<and> w_running w 1 \<and> timespec_micros (w_clock w 1) < pc_auth_expire_at linked_peer
            \<and> w_time w 0 - om_enqueued_at m \<le> 120 \<longrightarrow>
          (\<exists>w1 w2 w3 p2 c'. sender_top demo_cfg sctx p1 w = Some (S_Outbox, p1, w1) \<and> sender_take p1 w1 = (S_Send m, p1, w2)
             \<and> sender_send demo_cfg m p1 w2 = Some (True, p2, w3) \<and> pc_fd p2 = Some c' \<and> pc_outbox p2 = []
             \<and> (\<forall>r. stream_of (s_rx r) = s_out c' \<and> stream_end (s_rx r) = EndEof \<and> tx_live 96 (s_tx r) \<longrightarrow>
                  (\<exists>r' nb' d'. handle_cluster_connection map_bdb demo_peer_cfg demo_ctx False 0 r quiet_node = Done (r', nb')
                     \<and> nd_dbp nb' = Some d' \<and> db_view map_bdb d' = lww_update (db_view map_bdb Map.empty) ?k rec \<and> db_wf map_bdb d')))"
    using set_reaches_peer [OF map_bdb_contract map_bdb_reliable demo_key demo_server_simps(1) sv(1,2) set sv(3,4)
        demo_server_simps(4) sv(5) linked_ok(1-11) quiet_node_simps(2) empty_wf linked_ok(13) demo_ctx_len linked_ok(12)
        quiet_node_simps(1,3), of True "\<lambda>_. GcNotFound" 0 0] by blast
  define w where "w = demo_world\<lparr>w_time := (\<lambda>_. om_enqueued_at m)\<rparr>"
  have "w_running w 0 \<and> w_running w 1 \<and> timespec_micros (w_clock w 1) < pc_auth_expire_at linked_peer
      \<and> w_time w 0 - om_enqueued_at m \<le> 120"
    by (simp add: w_def demo_world_def linked_peer_def timespec_micros_def)
  from sends [rule_format, OF this, of demo_ctx] obtain c' :: sock where recv: "\<forall>r. stream_of (s_rx r) = s_out c' \<and> stream_end (s_rx r) = EndEof \<and> tx_live 96 (s_tx r) \<longrightarrow>
      (\<exists>r' nb' d'. handle_cluster_connection map_bdb demo_peer_cfg demo_ctx False 0 r quiet_node = Done (r', nb')
         \<and> nd_dbp nb' = Some d' \<and> db_view map_bdb d' = lww_update (db_view map_bdb Map.empty) ?k rec \<and> db_wf map_bdb d')"
    by (elim exE conjE)
  define r where "r = (wire_sock [])\<lparr>s_rx := [RxData (s_out c'), RxEof]\<rparr>"
  have "stream_of (s_rx r) = s_out c' \<and> stream_end (s_rx r) = EndEof \<and> tx_live 96 (s_tx r)"
    by (simp add: r_def)
  with recv obtain r' nb' d' where recvd: "handle_cluster_connection map_bdb demo_peer_cfg demo_ctx False 0 r quiet_node = Done (r', nb')"
    "nd_dbp nb' = Some d'" and view: "db_view map_bdb d' = lww_update (db_view map_bdb Map.empty) ?k rec" by blast
  have "db_view map_bdb d' ?k = Some rec"
    unfolding view by (simp add: lww_update_def lww_merge_def db_view_def)
  with set s1 turn recvd show ?thesis by (intro exI conjI) (assumption | simp)+
qed

end
