(* ===== verification/Dmmr_Main.thy ===== *)
theory Dmmr_Main
  imports Dmmr_Discovery Dmmr_Replication
begin

unbundle bit_operations_syntax

text \<open>
  \<open>main\<close> of \<open>dmmr_server.c\<close>: the environment and the command line, the order in which the parts are
  set up, the listening sockets, the accept loop and the teardown.  The file descriptors and the outcome of the
  calls of the operating system are arguments; threads are the turns and step relations of the other theories.
\<close>

section \<open>Numbers on the command line\<close>

text \<open>\<open>atoi\<close> is \<open>(int) strtol (text, NULL, 10)\<close>.\<close>

definition atoi :: "bytes \<Rightarrow> int" where
  "atoi t = (case strtol 10 t of (errno, v, rest) \<Rightarrow> sint (of_int v :: 32 word))"

definition digit_of :: "u8 \<Rightarrow> nat" where
  "digit_of b =
     (let n = unat b in
      if 48 \<le> n \<and> n \<le> 57 then n - 48
      else if 97 \<le> n \<and> n \<le> 122 then n - 87
      else if 65 \<le> n \<and> n \<le> 90 then n - 55
      else 36)"

text \<open>\<open>strtoull (text, NULL, 0)\<close>: a prefix \<open>0x\<close> that a hexadecimal digit follows selects base 16, another leading
  zero base 8.\<close>

definition strtoull0 :: "bytes \<Rightarrow> u64" where
  "strtoull0 t =
     (let t1 = dropWhile is_space t;
          neg = (t1 \<noteq> [] \<and> hd t1 = 45);
          u = (if t1 \<noteq> [] \<and> (hd t1 = 45 \<or> hd t1 = 43) then tl t1 else t1);
          hex = (length u > 2 \<and> u ! 0 = 48 \<and> (u ! 1 = 120 \<or> u ! 1 = 88) \<and> digit_of (u ! 2) < 16);
          base = (if hex then 16 else if u \<noteq> [] \<and> hd u = 48 then 8 else 10);
          ds = takeWhile (\<lambda>b. digit_of b < base) (if hex then drop 2 u else u);
          n = foldl (\<lambda>v d. v * base + digit_of d) 0 ds
      in if n > 2 ^ 64 - 1 then - 1 else if neg then - of_nat n else of_nat n)"

section \<open>Options\<close>

definition PORT :: int where [const_defs]: "PORT = 9080"
definition CLUSTER_PORT :: int where [const_defs]: "CLUSTER_PORT = 9081"
definition SOCK_PATH :: bytes where [const_defs]: "SOCK_PATH = cstr ''/tmp/dmmr_cache.sock''"
definition DEFAULT_WORKERS :: int where [const_defs]: "DEFAULT_WORKERS = 4"

record options =
  op_use_unix :: bool
  op_use_tcp :: bool
  op_cache_port :: int
  op_cluster_port :: int
  op_socket_path :: bytes
  op_bind_address :: bytes
  op_socket_mode :: nat
  op_seeds :: bytes
  op_advertise_address :: bytes
  op_cluster_name :: bytes
  op_cluster_secret :: bytes
  op_daemon_mode :: bool
  op_worker_count :: int
  op_node_id :: u64

definition env_options :: "environment \<Rightarrow> u64 \<Rightarrow> options" where
  "env_options env node_id =
     \<lparr>op_use_unix = False, op_use_tcp = False,
      op_cache_port = dmmr_env_int env ''DMMR_CACHE_PORT'' PORT 1 65535,
      op_cluster_port = dmmr_env_int env ''DMMR_CLUSTER_PORT'' CLUSTER_PORT 1 65535,
      op_socket_path = dmmr_env_string env ''DMMR_SOCKET_PATH'' SOCK_PATH,
      op_bind_address = dmmr_env_string env ''DMMR_BIND_ADDRESS'' (cstr ''127.0.0.1''),
      op_socket_mode = dmmr_env_mode env ''DMMR_SOCKET_MODE'' 438,
      op_seeds = dmmr_env_string env ''DMMR_CLUSTER_SEEDS'' [],
      op_advertise_address = dmmr_env_string env ''DMMR_ADVERTISE_ADDRESS'' [],
      op_cluster_name = dmmr_env_string env ''DMMR_CLUSTER_NAME'' [],
      op_cluster_secret = dmmr_env_string env ''DMMR_CLUSTER_SECRET'' [],
      op_daemon_mode = False,
      op_worker_count = dmmr_env_int env ''DMMR_WORKERS'' DEFAULT_WORKERS 1 1024,
      op_node_id = node_id\<rparr>"

text \<open>What follows the option's name, where \<open>strncmp\<close> finds it at the start of the argument.\<close>

definition arg_value :: "string \<Rightarrow> bytes \<Rightarrow> bytes option" where
  "arg_value name arg =
     (if take (length name) arg = cstr name then Some (drop (length name) arg) else None)"

text \<open>The static configuration of \<open>dmmr_cluster.c\<close>, in force until \<open>cluster_configure\<close> is called; the node id is a
  variable of \<open>dmmr_server.c\<close> which an option may have set.\<close>

definition static_cfg :: "u64 \<Rightarrow> cluster_cfg" where
  "static_cfg node_id =
     \<lparr>cluster_name = [], cluster_secret = [], cluster_advertise_address = cstr ''127.0.0.1'',
      cluster_advertise_port = of_int CLUSTER_PORT, cluster_seeds = [], discovery_interval_seconds = 10,
      cfg_node_id = node_id\<rparr>"

definition peer_arg :: "bytes \<Rightarrow> options \<Rightarrow> 's node \<Rightarrow> 's node run" where
  "peer_arg spec op st =
     (case strchr 58 spec of
        None \<Rightarrow> Done st
      | Some colon \<Rightarrow>
          let len = (if colon \<ge> 64 then 63 else colon)
          in add_peer (static_cfg (op_node_id op)) (Some (take len spec)) (atoi (drop (Suc colon) spec)) st)"

text \<open>One argument; \<open>None\<close> for the options is the return of \<open>--help\<close>.\<close>

definition main_arg :: "bytes \<Rightarrow> options \<Rightarrow> 's node \<Rightarrow> (options option \<times> 's node) run" where
  "main_arg arg op st =
     (if arg = cstr ''--unix'' then Done (Some (op\<lparr>op_use_unix := True\<rparr>), st)
      else if arg = cstr ''--tcp'' then Done (Some (op\<lparr>op_use_tcp := True\<rparr>), st)
      else if arg = cstr ''--both'' then Done (Some (op\<lparr>op_use_unix := True, op_use_tcp := True\<rparr>), st)
      else case arg_value ''--workers='' arg of Some v \<Rightarrow> Done (Some (op\<lparr>op_worker_count := atoi v\<rparr>), st)
      | None \<Rightarrow> case arg_value ''--cluster-port='' arg of Some v \<Rightarrow> Done (Some (op\<lparr>op_cluster_port := atoi v\<rparr>), st)
      | None \<Rightarrow> case arg_value ''--seeds='' arg of Some v \<Rightarrow> Done (Some (op\<lparr>op_seeds := v\<rparr>), st)
      | None \<Rightarrow> case arg_value ''--advertise='' arg of Some v \<Rightarrow> Done (Some (op\<lparr>op_advertise_address := v\<rparr>), st)
      | None \<Rightarrow> case arg_value ''--cluster-name='' arg of Some v \<Rightarrow> Done (Some (op\<lparr>op_cluster_name := v\<rparr>), st)
      | None \<Rightarrow> case arg_value ''--cluster-secret='' arg of Some v \<Rightarrow> Done (Some (op\<lparr>op_cluster_secret := v\<rparr>), st)
      | None \<Rightarrow> case arg_value ''--peer='' arg of
          Some v \<Rightarrow> (case peer_arg v op st of
                       Done st' \<Rightarrow> Done (Some op, st') | Blocked \<Rightarrow> Blocked | Fault \<Rightarrow> Fault)
      | None \<Rightarrow> case arg_value ''--node-id='' arg of Some v \<Rightarrow> Done (Some (op\<lparr>op_node_id := strtoull0 v\<rparr>), st)
      | None \<Rightarrow>
          if arg = cstr ''--daemon'' then Done (Some (op\<lparr>op_daemon_mode := True\<rparr>), st)
          else if arg = cstr ''--help'' then Done (None, st)
          else Done (Some op, st))"

fun main_args :: "bytes list \<Rightarrow> options \<Rightarrow> 's node \<Rightarrow> (options option \<times> 's node) run" where
  "main_args [] op st = Done (Some op, st)"
| "main_args (arg # args) op st =
     (case main_arg arg op st of
        Done (None, st') \<Rightarrow> Done (None, st')
      | Done (Some op', st') \<Rightarrow> main_args args op' st'
      | Blocked \<Rightarrow> Blocked
      | Fault \<Rightarrow> Fault)"

section \<open>Setting up\<close>

text \<open>What the daemon owns when its threads run.  The sizes of \<open>struct job_fd_entry\<close>, \<open>struct control_cmd_pooled\<close> and
  \<open>struct delete_entry\<close> are those of the 64-bit layout.\<close>

record 's daemon =
  dm_options :: options
  dm_cfg :: cluster_cfg
  dm_jobs :: job_sys
  dm_control :: control_sys
  dm_del_pool :: heap_pool
  dm_payload :: payload_pool
  dm_node :: "'s node"
  dm_discovery :: bool

datatype 's boot = Exit int | Up "'s daemon"

text \<open>The outcome of the calls that can fail, and the empty store a created database is.\<close>

record 's host =
  ho_job_mem :: bool
  ho_cmd_mem :: bool
  ho_del_mem :: bool
  ho_payload_mem :: bool
  ho_db_create :: bool
  ho_db_open :: bool
  ho_db :: 's
  ho_thread :: bool
  ho_time :: int
  ho_pid :: int

definition settle_options :: "'s host \<Rightarrow> options \<Rightarrow> options" where
  "settle_options ho op =
     (let op1 = (if \<not> op_use_unix op \<and> \<not> op_use_tcp op then op\<lparr>op_use_unix := True\<rparr> else op)
      in if op_node_id op1 = 0
         then op1\<lparr>op_node_id := of_int (ho_time ho) XOR push_bit 32 (of_int (ho_pid ho))\<rparr> else op1)"

definition main_cfg :: "options \<Rightarrow> cluster_cfg" where
  "main_cfg op =
     (let adv = (if op_advertise_address op \<noteq> [] then op_advertise_address op else op_bind_address op)
      in cluster_configure (Some adv) (op_cluster_port op) (Some (op_seeds op)) 10
           (Some (op_cluster_name op)) (Some (op_cluster_secret op)) (static_cfg (op_node_id op)))"

definition main_setup :: "'s host \<Rightarrow> heap_pool \<Rightarrow> options \<Rightarrow> 's node \<Rightarrow> 's boot" where
  "main_setup ho zero op st =
     (let (jrc, jobs) = dmmr_heap_pool_init (ho_job_mem ho) 24 QUEUE_MAX zero;
          (crc, cmds) = dmmr_heap_pool_init (ho_cmd_mem ho) 1104 (2 * QUEUE_MAX) zero;
          (drc, dels) = dmmr_heap_pool_init (ho_del_mem ho) 1056 (4 * TTL_SCAN_CHUNK_SIZE) zero
      in if jrc \<noteq> 0 \<or> crc \<noteq> 0 \<or> drc \<noteq> 0 then Exit 1
         else let (prc, payload) = init_pools (ho_payload_mem ho) static_pool in
           if prc \<noteq> 0 then Exit 1
           else let (brc, dbp) = init_db (ho_db_create ho) (ho_db_open ho) (ho_db ho) (nd_dbp st) in
             if brc \<noteq> 0 then Exit 1
             else let st1 = init_peers (st\<lparr>nd_dbp := dbp\<rparr>); cfg = main_cfg op in
               Up \<lparr>dm_options = op, dm_cfg = cfg, dm_jobs = job_start jobs, dm_control = control_start cmds,
                   dm_del_pool = dels, dm_payload = payload, dm_node = st1,
                   dm_discovery = snd (cluster_start_discovery cfg (ho_thread ho) False)\<rparr>)"

definition main_start :: "environment \<Rightarrow> bytes list \<Rightarrow> 's host \<Rightarrow> heap_pool \<Rightarrow> u64 \<Rightarrow> 's node \<Rightarrow> 's boot run" where
  "main_start env args ho zero node_id st =
     (case main_args args (env_options env node_id) st of
        Done (None, st') \<Rightarrow> Done (Exit 0)
      | Done (Some op, st') \<Rightarrow> Done (main_setup ho zero (settle_options ho op) st')
      | Blocked \<Rightarrow> Blocked
      | Fault \<Rightarrow> Fault)"

section \<open>Serving and ending\<close>

text \<open>The listening sockets: descriptors returned by \<open>socket\<close>, and whether \<open>bind\<close> and \<open>listen\<close> succeed.  The result
  holds \<open>unix_fd\<close>, \<open>tcp_fd\<close> and the array \<open>listen_fds\<close>.\<close>

definition open_listener :: "bool \<Rightarrow> int \<Rightarrow> bool \<Rightarrow> int list \<Rightarrow> int \<times> int list" where
  "open_listener wanted fd bound fds =
     (if wanted then (if fd \<ge> 0 then (if bound then (fd, fds @ [fd]) else (- 1, fds)) else (fd, fds)) else (- 1, fds))"

definition main_listeners :: "options \<Rightarrow> int \<times> bool \<Rightarrow> int \<times> bool \<Rightarrow> int \<times> int \<times> int list" where
  "main_listeners op unix tcp =
     (let (unix_fd, fds1) = open_listener (op_use_unix op) (fst unix) (snd unix) [];
          (tcp_fd, fds2) = open_listener (op_use_tcp op) (fst tcp) (snd tcp) fds1
      in (unix_fd, tcp_fd, fds2))"

text \<open>A turn of the accept loop: \<open>ready\<close> lists, in the order of \<open>listen_fds\<close>, what \<open>accept\<close> returns for the sockets
  \<open>select\<close> reports.  The first result lists the connections \<open>enqueue_job\<close> closed.\<close>

fun accept_turn :: "int list \<Rightarrow> job_queue \<Rightarrow> int list \<times> job_queue" where
  "accept_turn [] q = ([], q)"
| "accept_turn (client # ready) q =
     (if client \<ge> 0 then
        (case enqueue_job client q of
           (closed, q1) \<Rightarrow> (case accept_turn ready q1 of
                              (rest, q2) \<Rightarrow> (case closed of Some fd \<Rightarrow> fd # rest | None \<Rightarrow> rest, q2)))
      else accept_turn ready q)"

text \<open>The teardown after every thread has been joined.\<close>

definition main_shutdown :: "'s daemon \<Rightarrow> (peer_conn list \<times> 's daemon) run" where
  "main_shutdown d =
     (case close_peer_connections (dm_node d) of
        Done (closed, st) \<Rightarrow>
          Done (closed, d\<lparr>dm_discovery := cluster_stop_discovery (dm_discovery d),
            dm_node := st\<lparr>nd_dbp := close_db (nd_dbp st)\<rparr>,
            dm_payload := destroy_pools (dm_payload d),
            dm_jobs := (dm_jobs d)\<lparr>js_running := False,
              js_queue := (js_queue (dm_jobs d))\<lparr>jq_pool := dmmr_heap_pool_destroy (jq_pool (js_queue (dm_jobs d)))\<rparr>\<rparr>,
            dm_control := (dm_control d)\<lparr>cs_running := False,
              cs_queue := (cs_queue (dm_control d))\<lparr>cq_pool := dmmr_heap_pool_destroy (cq_pool (cs_queue (dm_control d)))\<rparr>\<rparr>,
            dm_del_pool := dmmr_heap_pool_destroy (dm_del_pool d)\<rparr>)
      | Blocked \<Rightarrow> Blocked
      | Fault \<Rightarrow> Fault)"

section \<open>What the start establishes\<close>

lemma env_options_ranges:
  "1 \<le> op_cache_port (env_options env n) \<and> op_cache_port (env_options env n) \<le> 65535"
  "1 \<le> op_cluster_port (env_options env n) \<and> op_cluster_port (env_options env n) \<le> 65535"
  "1 \<le> op_worker_count (env_options env n) \<and> op_worker_count (env_options env n) \<le> 1024"
  "op_socket_mode (env_options env n) \<le> 511"
  by (simp_all add: env_options_def env_int_range env_mode_range const_defs)

lemma main_cfg_bounds:
  "length (cluster_name (main_cfg op)) \<le> DMMR_CLUSTER_NAME_MAX"
  "length (cluster_secret (main_cfg op)) \<le> DMMR_CLUSTER_SECRET_MAX"
  "length (cluster_advertise_address (main_cfg op)) \<le> DMMR_PEER_ADDR_MAX"
  "cluster_advertise_address (main_cfg op) \<noteq> []"
  "length (cluster_seeds (main_cfg op)) < DMMR_SEEDS_MAX"
  "cfg_node_id (main_cfg op) = op_node_id op"
  by (simp_all add: main_cfg_def cluster_configure_def static_cfg_def Let_def const_defs strlcpy_text_def)

lemma setup_up:
  assumes "main_setup ho zero op st = Up d"
  shows "job_inv (dm_jobs d)" and "control_inv (dm_control d)"
    and "pool_inv (dm_del_pool d) {}" and "hp_capacity (dm_del_pool d) = 4 * TTL_SCAN_CHUNK_SIZE"
    and "pp_inv (dm_payload d) {}" and "nd_dbp (dm_node d) = Some (ho_db ho)" and "nd_peers (dm_node d) = []"
    and "dm_options d = op" and "dm_cfg d = main_cfg op"
proof -
  obtain jobs cmds dels payload where
    i: "dmmr_heap_pool_init (ho_job_mem ho) 24 QUEUE_MAX zero = (0, jobs)"
      "dmmr_heap_pool_init (ho_cmd_mem ho) 1104 (2 * QUEUE_MAX) zero = (0, cmds)"
      "dmmr_heap_pool_init (ho_del_mem ho) 1056 (4 * TTL_SCAN_CHUNK_SIZE) zero = (0, dels)"
    and p: "init_pools (ho_payload_mem ho) static_pool = (0, payload)"
    and d: "dm_jobs d = job_start jobs" "dm_control d = control_start cmds" "dm_del_pool d = dels" "dm_payload d = payload"
    and r: "nd_dbp (dm_node d) = Some (ho_db ho)" "nd_peers (dm_node d) = []" "dm_options d = op" "dm_cfg d = main_cfg op"
    using assms by (auto simp: main_setup_def Let_def init_db_def init_peers_def split: prod.splits if_splits)
  show "job_inv (dm_jobs d)" using job_start_inv [OF i(1)] d by simp
  show "control_inv (dm_control d)" using control_start_inv [OF i(2)] d by simp
  show "pool_inv (dm_del_pool d) {}" "hp_capacity (dm_del_pool d) = 4 * TTL_SCAN_CHUNK_SIZE"
    using fresh_pool_inv [OF i(3)] d by (simp_all add: const_defs)
  have "payload = snd (add_payload_chunk (ho_payload_mem ho) static_pool)"
    using p by (auto simp: init_pools_def split: prod.splits if_splits)
  then show "pp_inv (dm_payload d) {}" using add_chunk_inv(1) [OF static_pool_inv] d by simp
  show "nd_dbp (dm_node d) = Some (ho_db ho)" "nd_peers (dm_node d) = []" "dm_options d = op" "dm_cfg d = main_cfg op"
    by (fact r)+
qed

text \<open>A daemon that comes up has every invariant the other theories start from.\<close>

theorem main_start_ready:
  assumes "main_start env args ho zero node_id st = Done (Up d)"
  shows "job_inv (dm_jobs d) \<and> control_inv (dm_control d) \<and> pool_inv (dm_del_pool d) {} \<and> pp_inv (dm_payload d) {}
     \<and> nd_dbp (dm_node d) = Some (ho_db ho) \<and> (op_use_unix (dm_options d) \<or> op_use_tcp (dm_options d))
     \<and> length (cluster_secret (dm_cfg d)) \<le> DMMR_CLUSTER_SECRET_MAX
     \<and> length (cluster_name (dm_cfg d)) \<le> DMMR_CLUSTER_NAME_MAX"
proof -
  obtain op st' where s: "main_setup ho zero (settle_options ho op) st' = Up d"
    using assms by (auto simp: main_start_def split: run.splits prod.splits option.splits)
  have "op_use_unix (settle_options ho op) \<or> op_use_tcp (settle_options ho op)"
    by (auto simp: settle_options_def Let_def)
  with setup_up [OF s] main_cfg_bounds show ?thesis by simp
qed

text \<open>Peers given with \<open>--peer=\<close> are registered while the arguments are read and \<open>init_peers\<close> empties the list
  afterwards: whatever the arguments, the daemon starts with no peer.\<close>

theorem static_peers_lost:
  assumes "main_start env args ho zero node_id st = Done (Up d)"
  shows "nd_peers (dm_node d) = []"
  using assms setup_up(7) by (auto simp: main_start_def split: run.splits prod.splits option.splits)

lemma arg_value_prefix [simp]: "arg_value name (cstr name @ v) = Some v"
  by (simp add: arg_value_def)

lemma atoi_dec: "n < 2 ^ 31 \<Longrightarrow> atoi (dec_digits n) = int n"
  by (simp add: atoi_def strtol_dec signed_of_int signed_take_bit_int_eq_self)

text \<open>The option \<open>--workers=\<close> is not held to the range the environment variable is: no worker is started for 0.\<close>

theorem workers_option_unchecked:
  assumes "n < 2 ^ 31"
  shows "main_args [cstr ''--workers='' @ dec_digits n] op st = Done (Some (op\<lparr>op_worker_count := int n\<rparr>), st)"
proof -
  have "cstr ''--workers='' @ dec_digits n \<noteq> cstr ''--unix''" "cstr ''--workers='' @ dec_digits n \<noteq> cstr ''--tcp''"
    "cstr ''--workers='' @ dec_digits n \<noteq> cstr ''--both''" by (simp_all add: cstr_def)
  then show ?thesis by (simp add: main_arg_def atoi_dec [OF assms] del: cstr_Cons)
qed

lemma accept_turn_steps:
  "accept_turn ready (js_queue s) = (closed, q) \<Longrightarrow>
     \<exists>t. job_step\<^sup>*\<^sup>* s t \<and> js_queue t = q \<and> js_refused t = js_refused s @ closed"
proof (induction ready arbitrary: s closed q)
  case (Cons client ready)
  show ?case
  proof (cases "client \<ge> 0")
    case True
    obtain c q1 where e: "enqueue_job client (js_queue s) = (c, q1)" by fastforce
    obtain rest q2 where r: "accept_turn ready q1 = (rest, q2)" by fastforce
    show ?thesis
    proof (cases c)
      case None
      let ?t = "s\<lparr>js_queue := q1, js_admitted := js_admitted s @ [client]\<rparr>"
      have st: "job_step s ?t" using job_step.accept [OF True] e None by simp
      from Cons.IH [of ?t rest q2] r obtain t where
        "job_step\<^sup>*\<^sup>* ?t t" "js_queue t = q2" "js_refused t = js_refused s @ rest" by auto
      with st Cons.prems e r None True show ?thesis by (auto intro: converse_rtranclp_into_rtranclp)
    next
      case (Some fd)
      let ?t = "s\<lparr>js_queue := q1, js_refused := js_refused s @ [fd]\<rparr>"
      have st: "job_step s ?t" using job_step.refuse e Some by simp
      from Cons.IH [of ?t rest q2] r obtain t where
        "job_step\<^sup>*\<^sup>* ?t t" "js_queue t = q2" "js_refused t = js_refused s @ fd # rest" by auto
      with st Cons.prems e r Some True show ?thesis by (auto intro: converse_rtranclp_into_rtranclp)
    qed
  qed (use Cons in auto)
qed auto

text \<open>Whatever turns the accept loop makes from the start, the queue and the served connections stay within
  the pool, and no connection is lost: each is queued, served or closed.\<close>

lemma accept_turn_inv:
  assumes "job_inv s" and "accept_turn ready (js_queue s) = (closed, q)"
  shows "\<exists>t. job_step\<^sup>*\<^sup>* s t \<and> js_queue t = q \<and> js_refused t = js_refused s @ closed \<and> job_inv t"
  using accept_turn_steps [OF assms(2)] job_reach_inv assms(1) by blast

lemma main_shutdown_releases:
  assumes "main_shutdown d = Done (closed, d')"
  shows "nd_dbp (dm_node d') = None" and "nd_peers (dm_node d') = []" and "pp_chunks (dm_payload d') = []"
    and "hp_buffer (jq_pool (js_queue (dm_jobs d'))) = None" and "hp_buffer (cq_pool (cs_queue (dm_control d'))) = None"
    and "hp_buffer (dm_del_pool d') = None" and "list_all (\<lambda>p. pc_fd p = None \<and> pc_outbox p = []) closed"
proof -
  have c: "list_all (\<lambda>p. pc_fd p = None \<and> pc_outbox p = []) (close_peers ps)" for ps
    by (induction ps) (auto simp: sender_exit_def)
  have f: "pp_chunks (free_chunk_list cs p) = []" for cs p by (induction cs arbitrary: p) auto
  from assms c f show "nd_dbp (dm_node d') = None" "nd_peers (dm_node d') = []" "pp_chunks (dm_payload d') = []"
    "hp_buffer (jq_pool (js_queue (dm_jobs d'))) = None" "hp_buffer (cq_pool (cs_queue (dm_control d'))) = None"
    "hp_buffer (dm_del_pool d') = None" "list_all (\<lambda>p. pc_fd p = None \<and> pc_outbox p = []) closed"
    by (auto simp: main_shutdown_def close_peer_connections_def close_db_def destroy_pools_def free_payload_chunks_def
        dmmr_heap_pool_destroy_def split: if_splits option.splits)
qed

end
