(* ===== verification/Spec2Isabelle.thy ===== *)
theory Spec2Isabelle
  imports Ngx_Conf Dmmr_Main
begin

text \<open>
  HTTP DMMR is an API gateway: an nginx module (\<open>src/nginx-dmmr-module-c\<close>) that routes, authenticates and limits
  requests, and a cache daemon (\<open>src/http_dmmr_cache\<close>) that holds the API keys in Berkeley DB and replicates them
  between nodes.  A request of the gateway asks the local daemon for its credential with a GET of the binary
  protocol; a SET or DEL of any client of a daemon is stored, queued for replication, and sent to every peer, which
  merges it by last-writer-wins.

  \<^bold>\<open>Theories and the code they model.\<close>

  Foundations.

  \<^item> \<open>Dmmr_Prelude\<close>: bytes, byte order, list lemmas, the locale \<open>byte_codec\<close> and
    the collections \<open>codec_simps\<close>, \<open>const_defs\<close>, \<open>inv_intros\<close>.
  \<^item> \<open>Dmmr_Protocol\<close>: \<open>dmmr_config.h\<close>, \<open>dmmr_protocol.h\<close>.
  \<^item> \<open>Dmmr_String\<close>: \<open>dmmr_string.c\<close> and the environment readers of
    \<open>dmmr_config.h\<close>.
  \<^item> \<open>Dmmr_Net\<close>: \<open>dmmr_net.c\<close>.
  \<^item> \<open>Dmmr_Sha256\<close>: \<open>sha256.c\<close> and \<open>hmac_sha256\<close>.

  One node.

  \<^item> \<open>Dmmr_Db\<close>: \<open>dmmr_db.c\<close>, with the locale \<open>lww_order\<close>.
  \<^item> \<open>Dmmr_Heap_Pool\<close>: \<open>dmmr_heap_pool.c\<close>, and \<open>Dmmr_Pool\<close>:
    \<open>dmmr_pool.c\<close>, with the locales \<open>lender\<close> and \<open>object_pool\<close>.
  \<^item> \<open>Dmmr_Queues\<close>: the connection queue and the replication queue of
    \<open>dmmr_server.c\<close>, as transition systems whose steps are the critical sections of the threads.
  \<^item> \<open>Dmmr_Server\<close>: \<open>read_frame\<close>, \<open>process_frame\<close>, the legacy
    protocol and \<open>handle_client\<close>.
  \<^item> \<open>Dmmr_Service\<close>: what these mean to a client.
  \<^item> \<open>Dmmr_Gc\<close>: \<open>scan_expired_entries\<close> and \<open>gc_worker_routine\<close>, whose two
    steps (an entry is taken under the mutex, deleted without it) interleave with scans and with the other threads.
  \<^item> \<open>Dmmr_Main\<close>: \<open>main\<close>.

  Between nodes (\<open>dmmr_cluster.c\<close>).

  \<^item> \<open>Dmmr_Cluster_Frame\<close>: frames.
  \<^item> \<open>Dmmr_Cluster_Auth\<close>: the handshake.
  \<^item> \<open>Dmmr_Peers\<close>: the peer list and \<open>broadcast_sync\<close>.
  \<^item> \<open>Dmmr_Sender\<close>: \<open>peer_sender_thread\<close>, as a step relation with a program
    counter; beside the state it records the bytes each send puts on the connection and the clock at each look at the outbox.
  \<^item> \<open>Dmmr_Hello\<close>: HELLO, peer lists, seeds, the reaper.
  \<^item> \<open>Dmmr_Cluster\<close>: snapshots and \<open>handle_cluster_connection\<close>.
  \<^item> \<open>Dmmr_Discovery\<close>: discovery, the listener, shutdown.
  \<^item> \<open>Dmmr_Replication\<close>: the threads that take commands off the queue, and the whole way of a
    write.

  The gateway.

  \<^item> \<open>Ngx_Core\<close>: \<open>ngx_http_dmmr_module.h\<close> and the interface of nginx.
  \<^item> \<open>Ngx_Router\<close>, \<open>Ngx_Rate_Limit\<close> (with the locale
    \<open>window_limiter\<close>), \<open>Ngx_Auth\<close>: the files of these names.
  \<^item> \<open>Ngx_Module\<close>: the handler, the upstream, directives and configurations.
  \<^item> \<open>Ngx_Conf\<close>: the tables of directives and variables.

  This theory joins the two programs.  Definitions keep the names of the code; a record stands for a struct or for
  the global variables a component owns, and a parameter list for the ones it reads.

  \<^bold>\<open>Conventions.\<close>  Integers keep their width as words where the code computes with them; lengths that are bounded
  before use are \<open>nat\<close>.  Memory images are byte lists, little-endian for the host.  A pointer that may be \<open>NULL\<close> is
  an option.  A connection is a \<open>sock\<close>: the outcomes its next \<open>recv\<close> and \<open>send\<close> calls will have (data in any
  segmentation, interruption, error, end) and the bytes written to it.  The outcomes of \<open>malloc\<close>, of the clocks,
  of the random source, of the resolver and of the flag \<open>running\<close> are streams in the state (\<open>server\<close>, \<open>world\<close>,
  \<open>auth_env\<close>, \<open>rq_mem\<close>), one element per call, so statements hold for every behaviour of the environment unless they say
  otherwise.  A run is \<open>Done\<close>, \<open>Blocked\<close> (it waits for ever, on a silent peer or on a mutex it holds itself) or
  \<open>Fault\<close> (it would leave the bounds of a buffer); functions that cannot fault return options, where \<open>None\<close> is
  \<open>Blocked\<close>.  No definition takes fuel: the loops over a connection end by the measure of what is left to receive,
  the loop over a chunk of rows by \<open>TTL_SCAN_CHUNK_SIZE\<close>, the threads are modelled by their turns or steps.

  \<^bold>\<open>Code outside the repository.\<close>  Berkeley DB is the record \<open>bdb\<close> with \<open>bdb_contract\<close>, and a cursor a list of events,
  which on an undisturbed store lists each pair once (\<open>cursor_lists\<close>); nginx is \<open>ngx_api\<close> with \<open>ngx_api_ok\<close> and, for
  shared memory and the red-black tree, \<open>shm_api\<close> with \<open>shm_ok\<close> and, where the size of the zone matters, \<open>slab_holds\<close>.  The
  witnesses instantiate them by \<open>map_bdb\<close>, \<open>demo_api\<close> and \<open>demo_shm\<close>, for which the contracts are proved.

  \<^bold>\<open>What is shown.\<close>  Across components: a write accepted by one node is merged into the store of another
  (\<open>Dmmr_Replication\<close>); what the gateway decides for a credential is what the replicated store says (below); a request
  passes the gateway only through route, authentication and limiter (\<open>Ngx_Module\<close>).  The store: refinement to a
  last-writer-wins map, convergence under reordering and repetition, round trips, compare-and-delete.  The daemon:
  pipelined requests in any segmentation, read-your-writes, buffers returned and never shared or leaked, queues
  first-in-first-out within their bounds under every interleaving, bounded scans, a collector that loses no entry and
  gets through its queue whatever is appended meanwhile.  The cluster: typed frames
  and their round trip, the handshake (completeness, and what it authenticates), well-formed peer lists,
  memory-safe parsing, both ends of the HELLO exchange and of a snapshot, sessions, discovery, and the limits of the code: the deadlock of the reaper, the
  listener that serves one peer at a time, the cluster without a secret, the collector that deletes refreshed
  records.  The gateway: fail-closed authentication, the limiter's books, its exact quota while the
  zone has room, the best route.

  \<^bold>\<open>Bounds.\<close>  Keys have at most 1024 and values at most 1048576 bytes, the constants of the code; the capacities of
  pools and queues are those of the code.  Byte counters of SHA-256 are 64-bit words and wrap as in the code.

  \<^bold>\<open>Not modelled.\<close>  \<open>daemonize\<close>, the signal handlers, \<open>usage\<close> and log output, which have no state of the program; the
  creation and joining of threads and condition variables, whose effect is the freedom of the interleavings; thread
  schedules finer than the critical sections; the structures that register the module with nginx, which are data for
  nginx only; the plugin structure and prototypes no code uses; tests, build and deployment files.
\<close>

section \<open>The module and the daemon\<close>

text \<open>What the gateway learns of a key: the value of its live record, nothing for a tombstone or no record.\<close>

definition live_value :: "lww_rec option \<Rightarrow> bytes option" where
  "live_value v = (case v of Some r \<Rightarrow> if l_tomb r then None else Some (l_value r) | None \<Rightarrow> None)"

definition verdict :: "bytes option \<Rightarrow> ngx_ctx \<Rightarrow> ngx_rc \<times> ngx_ctx" where
  "verdict v ctx = (case v of
     Some user \<Rightarrow> (NGX_OK, ctx\<lparr>cx_authenticated := True, cx_auth_user := Some (Some user)\<rparr>)
   | None \<Rightarrow> (NGX_HTTP_FORBIDDEN, ctx))"

lemma request_for_key:
  assumes "key_ok key"
  shows "request_ok (client_frame OP_GET key []) key"
    and "cache_request key = concat (map request_wire [(client_frame OP_GET key [], key)])"
  using client_request_ok(1) [OF assms, of "[]" OP_GET]
  by (simp_all add: cache_request_wire request_wire_def client_frame_def)

lemma get_reply:
  assumes "key_ok key" and "db_wf B s" and "sv_dbp st = Some s" and "sv_mem st = (\<lambda>_. True)"
    and "case live_value (db_view B s key) of Some v \<Rightarrow> length v \<le> 4088 | None \<Rightarrow> True"
    and "serve_all B [(client_frame OP_GET key [], key)] st = (replies, st')"
  shows "sv_dbp st' = Some s \<and> length (concat (map reply_wire replies)) \<le> 4096
    \<and> (case live_value (db_view B s key) of
         Some v \<Rightarrow> answers_with (concat (map reply_wire replies)) NGX_PROTO_STATUS_OK v
       | None \<Rightarrow> \<exists>status. status \<noteq> NGX_PROTO_STATUS_OK \<and> answers_with (concat (map reply_wire replies)) status [])"
proof -
  have rep: "replies = [fst (process_get B key st)]" "st' = snd (process_get B key st)"
    using assms(6) by (auto simp: process_op_get [OF assms(1)] split: prod.splits)
  have db: "sv_dbp (snd (process_get B key st)) = Some s"
    using assms(3) by (simp add: process_get_eq Let_def sv_after_def split: prod.split db_result.split option.split)
  note get = db_get_view [OF assms(1,2)]
  show ?thesis
  proof (cases "live_value (db_view B s key)")
    case None
    then have "\<exists>status. status \<noteq> NGX_PROTO_STATUS_OK \<and> fst (process_get B key st) = (status, None, 0)"
      using assms(3,4) get
      by (auto simp: live_value_def process_get_eq Let_def const_defs split: option.splits if_splits)
    then obtain status where st: "status \<noteq> NGX_PROTO_STATUS_OK" "fst (process_get B key st) = (status, None, 0)" by blast
    have "answers_with (reply_wire (status, None, 0)) status []"
      unfolding answers_with_def reply_wire_def by (intro exI [of _ "[0, 0]"] exI [of _ "[]"]) simp
    with st None rep db show ?thesis by (auto simp: reply_wire_def)
  next
    case (Some v)
    then obtain r where r: "db_view B s key = Some r" "\<not> l_tomb r" "v = l_value r"
      by (auto simp: live_value_def split: option.splits if_splits)
    have len: "length v \<le> 4088" using assms(5) Some by simp
    then have n: "unat (of_nat (length v) :: u32) = length v" by (simp add: unat_of_nat take_bit_nat_def)
    have rw: "reply_wire (fst (process_get B key st)) = be_bytes 2 NGX_PROTO_STATUS_OK @ be_bytes 4 (of_nat (length v) :: u32) @ [0, 0] @ v"
      using assms(3,4) get r n by (simp add: process_get_eq Let_def reply_wire_def const_defs)
    then have "answers_with (reply_wire (fst (process_get B key st))) NGX_PROTO_STATUS_OK v"
      unfolding answers_with_def using len by (intro exI [of _ "[0, 0]"] exI [of _ "[]"]) simp
    with Some rep db rw len show ?thesis by simp
  qed
qed

section \<open>Properties\<close>

text \<open>
  C2: the module and the daemon agree.  Give the daemon the bytes the module writes for a credential (a key of 1 to
  1024 bytes), in whatever segments.  The daemon serves the connection to its end and changes nothing in its
  store.  Any request of the gateway that carries this credential, outside \<open>/public\<close>, whose connection returns the
  bytes the daemon wrote, in whatever segments, is then decided by the replicated store: if the key has a live
  record (of at most 4088 bytes, what the module's buffer takes) it passes as authenticated, with the record's value
  as the user; if the key is absent, deleted, or cannot be read, the answer is 403 and the context is untouched.
\<close>

theorem gateway_asks_daemon:
  assumes "key_ok key" and "db_wf B s" and "sv_dbp st = Some s" and "sv_mem st = (\<lambda>_. True)" and "pp_inv (sv_payload st) out"
    and "stream_of (s_rx c) = cache_request key" and "stream_end (s_rx c) \<noteq> EndBlock" and "s_out c = []" and "tx_live 4096 (s_tx c)"
    and "case live_value (db_view B s key) of Some v \<Rightarrow> length v \<le> 4088 | None \<Rightarrow> True"
  shows "\<exists>c' st'. handle_client B c st = Done (c', st') \<and> sv_dbp st' = Some s \<and>
    (\<forall>nx kcf addr r ctx env s0.
       nc_cache_addr kcf = Some addr \<and> addr \<noteq> [] \<and> \<not> prefix (cstr ''/public'') (rq_uri r) \<and>
       ngx_http_dmmr_extract_credential nx r = Some key \<and> pool_ok r \<and> ax_mem env 0 \<and>
       ngx_http_dmmr_cache_connect_new nx (ax_net env 0) addr = Some s0 \<and>
       tx_live (frame_size + length key) (s_tx s0) \<and> RxIntr \<notin> set (s_rx s0) \<and> stream_of (s_rx s0) = s_out c' \<longrightarrow>
       (\<exists>rc r' ctx' env'. ngx_http_dmmr_auth nx (Some kcf) r ctx env = (rc, r', ctx', env')
          \<and> (rc, ctx') = verdict (live_value (db_view B s key)) ctx))"
proof -
  let ?reqs = "[(client_frame OP_GET key [], key)]"
  obtain replies st1 where all: "serve_all B ?reqs st = (replies, st1)" by fastforce
  note g = get_reply [OF assms(1-4,10) all]
  let ?w = "concat (map reply_wire replies)"
  have tx: "tx_live (length ?w) (s_tx c)" using assms(9) g tx_live_mono by blast
  have ok: "\<forall>(f, p) \<in> set ?reqs. request_ok f p" using request_for_key(1) [OF assms(1)] by simp
  from handle_client_serves [OF ok _ assms(7,4,5), of B] assms(6,8) request_for_key(2) [OF assms(1)] all tx
  obtain c' st' where d: "handle_client B c st = Done (c', st')" "s_out c' = ?w" "sv_dbp st' = Some s"
    using g by auto
  have key: "length key \<le> 4072" using assms(1) by (simp add: key_ok_def const_defs)
  have "\<exists>rc r' ctx' env'. ngx_http_dmmr_auth nx (Some kcf) r ctx env = (rc, r', ctx', env')
          \<and> (rc, ctx') = verdict (live_value (db_view B s key)) ctx"
    if h: "nc_cache_addr kcf = Some addr" "addr \<noteq> []" "\<not> prefix (cstr ''/public'') (rq_uri r)"
      "ngx_http_dmmr_extract_credential nx r = Some key" "pool_ok r" "ax_mem env 0"
      "ngx_http_dmmr_cache_connect_new nx (ax_net env 0) addr = Some s0"
      "tx_live (frame_size + length key) (s_tx s0)" "RxIntr \<notin> set (s_rx s0)" "stream_of (s_rx s0) = s_out c'"
    for nx kcf addr r ctx env s0
  proof -
    note asks = auth_asks [OF refl h(1-4) key h(5-9), unfolded h(10) d(2)]
    show ?thesis
      using asks [of _ _ ctx] g
      by (cases "live_value (db_view B s key)") (fastforce simp: verdict_def)+
  qed
  with d(1,3) show ?thesis by blast
qed

definition stocked :: "(bytes \<rightharpoonup> bytes) server" where
  "stocked = demo_server\<lparr>sv_dbp := Some (Map.empty(cstr ''k'' \<mapsto> record_image 5 1 9 False (cstr ''user'')))\<rparr>"

definition asking :: sock where
  "asking = \<lparr>s_rx = [RxData (cache_request (cstr ''k'')), RxEof], s_tx = replicate 4096 (TxTake 1), s_errno_eintr = False,
     s_out = [], s_open = True\<rparr>"

theorem gateway_asks_daemon_witness:
  "\<exists>c' st' r' ctx' env'. handle_client map_bdb asking stocked = Done (c', st') \<and>
     ngx_http_dmmr_auth demo_api (Some demo_conf) demo_request ctx_zero (demo_env (demo_reply\<lparr>s_rx := [RxData (s_out c')]\<rparr>))
       = (NGX_OK, r', ctx', env') \<and> cx_auth_user ctx' = Some (Some (cstr ''user''))"
proof -
  let ?s = "Map.empty(cstr ''k'' \<mapsto> record_image 5 1 9 False (cstr ''user'')) :: bytes \<rightharpoonup> bytes"
  have key: "key_ok (cstr ''k'')" by (simp add: key_ok_def const_defs)
  have wf: "db_wf map_bdb ?s" and view: "live_value (db_view map_bdb ?s (cstr ''k'')) = Some (cstr ''user'')"
    using record_image_valid [of "cstr ''user''" 5 1 9 False]
    by (auto simp: db_wf_def db_view_def live_value_def mk_rec_def map_bdb_def const_defs split: if_splits)
  have st: "sv_dbp stocked = Some ?s" "sv_mem stocked = (\<lambda>_. True)" "pp_inv (sv_payload stocked) {}"
    using demo_conn_ok(4,5) by (simp_all add: stocked_def)
  have c: "stream_of (s_rx asking) = cache_request (cstr ''k'')" "stream_end (s_rx asking) \<noteq> EndBlock"
    "s_out asking = []" "tx_live 4096 (s_tx asking)"
    by (simp_all add: asking_def tx_live_def)
  from gateway_asks_daemon [OF key wf st c, unfolded view option.case] obtain c' st' where
    d: "handle_client map_bdb asking stocked = Done (c', st')"
    and all: "\<forall>nx kcf addr r ctx env s0.
       nc_cache_addr kcf = Some addr \<and> addr \<noteq> [] \<and> \<not> prefix (cstr ''/public'') (rq_uri r) \<and>
       ngx_http_dmmr_extract_credential nx r = Some (cstr ''k'') \<and> pool_ok r \<and> ax_mem env 0 \<and>
       ngx_http_dmmr_cache_connect_new nx (ax_net env 0) addr = Some s0 \<and>
       tx_live (frame_size + length (cstr ''k'')) (s_tx s0) \<and> RxIntr \<notin> set (s_rx s0) \<and> stream_of (s_rx s0) = s_out c' \<longrightarrow>
       (\<exists>rc r' ctx' env'. ngx_http_dmmr_auth nx (Some kcf) r ctx env = (rc, r', ctx', env')
          \<and> (rc, ctx') = verdict (Some (cstr ''user'')) ctx)"
    by auto
  let ?s0 = "demo_reply\<lparr>s_rx := [RxData (s_out c')]\<rparr>"
  have "nc_cache_addr demo_conf = Some (cstr ''tcp:c:1'')" "cstr ''tcp:c:1'' \<noteq> []" "pool_ok demo_request" "ax_mem (demo_env ?s0) 0"
    "tx_live (frame_size + length (cstr ''k'')) (s_tx ?s0)" "RxIntr \<notin> set (s_rx ?s0)" "stream_of (s_rx ?s0) = s_out c'"
    by (simp_all add: demo_conf_def pool_ok_def demo_request_def demo_env_def demo_reply_def tx_live_def frame_size_def)
  with all [rule_format, of demo_conf "cstr ''tcp:c:1''" demo_request demo_api "demo_env ?s0" ?s0 ctx_zero]
    demo_not_public demo_credential demo_connects
  obtain rc r' ctx' env' where "ngx_http_dmmr_auth demo_api (Some demo_conf) demo_request ctx_zero (demo_env ?s0) = (rc, r', ctx', env')"
    "(rc, ctx') = verdict (Some (cstr ''user'')) ctx_zero" by blast
  with d show ?thesis by (auto simp: verdict_def)
qed

end
